(* ===== verification/Kernel_Prelude.thy ===== *)
theory Kernel_Prelude
  imports Main "HOL-Library.Word"
begin

text \<open>
  What every component of the kernel shares: Rust's panics as values, the arithmetic of
  \<open>u64\<close> and \<open>usize\<close> under both build profiles, the loops over ranges and
  slices, and the facts about lists, page alignment and address intervals that the component
  proofs use.

  \<^item> A Rust expression that may panic is a value of type \<open>'a res\<close>: \<open>Inl\<close> is
    the panic, \<open>Inr\<close> the result. \<open>and_then\<close> sequences two of them.
  \<^item> \<open>u64\<close> and \<open>usize\<close> values (the target is \<^verbatim>\<open>x86_64-unknown-none\<close>) are
    natural numbers below \<open>2 ^ 64\<close>; an operation that leaves this range panics in a
    debug build and wraps in a release build (the workspace's release profile keeps the
    default of no overflow checks). Bit-level code uses \<^typ>\<open>'a word\<close> instead.
\<close>

named_theorems arith_ok \<open>a checked operation that stays in range is the exact one\<close>
named_theorems loop_inv \<open>invariant rules of the loop combinators\<close>

type_synonym u8 = "8 word"
type_synonym u16 = "16 word"
type_synonym u32 = "32 word"
type_synonym u64 = "64 word"


section \<open>Panics and results\<close>

datatype profile = Debug | Release

text \<open>\<open>Cpu_Fault\<close> is not a panic but a general protection fault, for which the kernel has no handler.\<close>

datatype panic =
    Arith_Overflow
  | Index_Out_Of_Bounds
  | Divide_By_Zero
  | Cpu_Fault
  | Panic string

type_synonym 'a res = "panic + 'a"

definition and_then :: "'e + 'a \<Rightarrow> ('a \<Rightarrow> 'e + 'b) \<Rightarrow> 'e + 'b" where
  "and_then m k = (case m of Inl e \<Rightarrow> Inl e | Inr x \<Rightarrow> k x)"

lemma and_then_simps [simp]:
  "and_then (Inl e) k = Inl e"
  "and_then (Inr x) k = k x"
  by (simp_all add: and_then_def)

lemma and_then_Inr_iff: "and_then m k = Inr y \<longleftrightarrow> (\<exists>x. m = Inr x \<and> k x = Inr y)"
  by (cases m) auto

lemma and_then_InrE [elim!]:
  assumes "and_then m k = Inr y"
  obtains x where "m = Inr x" and "k x = Inr y"
  using assms by (auto simp: and_then_Inr_iff)

lemma and_then_cong [fundef_cong]:
  "m = n \<Longrightarrow> (\<And>x. n = Inr x \<Longrightarrow> k x = l x) \<Longrightarrow> and_then m k = and_then n l"
  by (cases n) auto

text \<open>\<^verbatim>\<open>Option::expect\<close> and \<^verbatim>\<open>Result::expect\<close>: panic with a message.\<close>

definition expect :: "'a option \<Rightarrow> string \<Rightarrow> 'a res" where
  "expect x msg = (case x of Some v \<Rightarrow> Inr v | None \<Rightarrow> Inl (Panic msg))"

lemma expect_simps [simp]:
  "expect (Some v) msg = Inr v"
  "expect None msg = Inl (Panic msg)"
  by (simp_all add: expect_def)

lemma expect_Inr_iff [simp]: "expect x msg = Inr v \<longleftrightarrow> x = Some v"
  by (cases x) auto


text \<open>
  Code that may wait forever as well: \<open>None\<close> is a call that does not return.
\<close>

definition o_then :: "'a res option \<Rightarrow> ('a \<Rightarrow> 'b res option) \<Rightarrow> 'b res option" where
  "o_then m k = (case m of None \<Rightarrow> None | Some (Inl e) \<Rightarrow> Some (Inl e) | Some (Inr x) \<Rightarrow> k x)"

lemma o_then_simps [simp]:
  "o_then None k = None" "o_then (Some (Inl e)) k = Some (Inl e)" "o_then (Some (Inr x)) k = k x"
  by (simp_all add: o_then_def)

fun for_each_o :: "('a \<Rightarrow> 's \<Rightarrow> 's res option) \<Rightarrow> 'a list \<Rightarrow> 's \<Rightarrow> 's res option" where
  "for_each_o body [] s = Some (Inr s)"
| "for_each_o body (x # xs) s = o_then (body x s) (for_each_o body xs)"


section \<open>The arithmetic of u64 and usize\<close>

definition u64_wrap :: "profile \<Rightarrow> nat \<Rightarrow> nat res" where
  "u64_wrap p n =
     (if n < 2 ^ 64 then Inr n
      else case p of Debug \<Rightarrow> Inl Arith_Overflow | Release \<Rightarrow> Inr (n mod 2 ^ 64))"

definition u64_add :: "profile \<Rightarrow> nat \<Rightarrow> nat \<Rightarrow> nat res" where
  "u64_add p a b = u64_wrap p (a + b)"

definition u64_mul :: "profile \<Rightarrow> nat \<Rightarrow> nat \<Rightarrow> nat res" where
  "u64_mul p a b = u64_wrap p (a * b)"

definition u64_sub :: "profile \<Rightarrow> nat \<Rightarrow> nat \<Rightarrow> nat res" where
  "u64_sub p a b =
     (if b \<le> a then Inr (a - b)
      else case p of Debug \<Rightarrow> Inl Arith_Overflow | Release \<Rightarrow> Inr ((a + 2 ^ 64 - b) mod 2 ^ 64))"

lemma u64_add_ok [arith_ok]: "a + b < 2 ^ 64 \<Longrightarrow> u64_add p a b = Inr (a + b)"
  by (simp add: u64_add_def u64_wrap_def)

lemma u64_mul_ok [arith_ok]: "a * b < 2 ^ 64 \<Longrightarrow> u64_mul p a b = Inr (a * b)"
  by (simp add: u64_mul_def u64_wrap_def)

lemma u64_sub_ok [arith_ok]: "b \<le> a \<Longrightarrow> u64_sub p a b = Inr (a - b)"
  by (simp add: u64_sub_def)

text \<open>The idiom \<open>(a + PAGE_SIZE - 1)\<close> that precedes a rounded-up division.\<close>

lemma u64_round_up_ok [arith_ok]:
  "a + 4096 < 2 ^ 64 \<Longrightarrow> and_then (u64_add p a 4096) (\<lambda>x. and_then (u64_sub p x (Suc 0)) k) = k (a + 4095)"
  by (simp add: u64_add_ok u64_sub_ok add.commute)

lemma u64_add_Release: "u64_add Release a b = Inr ((a + b) mod 2 ^ 64)"
  by (simp add: u64_add_def u64_wrap_def)

lemma u64_add_Debug: "u64_add Debug a b = (if a + b < 2 ^ 64 then Inr (a + b) else Inl Arith_Overflow)"
  by (simp add: u64_add_def u64_wrap_def)

lemma u64_mul_Release: "u64_mul Release a b = Inr ((a * b) mod 2 ^ 64)"
  by (simp add: u64_mul_def u64_wrap_def)

lemma u64_mul_Debug: "u64_mul Debug a b = (if a * b < 2 ^ 64 then Inr (a * b) else Inl Arith_Overflow)"
  by (simp add: u64_mul_def u64_wrap_def)

text \<open>Division by a value that may be zero.\<close>

definition u64_div :: "nat \<Rightarrow> nat \<Rightarrow> nat res" where
  "u64_div a b = (if b = 0 then Inl Divide_By_Zero else Inr (a div b))"

lemma u64_div_ok [arith_ok]: "0 < b \<Longrightarrow> u64_div a b = Inr (a div b)"
  by (simp add: u64_div_def)


text \<open>The same sums on 64-bit words.\<close>

lemma unat_add_u64: "unat (a + b :: u64) = (unat a + unat b) mod 2 ^ 64"
  by (simp add: unat_word_ariths)

lemma unat_of_nat_u64: "k < 2 ^ 64 \<Longrightarrow> unat (of_nat k :: u64) = k"
  by (simp add: unat_of_nat take_bit_eq_mod)

lemma unat_u64_less: "unat (a :: u64) < 2 ^ 64"
  using unsigned_less [of a] by simp

lemma mod_once: "s < m \<Longrightarrow> k < m \<Longrightarrow> m \<le> s + k \<Longrightarrow> (s + k) mod m = s + k - (m :: nat)"
  by (simp add: mod_if)


section \<open>Loops over slices and ranges\<close>

text \<open>\<open>for x in xs { body }\<close>, stopping at the first panic.\<close>

fun for_each :: "('a \<Rightarrow> 's \<Rightarrow> 'e + 's) \<Rightarrow> 'a list \<Rightarrow> 's \<Rightarrow> 'e + 's" where
  "for_each body [] s = Inr s"
| "for_each body (x # xs) s = and_then (body x s) (for_each body xs)"

lemma for_each_append:
  "for_each body (xs @ ys) s = and_then (for_each body xs s) (for_each body ys)"
proof (induction xs arbitrary: s)
  case (Cons x xs)
  then show ?case by (cases "body x s") simp_all
qed simp

text \<open>
  Total correctness of a loop: if the invariant holds before, and the body returns and keeps it,
  the loop returns and the invariant holds after. The invariant may mention what is done.
\<close>

lemma for_each_total [loop_inv]:
  assumes "I [] s"
    and "\<And>ys x zs t. xs = ys @ x # zs \<Longrightarrow> I ys t \<Longrightarrow> \<exists>t'. body x t = Inr t' \<and> I (ys @ [x]) t'"
  shows "\<exists>s'. for_each body xs s = Inr s' \<and> I xs s'"
  using assms
proof (induction xs arbitrary: s rule: rev_induct)
  case (snoc x xs)
  have "\<exists>t. for_each body xs s = Inr t \<and> I xs t"
    by (rule snoc.IH [OF snoc.prems(1)]) (metis append_assoc append_Cons snoc.prems(2))
  then obtain t where t: "for_each body xs s = Inr t" "I xs t" by blast
  moreover obtain t' where "body x t = Inr t'" "I (xs @ [x]) t'"
    using snoc.prems(2) [of xs x "[]" t] t(2) by auto
  ultimately show ?case by (simp add: for_each_append)
qed simp

lemma for_each_partial [loop_inv]:
  assumes "for_each body xs s = Inr s'" and "P s"
    and "\<And>x t t'. x \<in> set xs \<Longrightarrow> P t \<Longrightarrow> body x t = Inr t' \<Longrightarrow> P t'"
  shows "P s'"
  using assms
proof (induction xs arbitrary: s)
  case (Cons x xs)
  from Cons.prems(1) obtain t where t: "body x s = Inr t" "for_each body xs t = Inr s'"
    by auto
  have "P t" by (rule Cons.prems(3) [OF _ Cons.prems(2) t(1)]) simp
  then show ?case by (rule Cons.IH [OF t(2)]) (auto intro: Cons.prems(3))
qed simp

text \<open>A computation that ends in one of the panics \<open>E\<close>, or in a state with \<open>Q\<close>.\<close>

definition returns :: "'e set \<Rightarrow> ('a \<Rightarrow> bool) \<Rightarrow> 'e + 'a \<Rightarrow> bool" where
  "returns E Q r \<longleftrightarrow> (case r of Inl e \<Rightarrow> e \<in> E | Inr x \<Rightarrow> Q x)"

lemma returns_simps [simp]: "returns E Q (Inl e) \<longleftrightarrow> e \<in> E" "returns E Q (Inr x) \<longleftrightarrow> Q x"
  by (simp_all add: returns_def)

lemma returns_bind: "returns E Q m \<Longrightarrow> (\<And>x. Q x \<Longrightarrow> returns E R (k x)) \<Longrightarrow> returns E R (and_then m k)"
  by (cases m) simp_all

lemma returns_mono: "returns E Q r \<Longrightarrow> E \<subseteq> E' \<Longrightarrow> (\<And>x. Q x \<Longrightarrow> R x) \<Longrightarrow> returns E' R r"
  by (cases r) auto

lemma returns_for_each:
  "I 0 s \<Longrightarrow> (\<And>i s. i < length xs \<Longrightarrow> I i s \<Longrightarrow> returns E (I (Suc i)) (f (xs ! i) s)) \<Longrightarrow> returns E (I (length xs)) (for_each f xs s)"
proof (induction xs arbitrary: s I)
  case (Cons x xs)
  have "returns E (I (Suc 0)) (f x s)" using Cons.prems(2) [of 0 s] Cons.prems(1) by simp
  moreover have "returns E (I (length (x # xs))) (for_each f xs s')" if "I (Suc 0) s'" for s'
    using Cons.IH [of "\<lambda>i. I (Suc i)" s', OF that] Cons.prems(2) [of "Suc _"] by simp
  ultimately show ?case unfolding for_each.simps by (rule returns_bind)
qed simp

text \<open>A loop over a range whose state after each index is known.\<close>

lemma for_each_upt:
  assumes "m \<le> n" and "\<And>i. m \<le> i \<Longrightarrow> i < n \<Longrightarrow> body i (f i) = Inr (f (Suc i))"
  shows "for_each body [m..<n] (f m) = Inr (f n)"
  using assms
proof (induction n)
  case (Suc n)
  then show ?case by (cases "m = Suc n") (simp_all add: for_each_append)
qed simp

text \<open>The same for \<open>for (i, x) in xs.iter().enumerate()\<close>.\<close>

lemma for_each_enumerate:
  assumes "\<And>i. i < length xs \<Longrightarrow> body (i, xs ! i) (f i) = Inr (f (Suc i))"
  shows "for_each body (enumerate 0 xs) (f 0) = Inr (f (length xs))"
  using assms
proof (induction xs rule: rev_induct)
  case (snoc x xs)
  have "body (i, xs ! i) (f i) = Inr (f (Suc i))" if "i < length xs" for i
    using snoc.prems [of i] that by (simp add: nth_append)
  then show ?case using snoc.IH snoc.prems [of "length xs"] by (simp add: enumerate_append_eq for_each_append)
qed simp

text \<open>Indexing a slice.\<close>

definition nth_res :: "'a list \<Rightarrow> nat \<Rightarrow> 'a res" where
  "nth_res xs i = (if i < length xs then Inr (xs ! i) else Inl Index_Out_Of_Bounds)"

lemma nth_res_ok [simp]: "i < length xs \<Longrightarrow> nth_res xs i = Inr (xs ! i)"
  by (simp add: nth_res_def)

text \<open>\<^verbatim>\<open>Iterator::position\<close> and \<^verbatim>\<open>enumerate().find(..)\<close>.\<close>

fun position :: "('a \<Rightarrow> bool) \<Rightarrow> 'a list \<Rightarrow> nat option" where
  "position P [] = None"
| "position P (x # xs) = (if P x then Some 0 else map_option Suc (position P xs))"

lemma position_Some_iff:
  "position P xs = Some i \<longleftrightarrow> i < length xs \<and> P (xs ! i) \<and> (\<forall>j<i. \<not> P (xs ! j))"
proof (induction xs arbitrary: i)
  case (Cons x xs)
  show ?case
  proof (cases i)
    case (Suc k)
    then show ?thesis using Cons [of k] by (auto simp: less_Suc_eq_0_disj)
  qed auto
qed simp

lemma position_None_iff: "position P xs = None \<longleftrightarrow> (\<forall>x\<in>set xs. \<not> P x)"
  by (induction xs) auto

lemma position_upt_Some:
  "position P [0..<n] = Some i \<longleftrightarrow> i < n \<and> P i \<and> (\<forall>j<i. \<not> P j)"
  by (auto simp: position_Some_iff)

lemma position_upt_None: "position P [0..<n] = None \<longleftrightarrow> (\<forall>i<n. \<not> P i)"
  by (auto simp: position_None_iff)


text \<open>A bounded quantifier as a list, so that a closed instance evaluates.\<close>

lemma all_less_list: "(\<forall>i<n. P i) \<longleftrightarrow> list_all P [0..<n]"
  by (auto simp: list_all_iff)


section \<open>Pages and address intervals\<close>

definition align_down :: "nat \<Rightarrow> nat" where
  "align_down a = a - a mod 4096"

lemma align_down_dvd [simp]: "4096 dvd align_down a"
  by (simp add: align_down_def minus_mod_eq_mult_div)

lemma align_down_id [simp]: "4096 dvd a \<Longrightarrow> align_down a = a"
  by (simp add: align_down_def)

lemma align_down_mult [simp]: "align_down (k * 4096) = k * 4096"
  by simp

lemma align_down_le: "align_down a \<le> a"
  by (simp add: align_down_def)

lemma align_down_gt: "a < align_down a + 4096"
  unfolding align_down_def by (metis add.commute less_diff_conv2 mod_less_divisor mod_less_eq_dividend
      nat_add_left_cancel_less ordered_cancel_comm_monoid_diff_class.add_diff_inverse zero_less_numeral)

text \<open>The byte interval of a block of \<open>s\<close> bytes at address \<open>a\<close>.\<close>

definition blk :: "nat \<times> nat \<Rightarrow> nat set" where
  "blk x = {fst x ..< fst x + snd x}"

lemma in_blk_iff [simp]: "b \<in> blk (a, s) \<longleftrightarrow> a \<le> b \<and> b < a + s"
  by (auto simp: blk_def)

lemma blk_disjoint_iff:
  "0 < s \<Longrightarrow> 0 < t \<Longrightarrow> blk (a, s) \<inter> blk (b, t) = {} \<longleftrightarrow> a + s \<le> b \<or> b + t \<le> a"
  by (auto simp: blk_def ivl_disj_int)

lemma blk_disjointI: "a + s \<le> b \<or> b + t \<le> a \<Longrightarrow> blk (a, s) \<inter> blk (b, t) = {}"
  by (auto simp: blk_def)

lemma blk_mono: "a \<le> b \<Longrightarrow> b + t \<le> a + s \<Longrightarrow> blk (b, t) \<subseteq> blk (a, s)"
  by (auto simp: blk_def)

end
