(* ===== verification/Frame_Contracts.thy ===== *)
theory Frame_Contracts
  imports Kernel_Prelude
begin

text \<open>
  The contracts of the traits \<^verbatim>\<open>FrameAllocator\<close> and \<^verbatim>\<open>FrameDeallocator\<close> of the
  \<^verbatim>\<open>x86_64\<close> crate, which the allocators of \<^verbatim>\<open>kernel/src/memory.rs\<close> implement and
  \<^verbatim>\<open>PageAllocator<M, F>\<close> is generic over, as locales; and what a client may conclude from them
  about sequences of allocations. \<open>alloc_n\<close> and \<open>dealloc_all\<close> are such sequences.
\<close>

section \<open>The traits FrameAllocator and FrameDeallocator as contracts\<close>

text \<open>
  \<open>free\<close> is the set of frames the allocator may still hand out. Allocation hands out one of
  them and removes it, and fails only when none is left; deallocation puts a managed frame back.
\<close>

locale frame_allocator =
  fixes alloc :: "'f \<Rightarrow> (nat option \<times> 'f) res"
    and free :: "'f \<Rightarrow> nat set"
    and inv :: "'f \<Rightarrow> bool"
  assumes alloc_total: "inv f \<Longrightarrow> \<exists>r f'. alloc f = Inr (r, f') \<and> inv f' \<and>
    (case r of None \<Rightarrow> free f = {} \<and> free f' = {} | Some x \<Rightarrow> x \<in> free f \<and> free f' = free f - {x})"

locale frame_deallocator = frame_allocator alloc free inv
  for alloc :: "'f \<Rightarrow> (nat option \<times> 'f) res" and free :: "'f \<Rightarrow> nat set" and inv :: "'f \<Rightarrow> bool" +
  fixes dealloc :: "'f \<Rightarrow> nat \<Rightarrow> 'f res"
    and owned :: "'f \<Rightarrow> nat set"
  assumes free_owned: "inv f \<Longrightarrow> free f \<subseteq> owned f"
    and alloc_owned: "inv f \<Longrightarrow> alloc f = Inr (r, f') \<Longrightarrow> owned f' = owned f"
    and dealloc_total: "inv f \<Longrightarrow> x \<in> owned f \<Longrightarrow>
      \<exists>f'. dealloc f x = Inr f' \<and> inv f' \<and> free f' = insert x (free f) \<and> owned f' = owned f"

text \<open>\<open>n\<close> allocations in a row, stopping when the allocator has nothing left.\<close>

fun alloc_n :: "('f \<Rightarrow> (nat option \<times> 'f) res) \<Rightarrow> nat \<Rightarrow> 'f \<Rightarrow> (nat list \<times> 'f) res" where
  "alloc_n alloc 0 f = Inr ([], f)"
| "alloc_n alloc (Suc n) f =
     and_then (alloc f) (\<lambda>(r, f').
       case r of None \<Rightarrow> Inr ([], f')
       | Some x \<Rightarrow> and_then (alloc_n alloc n f') (\<lambda>(xs, f''). Inr (x # xs, f'')))"

text \<open>A list of frames given back one after the other.\<close>

definition dealloc_all :: "('f \<Rightarrow> nat \<Rightarrow> 'f res) \<Rightarrow> nat list \<Rightarrow> 'f \<Rightarrow> 'f res" where
  "dealloc_all dealloc xs f = for_each (\<lambda>x f. dealloc f x) xs f"

context frame_allocator
begin

lemma alloc_n_total:
  assumes "inv f"
  shows "\<exists>xs f'. alloc_n alloc n f = Inr (xs, f') \<and> inv f' \<and> distinct xs \<and> set xs \<subseteq> free f \<and>
    free f' = free f - set xs \<and> length xs \<le> n \<and> (length xs < n \<longrightarrow> free f' = {})"
  using assms
proof (induction n arbitrary: f)
  case (Suc n)
  obtain r f1 where a: "alloc f = Inr (r, f1)" "inv f1"
    and r: "case r of None \<Rightarrow> free f = {} \<and> free f1 = {} | Some x \<Rightarrow> x \<in> free f \<and> free f1 = free f - {x}"
    using alloc_total [OF Suc.prems] by blast
  show ?case
  proof (cases r)
    case None
    then show ?thesis using a r by simp
  next
    case (Some x)
    obtain xs f2 where "alloc_n alloc n f1 = Inr (xs, f2)" "inv f2" "distinct xs" "set xs \<subseteq> free f1"
      "free f2 = free f1 - set xs" "length xs \<le> n" "length xs < n \<longrightarrow> free f2 = {}"
      using Suc.IH [OF a(2)] by blast
    then show ?thesis using Some a r
      by (intro exI [of _ "x # xs"] exI [of _ f2]) auto
  qed
qed simp

lemma alloc_n_count:
  assumes "inv f" and "finite (free f)" and "alloc_n alloc n f = Inr (xs, f')"
  shows "length xs = min n (card (free f))"
proof -
  have xs: "distinct xs" "set xs \<subseteq> free f" "free f' = free f - set xs" "length xs \<le> n"
    "length xs < n \<longrightarrow> free f' = {}"
    using alloc_n_total [OF assms(1), of n] assms(3) by auto
  have "length xs \<le> card (free f)"
    using xs(1,2) assms(2) by (metis card_mono distinct_card)
  moreover have "length xs < n \<Longrightarrow> card (free f) \<le> length xs"
    using xs assms(2) by (metis Diff_eq_empty_iff card_mono distinct_card finite_set)
  ultimately show ?thesis using xs(4) by linarith
qed

end

context frame_deallocator
begin

lemma alloc_n_owned: "inv f \<Longrightarrow> alloc_n alloc n f = Inr (xs, f') \<Longrightarrow> inv f' \<and> owned f' = owned f"
proof (induction n arbitrary: f xs f')
  case (Suc n)
  obtain r f1 where a: "alloc f = Inr (r, f1)" "inv f1"
    using alloc_total [OF Suc.prems(1)] by blast
  have o1: "owned f1 = owned f" by (rule alloc_owned [OF Suc.prems(1) a(1)])
  show ?case
  proof (cases r)
    case None
    then show ?thesis using Suc.prems(2) a o1 by simp
  next
    case (Some x)
    then obtain ys where "alloc_n alloc n f1 = Inr (ys, f')"
      using Suc.prems(2) a(1) by (auto split: prod.splits)
    then show ?thesis using Suc.IH [OF a(2)] o1 by simp
  qed
qed simp

lemma dealloc_all_total:
  assumes "inv f" and "set xs \<subseteq> owned f"
  shows "\<exists>f'. dealloc_all dealloc xs f = Inr f' \<and> inv f' \<and> free f' = set xs \<union> free f \<and> owned f' = owned f"
proof -
  let ?I = "\<lambda>ys g. inv g \<and> free g = set ys \<union> free f \<and> owned g = owned f"
  have "\<exists>f'. for_each (\<lambda>x f. dealloc f x) xs f = Inr f' \<and> ?I xs f'"
  proof (rule for_each_total [where I = ?I])
    fix ys x zs g
    assume "xs = ys @ x # zs" and "?I ys g"
    then show "\<exists>g'. dealloc g x = Inr g' \<and> ?I (ys @ [x]) g'"
      using dealloc_total [of g x] assms(2) by fastforce
  qed (use assms(1) in simp)
  then show ?thesis by (simp add: dealloc_all_def)
qed

lemma alloc_dealloc_all:
  assumes "inv f" and "alloc_n alloc n f = Inr (xs, f')"
  shows "\<exists>f''. dealloc_all dealloc xs f' = Inr f'' \<and> inv f'' \<and> free f'' = free f"
proof -
  have f': "inv f'" "owned f' = owned f" using alloc_n_owned [OF assms] by auto
  have xs: "set xs \<subseteq> free f" "free f' = free f - set xs"
    using alloc_n_total [OF assms(1), of n] assms(2) by auto
  have "set xs \<subseteq> owned f'" using xs(1) free_owned [OF assms(1)] f'(2) by blast
  then show ?thesis using dealloc_all_total [OF f'(1)] xs by fastforce
qed

end

end
