(* ===== verification/Frame_Memory.thy ===== *)
theory Frame_Memory
  imports Frame_Contracts
begin

text \<open>
  Physical memory (\<^verbatim>\<open>kernel/src/memory.rs\<close>): the bitmap frame allocator that the kernel
  installs at boot, and the two older allocators of the same file.

  The code calls three crates that are not part of the repository. Their operations are
  parameters of the definitions below:
  \<^item> \<^verbatim>\<open>bitvec\<close>: the record \<open>bit_slice_ops\<close>, with its documented behaviour in the locale
    \<open>bit_slice\<close>;
  \<^item> \<^verbatim>\<open>x86_64\<close>: address types and the frame that contains an address, the record
    \<open>x86_addr_ops\<close> and the locale \<open>x86_addr\<close>;
  \<^item> \<^verbatim>\<open>bootloader_api\<close>: the memory map is plain data, a list of \<open>memory_region\<close>.

  The bitmap allocator is shown to satisfy the contracts \<open>frame_allocator\<close> and
  \<open>frame_deallocator\<close> of the traits it implements.
\<close>


section \<open>The crates the file calls\<close>

record 'b bit_slice_ops =
  bs_from_slice :: "8 word list \<Rightarrow> 'b"
  bs_len :: "'b \<Rightarrow> nat"
  bs_get :: "'b \<Rightarrow> nat \<Rightarrow> bool"
  bs_set :: "'b \<Rightarrow> nat \<Rightarrow> bool \<Rightarrow> 'b"

locale bit_slice =
  fixes B :: "'b bit_slice_ops"
  assumes bs_len_from_slice: "bs_len B (bs_from_slice B xs) = 8 * length xs"
    and bs_len_set: "i < bs_len B b \<Longrightarrow> bs_len B (bs_set B b i v) = bs_len B b"
    and bs_get_set: "i < bs_len B b \<Longrightarrow> j < bs_len B b \<Longrightarrow>
      bs_get B (bs_set B b i v) j = (if j = i then v else bs_get B b j)"

text \<open>
  Frames and pages are named by their start address. \<open>PhysAddr::new\<close> and
  \<open>VirtAddr::new\<close> panic on an address that is not valid (52 bits physical, canonical
  virtual), and so does adding an offset to a virtual address.
\<close>

record x86_addr_ops =
  phys_addr_new :: "nat \<Rightarrow> nat res"
  phys_frame_containing :: "nat \<Rightarrow> nat"
  virt_addr_new :: "nat \<Rightarrow> nat res"
  page_containing :: "nat \<Rightarrow> nat"
  virt_addr_add :: "nat \<Rightarrow> nat \<Rightarrow> nat res"

definition canonical :: "nat \<Rightarrow> bool" where
  "canonical a \<longleftrightarrow> a < 2 ^ 47 \<or> 2 ^ 64 - 2 ^ 47 \<le> a \<and> a < 2 ^ 64"

locale x86_addr =
  fixes X :: x86_addr_ops
  assumes phys_new_ok: "a < 2 ^ 52 \<Longrightarrow> phys_addr_new X a = Inr a"
    and phys_new_panics: "2 ^ 52 \<le> a \<Longrightarrow> \<exists>e. phys_addr_new X a = Inl e"
    and frame_containing: "phys_frame_containing X a = align_down a"
    and virt_new_ok: "canonical a \<Longrightarrow> virt_addr_new X a = Inr a"
    and virt_new_panics: "\<not> canonical a \<Longrightarrow> \<exists>e. virt_addr_new X a = Inl e"
    and page_containing_eq: "page_containing X a = align_down a"
    and virt_add_ok: "canonical (a + b) \<Longrightarrow> virt_addr_add X a b = Inr (a + b)"
    and virt_add_panics: "\<not> canonical (a + b) \<Longrightarrow> \<exists>e. virt_addr_add X a b = Inl e"

datatype memory_region_kind = Usable | Bootloader | UnknownUefi u32 | UnknownBios u32

record memory_region =
  r_start :: nat
  r_end :: nat
  r_kind :: memory_region_kind


section \<open>Address ranges\<close>

definition PAGE_SIZE :: nat where
  "PAGE_SIZE = 4096"

lemma PAGE_SIZE_val [simp]: "PAGE_SIZE = 4096"
  by (simp add: PAGE_SIZE_def)

record AddressRange =
  ar_start :: nat
  ar_end :: nat

definition ranges_intersect :: "nat \<Rightarrow> nat \<Rightarrow> nat \<Rightarrow> nat \<Rightarrow> bool" where
  "ranges_intersect a_start a_end b_start b_end \<longleftrightarrow> a_start < b_end \<and> b_start < a_end"

definition phys_to_virt :: "profile \<Rightarrow> nat \<Rightarrow> nat \<Rightarrow> nat res" where
  "phys_to_virt p phys offset = u64_add p phys offset"

lemma ranges_intersect_iff:
  assumes "a < b" and "c < d"
  shows "ranges_intersect a b c d \<longleftrightarrow> {a..<b} \<inter> {c..<d} \<noteq> {}"
proof
  assume "ranges_intersect a b c d"
  then have "max a c \<in> {a..<b} \<inter> {c..<d}"
    using assms by (auto simp: ranges_intersect_def)
  then show "{a..<b} \<inter> {c..<d} \<noteq> {}" by blast
qed (auto simp: ranges_intersect_def)

lemma not_ranges_intersectD:
  "\<not> ranges_intersect a b c d \<Longrightarrow> {a..<b} \<inter> {c..<d} = {}"
  by (auto simp: ranges_intersect_def)


section \<open>BitmapFrameAllocator::init\<close>

record 'b bitmap_frame_allocator =
  base_addr :: nat
  frame_count :: nat
  bitmap :: 'b

text \<open>Step 2: the highest end address of a usable region.\<close>

fun max_usable_addr :: "memory_region list \<Rightarrow> nat \<Rightarrow> nat" where
  "max_usable_addr [] max_addr = max_addr"
| "max_usable_addr (region # rs) max_addr =
     (if r_kind region = Usable
      then if r_end region > max_addr then max_usable_addr rs (r_end region)
           else max_usable_addr rs max_addr
      else max_usable_addr rs max_addr)"

text \<open>
  Step 5: the static array \<open>ILLEGAL_REGIONS\<close> of \<open>MAX_ILLEGAL\<close> ranges. Its first
  entry is the fixed range from 1 MiB to 16 MiB, then come the non-usable regions, as many as fit.
\<close>

definition MAX_ILLEGAL :: nat where
  "MAX_ILLEGAL = 64"

definition ILLEGAL_REGIONS_init :: "AddressRange list" where
  "ILLEGAL_REGIONS_init = replicate MAX_ILLEGAL \<lparr>ar_start = 0, ar_end = 0\<rparr>"

fun collect_illegal :: "memory_region list \<Rightarrow> nat \<Rightarrow> AddressRange list \<Rightarrow> AddressRange list" where
  "collect_illegal [] count arr = arr"
| "collect_illegal (region # rs) count arr =
     (if r_kind region \<noteq> Usable \<and> count < MAX_ILLEGAL
      then collect_illegal rs (Suc count)
             (arr[count := \<lparr>ar_start = r_start region, ar_end = r_end region\<rparr>])
      else collect_illegal rs count arr)"

definition fill_illegal :: "memory_region list \<Rightarrow> AddressRange list \<Rightarrow> AddressRange list" where
  "fill_illegal memory_map arr =
     collect_illegal memory_map 1 (arr[0 := \<lparr>ar_start = 0x100000, ar_end = 0x1000000\<rparr>])"

definition intersects_illegal :: "AddressRange list \<Rightarrow> nat \<Rightarrow> nat \<Rightarrow> bool" where
  "intersects_illegal illegal s e \<longleftrightarrow>
     list_ex (\<lambda>off. ranges_intersect s e (ar_start off) (ar_end off)) illegal"

text \<open>Step 6: the first usable region above 1 MiB that can hold the bitmap.\<close>

fun find_region_base ::
    "profile \<Rightarrow> AddressRange list \<Rightarrow> nat \<Rightarrow> memory_region list \<Rightarrow> nat option res" where
  "find_region_base p illegal bytes_needed [] = Inr None"
| "find_region_base p illegal bytes_needed (region # rs) =
     (if r_kind region = Usable
      then if r_end region \<le> 0x100000 then find_region_base p illegal bytes_needed rs
           else let start = max (r_start region) 0x100000 in
             and_then (u64_sub p (r_end region) start) (\<lambda>size.
               if size < bytes_needed then find_region_base p illegal bytes_needed rs
               else if intersects_illegal illegal start (r_end region)
                 then find_region_base p illegal bytes_needed rs
               else Inr (Some start))
      else find_region_base p illegal bytes_needed rs)"

text \<open>A write to one bit; \<open>BitSlice::set\<close> panics when the index is out of range.\<close>

definition bitmap_set :: "'b bit_slice_ops \<Rightarrow> nat \<Rightarrow> bool \<Rightarrow> 'b \<Rightarrow> 'b res" where
  "bitmap_set B i v b = (if i < bs_len B b then Inr (bs_set B b i v) else Inl Index_Out_Of_Bounds)"

text \<open>Step 10: every bit \<open>used\<close>. Step 11: the bitmap's own frames \<open>used\<close>.\<close>

definition mark_all_used :: "'b bit_slice_ops \<Rightarrow> 'b \<Rightarrow> 'b res" where
  "mark_all_used B b = for_each (\<lambda>i. bitmap_set B i True) [0..<bs_len B b] b"

definition mark_bitmap_frames ::
    "profile \<Rightarrow> 'b bit_slice_ops \<Rightarrow> nat \<Rightarrow> nat \<Rightarrow> nat \<Rightarrow> 'b \<Rightarrow> 'b res" where
  "mark_bitmap_frames p B max_frame bitmap_phys_addr bytes_needed b =
     (let start_frame = bitmap_phys_addr div PAGE_SIZE in
      and_then (u64_add p bitmap_phys_addr bytes_needed) (\<lambda>s1.
      and_then (u64_add p s1 PAGE_SIZE) (\<lambda>s2.
      and_then (u64_sub p s2 1) (\<lambda>s3.
        for_each (\<lambda>frame_num b. if frame_num < max_frame then bitmap_set B frame_num True b else Inr b)
          [start_frame..<s3 div PAGE_SIZE] b))))"

text \<open>Step 12: the loop over the frames of one usable region, and the loop over the regions.\<close>

fun free_region_frames ::
    "profile \<Rightarrow> 'b bit_slice_ops \<Rightarrow> AddressRange list \<Rightarrow> nat \<Rightarrow> nat \<Rightarrow> nat \<Rightarrow> nat list \<Rightarrow> 'b \<Rightarrow> 'b res" where
  "free_region_frames p B illegal max_frame bitmap_phys_addr bytes_needed [] b = Inr b"
| "free_region_frames p B illegal max_frame bitmap_phys_addr bytes_needed (frame # fs) b =
     (if frame \<ge> max_frame then Inr b
      else and_then (u64_mul p frame PAGE_SIZE) (\<lambda>frame_addr.
           and_then (u64_add p frame_addr PAGE_SIZE) (\<lambda>frame_end.
           and_then (u64_add p bitmap_phys_addr bytes_needed) (\<lambda>bitmap_end.
             if ranges_intersect frame_addr frame_end bitmap_phys_addr bitmap_end
             then free_region_frames p B illegal max_frame bitmap_phys_addr bytes_needed fs b
             else if intersects_illegal illegal frame_addr frame_end
             then free_region_frames p B illegal max_frame bitmap_phys_addr bytes_needed fs b
             else and_then (bitmap_set B frame False b)
               (free_region_frames p B illegal max_frame bitmap_phys_addr bytes_needed fs)))))"

definition free_usable_frames ::
    "profile \<Rightarrow> 'b bit_slice_ops \<Rightarrow> AddressRange list \<Rightarrow> nat \<Rightarrow> nat \<Rightarrow> nat \<Rightarrow>
     memory_region list \<Rightarrow> 'b \<Rightarrow> 'b res" where
  "free_usable_frames p B illegal max_frame bitmap_phys_addr bytes_needed memory_map b =
     for_each (\<lambda>region b.
       if r_kind region = Usable then
         and_then (u64_add p (r_end region) PAGE_SIZE) (\<lambda>e1.
         and_then (u64_sub p e1 1) (\<lambda>e2.
           free_region_frames p B illegal max_frame bitmap_phys_addr bytes_needed
             [r_start region div PAGE_SIZE..<e2 div PAGE_SIZE] b))
       else Inr b) memory_map b"

text \<open>
  The whole of \<open>init\<close>. \<open>mem\<close> is the memory seen through the bootloader's offset
  mapping: the slice of \<open>bytes_needed\<close> bytes at the bitmap's virtual address is what the
  bit slice is made from. \<open>illegal0\<close> is the static \<open>ILLEGAL_REGIONS\<close> before the call;
  its contents after the call are returned too. The debug prints (steps 1 and 13) have no
  effect on the state.
\<close>

definition bitmap_init ::
    "profile \<Rightarrow> 'b bit_slice_ops \<Rightarrow> (nat \<Rightarrow> u8) \<Rightarrow> AddressRange list \<Rightarrow> memory_region list \<Rightarrow> nat \<Rightarrow>
     ('b bitmap_frame_allocator \<times> AddressRange list) res" where
  "bitmap_init p B mem illegal0 memory_map offset =
     (let max_addr = max_usable_addr memory_map 0 in
      and_then (u64_add p max_addr PAGE_SIZE) (\<lambda>m1.
      and_then (u64_sub p m1 1) (\<lambda>m2.
      let max_frame = m2 div PAGE_SIZE in
      and_then (u64_add p max_frame 7) (\<lambda>n1.
      let bytes_needed = n1 div 8;
          illegal = fill_illegal memory_map illegal0 in
      and_then (find_region_base p illegal bytes_needed memory_map) (\<lambda>region_base.
      and_then (expect region_base ''Could not find a suitable region to place the bitmap!'')
        (\<lambda>bitmap_phys_addr.
      and_then (phys_to_virt p bitmap_phys_addr offset) (\<lambda>bitmap_virt_addr.
      let bits = bs_from_slice B (map (\<lambda>i. mem (bitmap_virt_addr + i)) [0..<bytes_needed]) in
      and_then (mark_all_used B bits) (\<lambda>bits.
      and_then (mark_bitmap_frames p B max_frame bitmap_phys_addr bytes_needed bits) (\<lambda>bits.
      and_then (free_usable_frames p B illegal max_frame bitmap_phys_addr bytes_needed memory_map bits)
        (\<lambda>bits.
      Inr (\<lparr>base_addr = 0, frame_count = max_frame, bitmap = bits\<rparr>, illegal)))))))))))"


section \<open>BitmapFrameAllocator: allocation and deallocation\<close>

definition frame_as_index :: "profile \<Rightarrow> 'b bitmap_frame_allocator \<Rightarrow> nat \<Rightarrow> nat option res" where
  "frame_as_index p a frame_addr =
     (if frame_addr < base_addr a then Inr None
      else and_then (u64_sub p frame_addr (base_addr a)) (\<lambda>offset.
        let index = offset div PAGE_SIZE in
        if index \<ge> frame_count a then Inr None else Inr (Some index)))"

definition index_as_frame :: "profile \<Rightarrow> x86_addr_ops \<Rightarrow> 'b bitmap_frame_allocator \<Rightarrow> nat \<Rightarrow> nat res" where
  "index_as_frame p X a index =
     and_then (u64_mul p index PAGE_SIZE) (\<lambda>off.
     and_then (u64_add p (base_addr a) off) (\<lambda>addr.
     and_then (phys_addr_new X addr) (\<lambda>pa. Inr (phys_frame_containing X pa))))"

definition allocate_frame ::
    "profile \<Rightarrow> x86_addr_ops \<Rightarrow> 'b bit_slice_ops \<Rightarrow> 'b bitmap_frame_allocator \<Rightarrow>
     (nat option \<times> 'b bitmap_frame_allocator) res" where
  "allocate_frame p X B a =
     (let free_index = position (\<lambda>i. \<not> bs_get B (bitmap a) i) [0..<bs_len B (bitmap a)] in
      case free_index of
        Some idx \<Rightarrow>
          and_then (bitmap_set B idx True (bitmap a)) (\<lambda>b.
          and_then (index_as_frame p X (a\<lparr>bitmap := b\<rparr>) idx) (\<lambda>f.
            Inr (Some f, a\<lparr>bitmap := b\<rparr>)))
      | None \<Rightarrow> Inr (None, a))"

definition deallocate_frame ::
    "profile \<Rightarrow> 'b bit_slice_ops \<Rightarrow> 'b bitmap_frame_allocator \<Rightarrow> nat \<Rightarrow> 'b bitmap_frame_allocator res" where
  "deallocate_frame p B a frame =
     and_then (frame_as_index p a frame) (\<lambda>i.
       case i of
         Some idx \<Rightarrow> and_then (bitmap_set B idx False (bitmap a)) (\<lambda>b. Inr (a\<lparr>bitmap := b\<rparr>))
       | None \<Rightarrow> Inl (Panic ''Attempted to deallocate frame that was not allocated by the allocator''))"


section \<open>The older frame allocators of the file\<close>

datatype empty_frame_allocator = EmptyFrameAllocator

definition empty_allocate_frame :: "empty_frame_allocator \<Rightarrow> (nat option \<times> empty_frame_allocator) res" where
  "empty_allocate_frame a = Inr (None, a)"

record boot_info_frame_allocator =
  memory_map :: "memory_region list"
  next_frame :: nat

definition boot_info_init :: "memory_region list \<Rightarrow> boot_info_frame_allocator" where
  "boot_info_init mm = \<lparr>memory_map = mm, next_frame = 0\<rparr>"

text \<open>The addresses of \<open>(s..e).step_by(4096)\<close>.\<close>

definition step_by_4096 :: "nat \<Rightarrow> nat \<Rightarrow> nat list" where
  "step_by_4096 s e = map (\<lambda>k. s + k * 4096) [0..<(e - s + 4095) div 4096]"

definition usable_frame_addresses :: "memory_region list \<Rightarrow> nat list" where
  "usable_frame_addresses mm =
     concat (map (\<lambda>r. step_by_4096 (r_start r) (r_end r)) (filter (\<lambda>r. r_kind r = Usable) mm))"

text \<open>
  \<open>usable_frames().nth(n)\<close>: the iterator makes a frame of every address it passes, so an
  invalid address before the \<open>n\<close>-th panics too.
\<close>

fun usable_frames_nth :: "x86_addr_ops \<Rightarrow> nat list \<Rightarrow> nat \<Rightarrow> nat option res" where
  "usable_frames_nth X [] n = Inr None"
| "usable_frames_nth X (addr # addrs) n =
     and_then (phys_addr_new X addr) (\<lambda>pa.
       case n of 0 \<Rightarrow> Inr (Some (phys_frame_containing X pa)) | Suc m \<Rightarrow> usable_frames_nth X addrs m)"

definition boot_info_allocate_frame ::
    "profile \<Rightarrow> x86_addr_ops \<Rightarrow> boot_info_frame_allocator \<Rightarrow> (nat option \<times> boot_info_frame_allocator) res" where
  "boot_info_allocate_frame p X a =
     and_then (usable_frames_nth X (usable_frame_addresses (memory_map a)) (next_frame a)) (\<lambda>frame.
     and_then (u64_add p (next_frame a) 1) (\<lambda>n.
       Inr (frame, a\<lparr>next_frame := n\<rparr>)))"


section \<open>What init leaves in the bitmap\<close>

text \<open>The bits and the invariant of an allocator, over any bit slice.\<close>

definition free_frames :: "'b bit_slice_ops \<Rightarrow> 'b bitmap_frame_allocator \<Rightarrow> nat set" where
  "free_frames B a = {i * 4096 | i. i < bs_len B (bitmap a) \<and> \<not> bs_get B (bitmap a) i}"

definition managed_frames :: "'b bitmap_frame_allocator \<Rightarrow> nat set" where
  "managed_frames a = {i * 4096 | i. i < frame_count a}"

definition bfa_inv :: "'b bit_slice_ops \<Rightarrow> 'b bitmap_frame_allocator \<Rightarrow> bool" where
  "bfa_inv B a \<longleftrightarrow> base_addr a = 0 \<and> frame_count a \<le> bs_len B (bitmap a) \<and> frame_count a \<le> 2 ^ 40 \<and>
     (\<forall>i<bs_len B (bitmap a). \<not> bs_get B (bitmap a) i \<longrightarrow> i < frame_count a)"

text \<open>The memory maps \<open>init\<close> is meant for: usable regions are not
  empty, lie in the 52-bit physical address space and are mapped at the offset.\<close>

definition valid_memory_map :: "memory_region list \<Rightarrow> nat \<Rightarrow> bool" where
  "valid_memory_map mm offset \<longleftrightarrow>
     (\<forall>r\<in>set mm. r_kind r = Usable \<longrightarrow>
        r_start r < r_end r \<and> r_end r \<le> 2 ^ 52 \<and> r_end r + offset < 2 ^ 64)"

definition map_max_frame :: "memory_region list \<Rightarrow> nat" where
  "map_max_frame mm = (max_usable_addr mm 0 + 4095) div 4096"

definition map_bytes_needed :: "memory_region list \<Rightarrow> nat" where
  "map_bytes_needed mm = (map_max_frame mm + 7) div 8"

text \<open>A region in which step 6 may place the bitmap.\<close>

definition holds_bitmap :: "AddressRange list \<Rightarrow> nat \<Rightarrow> memory_region \<Rightarrow> bool" where
  "holds_bitmap illegal bytes r \<longleftrightarrow> r_kind r = Usable \<and> 0x100000 < r_end r \<and>
     max (r_start r) 0x100000 + bytes \<le> r_end r \<and>
     \<not> intersects_illegal illegal (max (r_start r) 0x100000) (r_end r)"

text \<open>When a frame is truly free: step 12's conditions as one predicate.\<close>

definition truly_free ::
    "memory_region list \<Rightarrow> AddressRange list \<Rightarrow> nat \<Rightarrow> nat \<Rightarrow> nat \<Rightarrow> nat \<Rightarrow> bool" where
  "truly_free mm illegal max_frame bm bytes i \<longleftrightarrow>
     i < max_frame \<and>
     \<not> ranges_intersect (i * 4096) (i * 4096 + 4096) bm (bm + bytes) \<and>
     \<not> intersects_illegal illegal (i * 4096) (i * 4096 + 4096) \<and>
     (\<exists>r\<in>set mm. r_kind r = Usable \<and> r_start r div 4096 \<le> i \<and> i < (r_end r + 4095) div 4096)"

lemma max_usable_addr_ge: "m \<le> max_usable_addr mm m"
proof (induction mm arbitrary: m)
  case (Cons r mm)
  show ?case using Cons [of m] Cons [of "r_end r"] by auto
qed simp

lemma max_usable_addr_bound:
  "(\<And>r. r \<in> set mm \<Longrightarrow> r_kind r = Usable \<Longrightarrow> r_end r \<le> k) \<Longrightarrow> m \<le> k \<Longrightarrow> max_usable_addr mm m \<le> k"
  by (induction mm arbitrary: m) auto

lemma max_usable_addr_upper:
  "r \<in> set mm \<Longrightarrow> r_kind r = Usable \<Longrightarrow> r_end r \<le> max_usable_addr mm m"
proof (induction mm arbitrary: m)
  case (Cons x mm)
  show ?case
  proof (cases "r = x")
    case True
    then show ?thesis
      using Cons.prems max_usable_addr_ge [of "r_end x" mm] max_usable_addr_ge [of m mm] by auto
  next
    case False
    then show ?thesis using Cons by auto
  qed
qed simp

lemma length_collect_illegal [simp]: "length (collect_illegal rs c arr) = length arr"
  by (induction rs c arr rule: collect_illegal.induct) auto

lemma length_fill_illegal [simp]: "length (fill_illegal mm arr) = length arr"
  by (simp add: fill_illegal_def)

lemma collect_illegal_below:
  "i < c \<Longrightarrow> collect_illegal rs c arr ! i = arr ! i"
  by (induction rs c arr rule: collect_illegal.induct) auto

lemma collect_illegal_complete:
  "length arr = MAX_ILLEGAL \<Longrightarrow> c + length (filter (\<lambda>r. r_kind r \<noteq> Usable) rs) \<le> MAX_ILLEGAL \<Longrightarrow>
   r \<in> set rs \<Longrightarrow> r_kind r \<noteq> Usable \<Longrightarrow>
   \<lparr>ar_start = r_start r, ar_end = r_end r\<rparr> \<in> set (collect_illegal rs c arr)"
proof (induction rs c arr rule: collect_illegal.induct)
  case (2 x rs c arr)
  show ?case
  proof (cases "r_kind x \<noteq> Usable")
    case True
    then have c: "c < MAX_ILLEGAL" using "2.prems"(2) by simp
    let ?arr = "arr[c := \<lparr>ar_start = r_start x, ar_end = r_end x\<rparr>]"
    show ?thesis
    proof (cases "r = x")
      case True
      have "collect_illegal rs (Suc c) ?arr ! c = \<lparr>ar_start = r_start x, ar_end = r_end x\<rparr>"
        using c "2.prems"(1) by (simp add: collect_illegal_below)
      then have "\<lparr>ar_start = r_start x, ar_end = r_end x\<rparr> \<in> set (collect_illegal rs (Suc c) ?arr)"
        using c "2.prems"(1) by (metis length_collect_illegal length_list_update nth_mem)
      then show ?thesis using True \<open>r_kind x \<noteq> Usable\<close> c by simp
    next
      case False
      then show ?thesis using "2.IH"(1) "2.prems" \<open>r_kind x \<noteq> Usable\<close> c by simp
    qed
  next
    case False
    then show ?thesis using "2.IH"(2) "2.prems" by auto
  qed
qed simp

lemma fill_illegal_fixed:
  assumes "length arr = MAX_ILLEGAL"
  shows "\<lparr>ar_start = 0x100000, ar_end = 0x1000000\<rparr> \<in> set (fill_illegal mm arr)"
proof -
  have "fill_illegal mm arr ! 0 = \<lparr>ar_start = 0x100000, ar_end = 0x1000000\<rparr>"
    using assms by (simp add: fill_illegal_def collect_illegal_below MAX_ILLEGAL_def)
  then show ?thesis
    using assms by (metis MAX_ILLEGAL_def length_fill_illegal nth_mem zero_less_numeral)
qed

lemma fill_illegal_region:
  assumes "length arr = MAX_ILLEGAL" and "length (filter (\<lambda>r. r_kind r \<noteq> Usable) mm) < MAX_ILLEGAL"
    and "r \<in> set mm" and "r_kind r \<noteq> Usable"
  shows "\<lparr>ar_start = r_start r, ar_end = r_end r\<rparr> \<in> set (fill_illegal mm arr)"
  unfolding fill_illegal_def using assms by (intro collect_illegal_complete) auto

lemma find_region_base_Cons:
  assumes "r_kind r = Usable \<Longrightarrow> r_start r \<le> r_end r"
  shows "find_region_base p illegal bytes (r # rs) =
    (if holds_bitmap illegal bytes r then Inr (Some (max (r_start r) 0x100000))
     else find_region_base p illegal bytes rs)"
proof (cases "r_kind r = Usable \<and> 0x100000 < r_end r")
  case True
  then have le: "max (r_start r) 0x100000 \<le> r_end r" using assms by simp
  then have "r_end r - max (r_start r) 0x100000 < bytes \<longleftrightarrow>
      \<not> max (r_start r) 0x100000 + bytes \<le> r_end r"
    by linarith
  then show ?thesis using True le by (simp add: holds_bitmap_def u64_sub_ok Let_def)
next
  case False
  then show ?thesis by (auto simp: holds_bitmap_def)
qed

lemma find_region_base_total:
  assumes "\<And>r. r \<in> set rs \<Longrightarrow> r_kind r = Usable \<Longrightarrow> r_start r \<le> r_end r"
  shows "\<exists>x. find_region_base p illegal bytes rs = Inr x \<and>
    (case x of None \<Rightarrow> \<forall>r\<in>set rs. \<not> holds_bitmap illegal bytes r
     | Some base \<Rightarrow> \<exists>r\<in>set rs. holds_bitmap illegal bytes r \<and> base = max (r_start r) 0x100000)"
  using assms
proof (induction rs)
  case (Cons r rs)
  then obtain x where "find_region_base p illegal bytes rs = Inr x"
    and "case x of None \<Rightarrow> \<forall>r\<in>set rs. \<not> holds_bitmap illegal bytes r
        | Some base \<Rightarrow> \<exists>r\<in>set rs. holds_bitmap illegal bytes r \<and> base = max (r_start r) 0x100000"
    by auto
  then show ?case
    using Cons.prems by (subst find_region_base_Cons) (auto split: option.splits)
qed simp


text \<open>The loops of \<open>init\<close>, over any bit slice that behaves as documented.\<close>

context bit_slice
begin

lemma bitmap_set_ok:
  assumes "i < bs_len B b"
  shows "\<exists>b'. bitmap_set B i v b = Inr b' \<and> bs_len B b' = bs_len B b \<and>
    (\<forall>j<bs_len B b. bs_get B b' j = (if j = i then v else bs_get B b j))"
  using assms by (simp add: bitmap_set_def bs_len_set bs_get_set)

lemma mark_all_used_ok:
  "\<exists>b'. mark_all_used B b = Inr b' \<and> bs_len B b' = bs_len B b \<and> (\<forall>j<bs_len B b. bs_get B b' j)"
proof -
  let ?I = "\<lambda>ys t. bs_len B t = bs_len B b \<and> (\<forall>j\<in>set ys. bs_get B t j)"
  have "\<exists>b'. for_each (\<lambda>i. bitmap_set B i True) [0..<bs_len B b] b = Inr b' \<and> ?I [0..<bs_len B b] b'"
  proof (rule for_each_total [where I = ?I])
    fix ys x zs t
    assume xs: "[0..<bs_len B b] = ys @ x # zs" and t: "?I ys t"
    have "set (ys @ x # zs) = {0..<bs_len B b}" by (subst xs [symmetric]) simp
    then have "\<forall>j\<in>set (ys @ [x]). j < bs_len B t" using t by auto
    then show "\<exists>t'. bitmap_set B x True t = Inr t' \<and> ?I (ys @ [x]) t'"
      using bitmap_set_ok [of x t True] t by fastforce
  qed simp
  then show ?thesis by (auto simp: mark_all_used_def)
qed

lemma mark_bitmap_frames_ok:
  assumes "bm + bytes + 4096 < 2 ^ 64" and "max_frame \<le> bs_len B b" and "\<forall>j<bs_len B b. bs_get B b j"
  shows "\<exists>b'. mark_bitmap_frames p B max_frame bm bytes b = Inr b' \<and>
    bs_len B b' = bs_len B b \<and> (\<forall>j<bs_len B b. bs_get B b' j)"
proof -
  let ?I = "\<lambda>ys t. bs_len B t = bs_len B b \<and> (\<forall>j<bs_len B b. bs_get B t j)"
  let ?body = "\<lambda>n t. if n < max_frame then bitmap_set B n True t else Inr t"
  have "\<exists>b'. for_each ?body [bm div 4096..<(bm + bytes + 4095) div 4096] b = Inr b' \<and>
      ?I [bm div 4096..<(bm + bytes + 4095) div 4096] b'"
  proof (rule for_each_total [where I = ?I])
    fix ys x zs t
    assume "?I ys t"
    then show "\<exists>t'. ?body x t = Inr t' \<and> ?I (ys @ [x]) t'"
      using bitmap_set_ok [of x t True] assms(2) by fastforce
  qed (use assms(3) in simp)
  then show ?thesis using assms(1) by (simp add: mark_bitmap_frames_def u64_add_ok [of bm] u64_round_up_ok)
qed

lemma free_region_frames_ok:
  assumes "sorted fs" and "max_frame * 4096 < 2 ^ 64" and "max_frame \<le> bs_len B b"
    and "bm + bytes < 2 ^ 64"
  shows "\<exists>b'. free_region_frames p B illegal max_frame bm bytes fs b = Inr b' \<and>
    bs_len B b' = bs_len B b \<and>
    (\<forall>j<bs_len B b. bs_get B b' j \<longleftrightarrow> bs_get B b j \<and> \<not> (j \<in> set fs \<and> j < max_frame \<and>
       \<not> ranges_intersect (j * 4096) (j * 4096 + 4096) bm (bm + bytes) \<and>
       \<not> intersects_illegal illegal (j * 4096) (j * 4096 + 4096)))"
  using assms
proof (induction fs arbitrary: b)
  case (Cons x fs)
  show ?case
  proof (cases "x < max_frame")
    case True
    have no: "x * 4096 + 4096 < 2 ^ 64"
      using True Cons.prems(2) by (metis Suc_leI add.commute le_less_trans mult_Suc mult_le_mono1)
    have step: "free_region_frames p B illegal max_frame bm bytes (x # fs) b =
      (if ranges_intersect (x * 4096) (x * 4096 + 4096) bm (bm + bytes) \<or>
          intersects_illegal illegal (x * 4096) (x * 4096 + 4096)
       then free_region_frames p B illegal max_frame bm bytes fs b
       else and_then (bitmap_set B x False b) (free_region_frames p B illegal max_frame bm bytes fs))"
      using True no Cons.prems(4) by (simp add: u64_mul_ok u64_add_ok)
    obtain b1 where b1: "bitmap_set B x False b = Inr b1" "bs_len B b1 = bs_len B b"
      "\<forall>j<bs_len B b. bs_get B b1 j = (if j = x then False else bs_get B b j)"
      using bitmap_set_ok [of x b False] True Cons.prems(3) by auto
    have IH: "bs_len B t = bs_len B b \<Longrightarrow>
      \<exists>b'. free_region_frames p B illegal max_frame bm bytes fs t = Inr b' \<and> bs_len B b' = bs_len B t \<and>
      (\<forall>j<bs_len B t. bs_get B b' j \<longleftrightarrow> bs_get B t j \<and> \<not> (j \<in> set fs \<and> j < max_frame \<and>
       \<not> ranges_intersect (j * 4096) (j * 4096 + 4096) bm (bm + bytes) \<and>
       \<not> intersects_illegal illegal (j * 4096) (j * 4096 + 4096)))" for t
      using Cons.IH [of t] Cons.prems by simp
    show ?thesis
      unfolding step using IH [of b] IH [of b1] b1 True by auto
  next
    case False
    then have "\<forall>j\<in>set (x # fs). \<not> j < max_frame" using Cons.prems(1) by fastforce
    then show ?thesis using False by auto
  qed
qed simp

lemma free_usable_frames_ok:
  assumes "\<And>r. r \<in> set mm \<Longrightarrow> r_kind r = Usable \<Longrightarrow> r_end r + 4096 < 2 ^ 64"
    and "max_frame * 4096 < 2 ^ 64" and "max_frame \<le> bs_len B b" and "bm + bytes < 2 ^ 64"
    and "\<forall>j<bs_len B b. bs_get B b j"
  shows "\<exists>b'. free_usable_frames p B illegal max_frame bm bytes mm b = Inr b' \<and>
    bs_len B b' = bs_len B b \<and>
    (\<forall>j<bs_len B b. \<not> bs_get B b' j \<longleftrightarrow> truly_free mm illegal max_frame bm bytes j)"
proof -
  let ?I = "\<lambda>ys t. bs_len B t = bs_len B b \<and>
     (\<forall>j<bs_len B b. \<not> bs_get B t j \<longleftrightarrow> truly_free ys illegal max_frame bm bytes j)"
  have "\<exists>b'. free_usable_frames p B illegal max_frame bm bytes mm b = Inr b' \<and> ?I mm b'"
    unfolding free_usable_frames_def
  proof (rule for_each_total [where I = ?I])
    show "?I [] b" using assms(5) by (simp add: truly_free_def)
  next
    fix ys r zs t
    assume mm: "mm = ys @ r # zs" and t: "?I ys t"
    let ?fs = "[r_start r div 4096..<(r_end r + 4095) div 4096]"
    obtain t' where t': "free_region_frames p B illegal max_frame bm bytes ?fs t = Inr t'"
      "bs_len B t' = bs_len B t"
      "\<forall>j<bs_len B t. bs_get B t' j \<longleftrightarrow> bs_get B t j \<and> \<not> (j \<in> set ?fs \<and> j < max_frame \<and>
         \<not> ranges_intersect (j * 4096) (j * 4096 + 4096) bm (bm + bytes) \<and>
         \<not> intersects_illegal illegal (j * 4096) (j * 4096 + 4096))"
      using free_region_frames_ok [of ?fs max_frame t bm bytes p illegal] assms(2-4) t by auto
    show "\<exists>t'. (if r_kind r = Usable then
         and_then (u64_add p (r_end r) PAGE_SIZE) (\<lambda>e1.
         and_then (u64_sub p e1 1) (\<lambda>e2.
           free_region_frames p B illegal max_frame bm bytes
             [r_start r div PAGE_SIZE..<e2 div PAGE_SIZE] t))
       else Inr t) = Inr t' \<and> ?I (ys @ [r]) t'"
    proof (cases "r_kind r = Usable")
      case True
      then have "r_end r + 4096 < 2 ^ 64" using assms(1) mm by simp
      moreover have "?I (ys @ [r]) t'"
        using t t'(2,3) True by (auto simp: truly_free_def)
      ultimately show ?thesis using True t'(1) by (simp add: u64_round_up_ok)
    next
      case False
      then show ?thesis using t by (auto simp: truly_free_def)
    qed
  qed
  then show ?thesis by blast
qed

text \<open>\<open>init\<close> as the sequence of its passes over the bitmap, when nothing overflows.\<close>

lemma bitmap_init_run:
  assumes max: "max_usable_addr mm 0 \<le> 2 ^ 52" and off: "bm + offset < 2 ^ 64"
    and x: "find_region_base p (fill_illegal mm illegal0) (map_bytes_needed mm) mm = Inr (Some bm)"
    and b1: "mark_all_used B (bs_from_slice B (map (\<lambda>i. mem (bm + offset + i)) [0..<map_bytes_needed mm])) = Inr b1"
    and b2: "mark_bitmap_frames p B (map_max_frame mm) bm (map_bytes_needed mm) b1 = Inr b2"
    and b3: "free_usable_frames p B (fill_illegal mm illegal0) (map_max_frame mm) bm (map_bytes_needed mm) mm b2 = Inr b3"
  shows "bitmap_init p B mem illegal0 mm offset =
    Inr (\<lparr>base_addr = 0, frame_count = map_max_frame mm, bitmap = b3\<rparr>, fill_illegal mm illegal0)"
proof -
  have m: "and_then (u64_add p (max_usable_addr mm 0) 4096) (\<lambda>x. and_then (u64_sub p x 1) k) =
      k (max_usable_addr mm 0 + 4095)" for k :: "nat \<Rightarrow> ('b bitmap_frame_allocator \<times> AddressRange list) res"
    using max by (simp add: u64_round_up_ok)
  have n: "u64_add p (map_max_frame mm) 7 = Inr (map_max_frame mm + 7)"
    using max by (simp add: u64_add_ok map_max_frame_def)
  have v: "phys_to_virt p bm offset = Inr (bm + offset)" using off by (simp add: phys_to_virt_def u64_add_ok)
  show ?thesis
    unfolding bitmap_init_def Let_def m PAGE_SIZE_val map_max_frame_def [symmetric] n and_then_simps
      map_bytes_needed_def [symmetric] x expect_simps v b1 b2 b3 ..
qed

lemma bitmap_init_total:
  assumes valid: "valid_memory_map mm offset" and len: "length illegal0 = MAX_ILLEGAL"
    and fits: "\<exists>r\<in>set mm. holds_bitmap (fill_illegal mm illegal0) (map_bytes_needed mm) r"
  shows "\<exists>a r bm. r \<in> set mm \<and> holds_bitmap (fill_illegal mm illegal0) (map_bytes_needed mm) r \<and>
    bm = max (r_start r) 0x100000 \<and>
    find_region_base p (fill_illegal mm illegal0) (map_bytes_needed mm) mm = Inr (Some bm) \<and>
    bitmap_init p B mem illegal0 mm offset = Inr (a, fill_illegal mm illegal0) \<and>
    bfa_inv B a \<and> frame_count a = map_max_frame mm \<and>
    bs_len B (bitmap a) = 8 * map_bytes_needed mm \<and>
    (\<forall>i<bs_len B (bitmap a). \<not> bs_get B (bitmap a) i \<longleftrightarrow>
       truly_free mm (fill_illegal mm illegal0) (map_max_frame mm) bm (map_bytes_needed mm) i)"
proof -
  let ?ill = "fill_illegal mm illegal0" and ?mf = "map_max_frame mm" and ?by = "map_bytes_needed mm"
  have u: "r_start r < r_end r \<and> r_end r \<le> 2 ^ 52 \<and> r_end r + offset < 2 ^ 64"
    if "r \<in> set mm" "r_kind r = Usable" for r
    using valid that by (simp add: valid_memory_map_def)
  have max: "max_usable_addr mm 0 \<le> 2 ^ 52"
    using u by (intro max_usable_addr_bound) auto
  then have mf: "?mf \<le> 2 ^ 40" unfolding map_max_frame_def by simp
  have by8: "?mf \<le> 8 * ?by" unfolding map_bytes_needed_def by arith
  have "\<exists>x. find_region_base p ?ill ?by mm = Inr x \<and>
    (case x of None \<Rightarrow> \<forall>r\<in>set mm. \<not> holds_bitmap ?ill ?by r
     | Some base \<Rightarrow> \<exists>r\<in>set mm. holds_bitmap ?ill ?by r \<and> base = max (r_start r) 0x100000)"
    by (rule find_region_base_total) (simp add: u less_imp_le)
  then obtain r bm where r: "r \<in> set mm" "holds_bitmap ?ill ?by r"
    and bm: "bm = max (r_start r) 0x100000" and x: "find_region_base p ?ill ?by mm = Inr (Some bm)"
    using fits by (auto split: option.splits)
  have end_le: "bm + ?by \<le> r_end r" "r_end r \<le> 2 ^ 52" "r_end r + offset < 2 ^ 64"
    using r u [of r] bm by (auto simp: holds_bitmap_def)
  let ?b0 = "bs_from_slice B (map (\<lambda>i. mem (bm + offset + i)) [0..<?by])"
  have l0: "bs_len B ?b0 = 8 * ?by" by (simp add: bs_len_from_slice)
  obtain b1 where b1: "mark_all_used B ?b0 = Inr b1" "bs_len B b1 = 8 * ?by"
    "\<forall>j<8 * ?by. bs_get B b1 j"
    using mark_all_used_ok [of ?b0] l0 by auto
  obtain b2 where b2: "mark_bitmap_frames p B ?mf bm ?by b1 = Inr b2" "bs_len B b2 = 8 * ?by"
    "\<forall>j<8 * ?by. bs_get B b2 j"
    using mark_bitmap_frames_ok [of bm ?by ?mf b1 p] b1 by8 end_le by auto
  obtain b3 where b3: "free_usable_frames p B ?ill ?mf bm ?by mm b2 = Inr b3" "bs_len B b3 = 8 * ?by"
    "\<forall>j<8 * ?by. \<not> bs_get B b3 j \<longleftrightarrow> truly_free mm ?ill ?mf bm ?by j"
    using free_usable_frames_ok [of mm ?mf b2 bm ?by p ?ill] u b2 by8 end_le mf by fastforce
  let ?a = "\<lparr>base_addr = 0, frame_count = ?mf, bitmap = b3\<rparr>"
  have "bitmap_init p B mem illegal0 mm offset = Inr (?a, ?ill)"
    using bitmap_init_run [OF max _ x b1(1) b2(1) b3(1)] end_le by simp
  moreover have "bfa_inv B ?a"
    using mf by8 b3 by (simp add: bfa_inv_def truly_free_def)
  ultimately show ?thesis
    using r bm b3 x by (intro exI [of _ ?a] exI [of _ r] exI [of _ bm]) simp
qed

end

section \<open>The bitmap allocator satisfies the contracts\<close>

lemma free_frames_iff: "x \<in> free_frames B a \<longleftrightarrow>
    (\<exists>i<bs_len B (bitmap a). x = i * 4096 \<and> \<not> bs_get B (bitmap a) i)"
  by (auto simp: free_frames_def)

locale bitmap_crates = bit_slice B + x86_addr X
  for B :: "'b bit_slice_ops" and X :: x86_addr_ops +
  fixes p :: profile
begin

lemma index_as_frame_ok:
  assumes "bfa_inv B a" and "i < frame_count a" and "base_addr a' = base_addr a"
  shows "index_as_frame p X a' i = Inr (i * 4096)"
proof -
  have "i < 2 ^ 40" "base_addr a' = 0" using assms by (auto simp: bfa_inv_def)
  then show ?thesis
    by (simp add: index_as_frame_def u64_mul_ok u64_add_ok phys_new_ok frame_containing)
qed

lemma frame_as_index_ok:
  assumes "bfa_inv B a" and "i < frame_count a"
  shows "frame_as_index p a (i * 4096) = Inr (Some i)"
  using assms by (simp add: frame_as_index_def bfa_inv_def u64_sub_ok)

lemma allocate_frame_Some:
  assumes inv: "bfa_inv B a" and i: "position (\<lambda>i. \<not> bs_get B (bitmap a) i) [0..<bs_len B (bitmap a)] = Some i"
  shows "\<exists>b. allocate_frame p X B a = Inr (Some (i * 4096), a\<lparr>bitmap := b\<rparr>) \<and>
    bs_len B b = bs_len B (bitmap a) \<and>
    (\<forall>j<bs_len B b. bs_get B b j \<longleftrightarrow> j = i \<or> bs_get B (bitmap a) j)"
proof -
  have i': "i < bs_len B (bitmap a)" "\<not> bs_get B (bitmap a) i"
    using i by (auto simp: position_upt_Some)
  then have fc: "i < frame_count a" using inv by (simp add: bfa_inv_def)
  obtain b where b: "bitmap_set B i True (bitmap a) = Inr b" "bs_len B b = bs_len B (bitmap a)"
    "\<forall>j<bs_len B (bitmap a). bs_get B b j = (if j = i then True else bs_get B (bitmap a) j)"
    using bitmap_set_ok [OF i'(1), of True] by blast
  have "index_as_frame p X (a\<lparr>bitmap := b\<rparr>) i = Inr (i * 4096)"
    by (rule index_as_frame_ok [OF inv fc]) simp
  then have "allocate_frame p X B a = Inr (Some (i * 4096), a\<lparr>bitmap := b\<rparr>)"
    using i b(1) by (simp add: allocate_frame_def)
  then show ?thesis using b by (intro exI [of _ b]) simp
qed

lemma allocate_frame_None:
  assumes "position (\<lambda>i. \<not> bs_get B (bitmap a) i) [0..<bs_len B (bitmap a)] = None"
  shows "allocate_frame p X B a = Inr (None, a) \<and> free_frames B a = {}"
proof -
  have "free_frames B a = {}" using assms by (simp add: position_upt_None free_frames_def)
  then show ?thesis using assms by (simp add: allocate_frame_def)
qed

lemma allocate_frame_total:
  assumes inv: "bfa_inv B a"
  shows "\<exists>r a'. allocate_frame p X B a = Inr (r, a') \<and> bfa_inv B a' \<and>
    managed_frames a' = managed_frames a \<and>
    (case r of None \<Rightarrow> free_frames B a = {} \<and> free_frames B a' = {}
     | Some x \<Rightarrow> x \<in> free_frames B a \<and> free_frames B a' = free_frames B a - {x} \<and>
         (\<forall>y\<in>free_frames B a. x \<le> y))"
proof (cases "position (\<lambda>i. \<not> bs_get B (bitmap a) i) [0..<bs_len B (bitmap a)]")
  case None
  then show ?thesis using allocate_frame_None [OF None] inv by auto
next
  case (Some i)
  obtain b where b: "allocate_frame p X B a = Inr (Some (i * 4096), a\<lparr>bitmap := b\<rparr>)"
    "bs_len B b = bs_len B (bitmap a)" "\<forall>j<bs_len B b. bs_get B b j \<longleftrightarrow> j = i \<or> bs_get B (bitmap a) j"
    using allocate_frame_Some [OF inv Some] by blast
  have i: "i < bs_len B (bitmap a)" "\<not> bs_get B (bitmap a) i" "\<forall>j<i. bs_get B (bitmap a) j"
    using Some by (auto simp: position_upt_Some)
  have "bfa_inv B (a\<lparr>bitmap := b\<rparr>)" using inv b(2,3) by (simp add: bfa_inv_def)
  moreover have "free_frames B (a\<lparr>bitmap := b\<rparr>) = free_frames B a - {i * 4096}"
    using b(2,3) by (auto simp: free_frames_def)
  moreover have "i * 4096 \<in> free_frames B a" using i(1,2) by (auto simp: free_frames_def)
  moreover have "\<forall>y\<in>free_frames B a. i * 4096 \<le> y"
    using i(3) by (force simp: free_frames_iff not_less [symmetric])
  ultimately show ?thesis using b(1) by (simp add: managed_frames_def)
qed

lemma deallocate_frame_total:
  assumes inv: "bfa_inv B a" and x: "x \<in> managed_frames a"
  shows "\<exists>a'. deallocate_frame p B a x = Inr a' \<and> bfa_inv B a' \<and>
    free_frames B a' = insert x (free_frames B a) \<and> managed_frames a' = managed_frames a"
proof -
  obtain i where i: "x = i * 4096" "i < frame_count a" using x by (auto simp: managed_frames_def)
  then have l: "i < bs_len B (bitmap a)" using inv by (simp add: bfa_inv_def)
  obtain b where b: "bitmap_set B i False (bitmap a) = Inr b" "bs_len B b = bs_len B (bitmap a)"
    "\<forall>j<bs_len B (bitmap a). bs_get B b j = (if j = i then False else bs_get B (bitmap a) j)"
    using bitmap_set_ok [OF l, of False] by blast
  have "deallocate_frame p B a x = Inr (a\<lparr>bitmap := b\<rparr>)"
    unfolding deallocate_frame_def i(1) frame_as_index_ok [OF inv i(2)] by (simp add: b(1))
  moreover have "bfa_inv B (a\<lparr>bitmap := b\<rparr>)" using inv b(2,3) i(2) by (auto simp: bfa_inv_def)
  moreover have "free_frames B (a\<lparr>bitmap := b\<rparr>) = insert x (free_frames B a)"
    using b(2,3) i l by (auto simp: free_frames_def)
  ultimately show ?thesis by (simp add: managed_frames_def)
qed

lemma free_frames_managed: "bfa_inv B a \<Longrightarrow> free_frames B a \<subseteq> managed_frames a"
  by (auto simp: bfa_inv_def free_frames_def managed_frames_def)

end

sublocale bitmap_crates \<subseteq> bfa: frame_deallocator "allocate_frame p X B" "free_frames B" "bfa_inv B"
  "deallocate_frame p B" managed_frames
proof unfold_locales
  show "bfa_inv B f \<Longrightarrow> \<exists>r f'. allocate_frame p X B f = Inr (r, f') \<and> bfa_inv B f' \<and>
    (case r of None \<Rightarrow> free_frames B f = {} \<and> free_frames B f' = {}
     | Some x \<Rightarrow> x \<in> free_frames B f \<and> free_frames B f' = free_frames B f - {x})" for f
    using allocate_frame_total [of f] by (fastforce split: option.splits)
  show "bfa_inv B f \<Longrightarrow> free_frames B f \<subseteq> managed_frames f" for f
    by (rule free_frames_managed)
  show "bfa_inv B f \<Longrightarrow> allocate_frame p X B f = Inr (r, f') \<Longrightarrow> managed_frames f' = managed_frames f" for f r f'
    using allocate_frame_total [of f] by auto
  show "bfa_inv B f \<Longrightarrow> x \<in> managed_frames f \<Longrightarrow> \<exists>f'. deallocate_frame p B f x = Inr f' \<and> bfa_inv B f' \<and>
    free_frames B f' = insert x (free_frames B f) \<and> managed_frames f' = managed_frames f" for f x
    by (rule deallocate_frame_total)
qed

interpretation empty_fa: frame_allocator empty_allocate_frame "\<lambda>_. {}" "\<lambda>_. True"
  by unfold_locales (simp add: empty_allocate_frame_def)


section \<open>Instances of the crates\<close>

text \<open>
  \<^verbatim>\<open>BitSlice<u8, Lsb0>\<close>: bit \<open>i\<close> is bit \<open>i mod 8\<close>, counted from the least
  significant, of byte \<open>i div 8\<close>.
\<close>

definition lsb0 :: "8 word list bit_slice_ops" where
  "lsb0 = \<lparr>bs_from_slice = (\<lambda>xs. xs),
     bs_len = (\<lambda>b. 8 * length b),
     bs_get = (\<lambda>b i. bit (b ! (i div 8)) (i mod 8)),
     bs_set = (\<lambda>b i v. b[i div 8 := (if v then set_bit (i mod 8) (b ! (i div 8))
                                       else unset_bit (i mod 8) (b ! (i div 8)))])\<rparr>"

lemma lsb0_get_set:
  assumes "i < 8 * length b"
  shows "bs_get lsb0 (bs_set lsb0 b i v) j = (if j = i then v else bs_get lsb0 b j)"
proof (cases "j div 8 = i div 8")
  case True
  then have "j = i \<longleftrightarrow> j mod 8 = i mod 8" by (metis div_mod_decomp)
  moreover have "i div 8 < length b" using assms by linarith
  ultimately show ?thesis
    using True by (auto simp: lsb0_def bit_set_bit_iff bit_unset_bit_iff)
next
  case False
  then show ?thesis by (auto simp: lsb0_def)
qed

interpretation lsb0: bit_slice lsb0
proof unfold_locales
  show "bs_len lsb0 (bs_from_slice lsb0 xs) = 8 * length xs" for xs by (simp add: lsb0_def)
  show "bs_len lsb0 (bs_set lsb0 b i v) = bs_len lsb0 b" for b i v by (simp add: lsb0_def)
  show "i < bs_len lsb0 b \<Longrightarrow> bs_get lsb0 (bs_set lsb0 b i v) j = (if j = i then v else bs_get lsb0 b j)" for b i v j
    using lsb0_get_set [of i b v j] by (simp add: lsb0_def)
qed

definition x86_std :: x86_addr_ops where
  "x86_std = \<lparr>phys_addr_new = (\<lambda>a. if a < 2 ^ 52 then Inr a else Inl (Panic ''PhysAddrNotValid'')),
     phys_frame_containing = align_down,
     virt_addr_new = (\<lambda>a. if canonical a then Inr a else Inl (Panic ''VirtAddrNotValid'')),
     page_containing = align_down,
     virt_addr_add = (\<lambda>a b. if canonical (a + b) then Inr (a + b) else Inl (Panic ''attempt to add resulted in non-canonical virtual address''))\<rparr>"

interpretation x86_std: x86_addr x86_std
  by unfold_locales (simp_all add: x86_std_def)

interpretation kernel_frames: bitmap_crates lsb0 x86_std p for p
  by unfold_locales

section \<open>The legacy boot-info allocator\<close>

lemma usable_frames_nth_ok:
  assumes "x86_addr X" and "\<forall>a\<in>set as. a < 2 ^ 52"
  shows "usable_frames_nth X as n = Inr (if n < length as then Some (align_down (as ! n)) else None)"
  using assms(2)
proof (induction as arbitrary: n)
  case (Cons a as)
  then show ?case
    using x86_addr.phys_new_ok [OF assms(1)] x86_addr.frame_containing [OF assms(1)]
    by (cases n) simp_all
qed simp

lemma boot_info_allocate_frame_ok:
  assumes "x86_addr X" and "\<forall>a\<in>set (usable_frame_addresses (memory_map b)). a < 2 ^ 52"
    and "next_frame b + 1 < 2 ^ 64"
  shows "boot_info_allocate_frame p X b = Inr
    (if next_frame b < length (usable_frame_addresses (memory_map b))
     then Some (align_down (usable_frame_addresses (memory_map b) ! next_frame b)) else None,
     b\<lparr>next_frame := next_frame b + 1\<rparr>)"
  using assms by (simp add: boot_info_allocate_frame_def usable_frames_nth_ok u64_add_ok)


section \<open>Properties of the frame allocators\<close>

text \<open>
  A memory map of the shape the bootloader reports: low memory, a firmware hole, 16 MiB of usable
  memory above 16 MiB, and a region the bootloader keeps.
\<close>

definition example_map :: "memory_region list" where
  "example_map =
     [\<lparr>r_start = 0x0, r_end = 0x9F000, r_kind = Usable\<rparr>,
      \<lparr>r_start = 0x9F000, r_end = 0x100000, r_kind = UnknownBios 2\<rparr>,
      \<lparr>r_start = 0x1000000, r_end = 0x2000000, r_kind = Usable\<rparr>,
      \<lparr>r_start = 0x2000000, r_end = 0x2100000, r_kind = Bootloader\<rparr>]"

definition example_offset :: nat where
  "example_offset = 0x18000000000"

lemma example_map_valid: "valid_memory_map example_map example_offset"
  by (simp add: valid_memory_map_def example_map_def example_offset_def)

lemma example_map_frames: "map_max_frame example_map = 8192" "map_bytes_needed example_map = 1024"
  by (simp_all add: map_bytes_needed_def map_max_frame_def example_map_def)

lemma example_illegal:
  "set (fill_illegal example_map ILLEGAL_REGIONS_init) =
     {\<lparr>ar_start = 0x100000, ar_end = 0x1000000\<rparr>, \<lparr>ar_start = 0x9F000, ar_end = 0x100000\<rparr>,
      \<lparr>ar_start = 0x2000000, ar_end = 0x2100000\<rparr>, \<lparr>ar_start = 0, ar_end = 0\<rparr>}"
proof -
  let ?z = "\<lparr>ar_start = 0, ar_end = 0\<rparr>"
  have "replicate MAX_ILLEGAL ?z = [?z, ?z, ?z] @ replicate 61 ?z"
    using replicate_add [of 3 61 ?z] by (simp add: MAX_ILLEGAL_def numeral_3_eq_3)
  then have "fill_illegal example_map ILLEGAL_REGIONS_init =
      [\<lparr>ar_start = 0x100000, ar_end = 0x1000000\<rparr>, \<lparr>ar_start = 0x9F000, ar_end = 0x100000\<rparr>,
       \<lparr>ar_start = 0x2000000, ar_end = 0x2100000\<rparr>] @ replicate 61 ?z"
    by (simp add: fill_illegal_def example_map_def ILLEGAL_REGIONS_init_def MAX_ILLEGAL_def)
  then show ?thesis by simp
qed

lemma example_holds_bitmap:
  "\<exists>r\<in>set example_map. holds_bitmap (fill_illegal example_map ILLEGAL_REGIONS_init)
     (map_bytes_needed example_map) r"
proof
  show "holds_bitmap (fill_illegal example_map ILLEGAL_REGIONS_init) (map_bytes_needed example_map)
    \<lparr>r_start = 0x1000000, r_end = 0x2000000, r_kind = Usable\<rparr>"
    unfolding example_map_frames
    by (simp add: holds_bitmap_def intersects_illegal_def list_ex_iff example_illegal ranges_intersect_def)
qed (simp add: example_map_def)

lemma example_illegal_fits:
  "length ILLEGAL_REGIONS_init = MAX_ILLEGAL"
  "length (filter (\<lambda>r. r_kind r \<noteq> Usable) example_map) < MAX_ILLEGAL"
  by (simp_all add: ILLEGAL_REGIONS_init_def MAX_ILLEGAL_def example_map_def)

context bitmap_crates
begin

lemma alloc_n_round_trip:
  assumes "bfa_inv B a"
  shows "\<exists>xs a' a''. alloc_n (allocate_frame p X B) n a = Inr (xs, a') \<and> distinct xs \<and>
    set xs \<subseteq> free_frames B a \<and> free_frames B a' = free_frames B a - set xs \<and>
    length xs = min n (card (free_frames B a)) \<and>
    dealloc_all (deallocate_frame p B) xs a' = Inr a'' \<and> free_frames B a'' = free_frames B a"
proof -
  have fin: "finite (free_frames B a)" by (simp add: free_frames_def)
  obtain xs a' where xs: "alloc_n (allocate_frame p X B) n a = Inr (xs, a')" "distinct xs"
    "set xs \<subseteq> free_frames B a" "free_frames B a' = free_frames B a - set xs"
    using bfa.alloc_n_total [OF assms] by blast
  moreover have "length xs = min n (card (free_frames B a))"
    by (rule bfa.alloc_n_count [OF assms fin xs(1)])
  moreover obtain a'' where "dealloc_all (deallocate_frame p B) xs a' = Inr a''"
    "free_frames B a'' = free_frames B a"
    using bfa.alloc_dealloc_all [OF assms xs(1)] by blast
  ultimately show ?thesis by blast
qed

end

lemma boot_info_alloc_n:
  assumes "x86_addr X" and "\<forall>a\<in>set (usable_frame_addresses (memory_map b)). a < 2 ^ 52"
    and "next_frame b + n < 2 ^ 64"
  shows "alloc_n (boot_info_allocate_frame p X) n b = Inr
    (map align_down (take n (drop (next_frame b) (usable_frame_addresses (memory_map b)))),
     b\<lparr>next_frame := next_frame b + min n (length (usable_frame_addresses (memory_map b)) - next_frame b + 1)\<rparr>)"
  using assms(2,3)
proof (induction n arbitrary: b)
  case (Suc n)
  let ?as = "usable_frame_addresses (memory_map b)"
  have step: "boot_info_allocate_frame p X b = Inr
    (if next_frame b < length ?as then Some (align_down (?as ! next_frame b)) else None,
     b\<lparr>next_frame := next_frame b + 1\<rparr>)"
    using Suc.prems by (intro boot_info_allocate_frame_ok [OF assms(1)]) auto
  show ?case
  proof (cases "next_frame b < length ?as")
    case True
    then have "drop (next_frame b) ?as = ?as ! next_frame b # drop (Suc (next_frame b)) ?as"
      by (simp add: Cons_nth_drop_Suc)
    then show ?thesis
      using step True Suc.IH [of "b\<lparr>next_frame := next_frame b + 1\<rparr>"] Suc.prems by simp
  next
    case False
    then show ?thesis using step by simp
  qed
qed simp

lemma truly_free_safe:
  assumes free: "truly_free mm (fill_illegal mm illegal0) mf bm bytes i"
    and len: "length illegal0 = MAX_ILLEGAL"
  shows "{i * 4096..<i * 4096 + 4096} \<inter> {0x100000..<0x1000000} = {}"
    and "{i * 4096..<i * 4096 + 4096} \<inter> {bm..<bm + bytes} = {}"
    and "length (filter (\<lambda>r. r_kind r \<noteq> Usable) mm) < MAX_ILLEGAL \<Longrightarrow> r \<in> set mm \<Longrightarrow>
      r_kind r \<noteq> Usable \<Longrightarrow> {i * 4096..<i * 4096 + 4096} \<inter> {r_start r..<r_end r} = {}"
proof -
  have ill: "\<not> ranges_intersect (i * 4096) (i * 4096 + 4096) (ar_start off) (ar_end off)"
    if "off \<in> set (fill_illegal mm illegal0)" for off
    using free that by (auto simp: truly_free_def intersects_illegal_def list_ex_iff)
  show "{i * 4096..<i * 4096 + 4096} \<inter> {0x100000..<0x1000000} = {}"
    using not_ranges_intersectD [OF ill [OF fill_illegal_fixed [OF len]]] by simp
  show "{i * 4096..<i * 4096 + 4096} \<inter> {bm..<bm + bytes} = {}"
    using free by (intro not_ranges_intersectD) (simp add: truly_free_def)
  assume "length (filter (\<lambda>r. r_kind r \<noteq> Usable) mm) < MAX_ILLEGAL" "r \<in> set mm" "r_kind r \<noteq> Usable"
  from not_ranges_intersectD [OF ill [OF fill_illegal_region [OF len this]]]
  show "{i * 4096..<i * 4096 + 4096} \<inter> {r_start r..<r_end r} = {}" by simp
qed

lemma truly_free_in_usable:
  assumes "truly_free mm illegal mf bm bytes i" and "valid_memory_map mm offset"
  shows "\<exists>r\<in>set mm. r_kind r = Usable \<and> {i * 4096..<i * 4096 + 4096} \<inter> {r_start r..<r_end r} \<noteq> {}"
proof -
  obtain r where r: "r \<in> set mm" "r_kind r = Usable" "r_start r div 4096 \<le> i" "i < (r_end r + 4095) div 4096"
    using assms(1) by (auto simp: truly_free_def)
  then have "r_start r < r_end r" using assms(2) by (simp add: valid_memory_map_def)
  moreover have "r_start r < i * 4096 + 4096" "i * 4096 < r_end r" using r(3,4) by linarith+
  ultimately have "max (i * 4096) (r_start r) \<in> {i * 4096..<i * 4096 + 4096} \<inter> {r_start r..<r_end r}"
    by auto
  then show ?thesis using r(1,2) by blast
qed

text \<open>A frame that may be handed out: it overlaps a usable region, and nothing that is in use.\<close>

definition harmless_frame :: "memory_region list \<Rightarrow> nat \<Rightarrow> nat \<Rightarrow> bool" where
  "harmless_frame mm bm f \<longleftrightarrow>
     (\<exists>r\<in>set mm. r_kind r = Usable \<and> {f..<f + 4096} \<inter> {r_start r..<r_end r} \<noteq> {}) \<and>
     {f..<f + 4096} \<inter> {0x100000..<0x1000000} = {} \<and>
     {f..<f + 4096} \<inter> {bm..<bm + map_bytes_needed mm} = {} \<and>
     (\<forall>r\<in>set mm. r_kind r \<noteq> Usable \<longrightarrow> {f..<f + 4096} \<inter> {r_start r..<r_end r} = {})"

lemma bitmap_init_safe:
  assumes "bit_slice B" and "valid_memory_map mm offset" and "length illegal0 = MAX_ILLEGAL"
    and "length (filter (\<lambda>r. r_kind r \<noteq> Usable) mm) < MAX_ILLEGAL"
    and "\<exists>r\<in>set mm. holds_bitmap (fill_illegal mm illegal0) (map_bytes_needed mm) r"
  shows "\<exists>a bm. bitmap_init p B mem illegal0 mm offset = Inr (a, fill_illegal mm illegal0) \<and> bfa_inv B a \<and>
    (\<exists>r\<in>set mm. r_kind r = Usable \<and> r_start r \<le> bm \<and> bm + map_bytes_needed mm \<le> r_end r) \<and>
    find_region_base p (fill_illegal mm illegal0) (map_bytes_needed mm) mm = Inr (Some bm) \<and>
    (\<forall>f\<in>free_frames B a. harmless_frame mm bm f)"
proof -
  let ?ill = "fill_illegal mm illegal0" and ?by = "map_bytes_needed mm"
  obtain a r bm where r: "r \<in> set mm" "holds_bitmap ?ill ?by r" "bm = max (r_start r) 0x100000"
    and init: "bitmap_init p B mem illegal0 mm offset = Inr (a, ?ill)" "bfa_inv B a"
      "find_region_base p ?ill ?by mm = Inr (Some bm)"
    and bits: "\<forall>i<bs_len B (bitmap a). \<not> bs_get B (bitmap a) i \<longleftrightarrow>
       truly_free mm ?ill (map_max_frame mm) bm ?by i"
    using bit_slice.bitmap_init_total [OF assms(1,2,3,5)] by blast
  have free: "\<exists>i. f = i * 4096 \<and> truly_free mm ?ill (map_max_frame mm) bm ?by i" if "f \<in> free_frames B a" for f
    using that bits by (auto simp: free_frames_iff)
  have "r_kind r = Usable \<and> r_start r \<le> bm \<and> bm + ?by \<le> r_end r"
    using r by (simp add: holds_bitmap_def)
  moreover have "harmless_frame mm bm f"
    if f: "f \<in> free_frames B a" for f
  proof -
    obtain i where i: "f = i * 4096" "truly_free mm ?ill (map_max_frame mm) bm ?by i"
      using free [OF f] by blast
    show ?thesis
      unfolding i(1) harmless_frame_def using truly_free_safe [OF i(2) assms(3)] assms(4) truly_free_in_usable [OF i(2) assms(2)]
      by blast
  qed
  ultimately show ?thesis using init r(1) by blast
qed

text \<open>
  C13. \<open>BitmapFrameAllocator::init\<close> returns on every valid memory map that has room for the
  bitmap, and no frame it marks free may do harm: each free frame overlaps a usable region, and
  none of its bytes lies in the range from 1 MiB to 16 MiB, in a region that is not usable (up to
  the 63 such regions the table holds), or in the bitmap itself, which is at the address the search
  found and lies inside one usable region.
\<close>

theorem init_free_frames_safe:
  assumes "bit_slice B" and "valid_memory_map mm offset" and "length illegal0 = MAX_ILLEGAL"
    and "length (filter (\<lambda>r. r_kind r \<noteq> Usable) mm) < MAX_ILLEGAL"
    and "\<exists>r\<in>set mm. holds_bitmap (fill_illegal mm illegal0) (map_bytes_needed mm) r"
  shows "\<exists>a bm. bitmap_init p B mem illegal0 mm offset = Inr (a, fill_illegal mm illegal0) \<and> bfa_inv B a \<and>
    (\<exists>r\<in>set mm. r_kind r = Usable \<and> r_start r \<le> bm \<and> bm + map_bytes_needed mm \<le> r_end r) \<and>
    find_region_base p (fill_illegal mm illegal0) (map_bytes_needed mm) mm = Inr (Some bm) \<and>
    (\<forall>f\<in>free_frames B a. harmless_frame mm bm f)"
  by (rule bitmap_init_safe [OF assms])

theorem init_free_frames_safe_witness:
  "\<exists>a bm. bitmap_init Debug lsb0 (\<lambda>_. 0) ILLEGAL_REGIONS_init example_map example_offset =
      Inr (a, fill_illegal example_map ILLEGAL_REGIONS_init) \<and> bfa_inv lsb0 a \<and>
    (\<exists>r\<in>set example_map. r_kind r = Usable \<and> r_start r \<le> bm \<and> bm + map_bytes_needed example_map \<le> r_end r) \<and>
    find_region_base Debug (fill_illegal example_map ILLEGAL_REGIONS_init) (map_bytes_needed example_map) example_map =
      Inr (Some bm) \<and>
    (\<forall>f\<in>free_frames lsb0 a. harmless_frame example_map bm f)"
  by (rule init_free_frames_safe [OF lsb0.bit_slice_axioms example_map_valid example_illegal_fits
        example_holds_bitmap])

text \<open>
  C14. What \<open>init\<close> computes, exactly: the allocator counts the frames below the highest usable
  address, its bitmap has one bit per frame rounded up to whole bytes, and a bit is clear if and
  only if step 12's conditions hold of its frame (the bits beyond the last frame stay set).
\<close>

theorem init_free_frame_iff:
  assumes "bit_slice B" and "valid_memory_map mm offset" and "length illegal0 = MAX_ILLEGAL"
    and "\<exists>r\<in>set mm. holds_bitmap (fill_illegal mm illegal0) (map_bytes_needed mm) r"
  shows "\<exists>a r. r \<in> set mm \<and> holds_bitmap (fill_illegal mm illegal0) (map_bytes_needed mm) r \<and>
    bitmap_init p B mem illegal0 mm offset = Inr (a, fill_illegal mm illegal0) \<and>
    base_addr a = 0 \<and> frame_count a = (max_usable_addr mm 0 + 4095) div 4096 \<and>
    bs_len B (bitmap a) = 8 * map_bytes_needed mm \<and>
    (\<forall>i<bs_len B (bitmap a). bs_get B (bitmap a) i = (\<not> truly_free mm (fill_illegal mm illegal0)
       (map_max_frame mm) (max (r_start r) 0x100000) (map_bytes_needed mm) i))"
proof -
  obtain a r where "r \<in> set mm" "holds_bitmap (fill_illegal mm illegal0) (map_bytes_needed mm) r"
    and "bitmap_init p B mem illegal0 mm offset = Inr (a, fill_illegal mm illegal0)"
    and "bfa_inv B a" "frame_count a = map_max_frame mm" "bs_len B (bitmap a) = 8 * map_bytes_needed mm"
    and "\<forall>i<bs_len B (bitmap a). \<not> bs_get B (bitmap a) i \<longleftrightarrow> truly_free mm (fill_illegal mm illegal0)
       (map_max_frame mm) (max (r_start r) 0x100000) (map_bytes_needed mm) i"
    using bit_slice.bitmap_init_total [OF assms, of p mem] by blast
  moreover from \<open>bfa_inv B a\<close> have "base_addr a = 0" by (simp add: bfa_inv_def)
  ultimately show ?thesis unfolding map_max_frame_def [symmetric] by blast
qed

theorem init_free_frame_iff_witness:
  "\<exists>a r. r \<in> set example_map \<and>
    holds_bitmap (fill_illegal example_map ILLEGAL_REGIONS_init) (map_bytes_needed example_map) r \<and>
    bitmap_init Release lsb0 (\<lambda>_. 0) ILLEGAL_REGIONS_init example_map example_offset =
      Inr (a, fill_illegal example_map ILLEGAL_REGIONS_init) \<and>
    base_addr a = 0 \<and> frame_count a = (max_usable_addr example_map 0 + 4095) div 4096 \<and>
    bs_len lsb0 (bitmap a) = 8 * map_bytes_needed example_map \<and>
    (\<forall>i<bs_len lsb0 (bitmap a). bs_get lsb0 (bitmap a) i =
      (\<not> truly_free example_map (fill_illegal example_map ILLEGAL_REGIONS_init)
       (map_max_frame example_map) (max (r_start r) 0x100000) (map_bytes_needed example_map) i))"
  by (rule init_free_frame_iff [OF lsb0.bit_slice_axioms example_map_valid example_illegal_fits(1)
        example_holds_bitmap])

text \<open>A small allocator for the witnesses below: 10 frames, of which 2 and 5 are free.\<close>

definition example_alloc :: "8 word list bitmap_frame_allocator" where
  "example_alloc = \<lparr>base_addr = 0, frame_count = 10, bitmap = [0xDB, 0xFF]\<rparr>"

lemma example_alloc_inv: "bfa_inv lsb0 example_alloc"
  by (simp add: bfa_inv_def example_alloc_def lsb0_def all_less_list upt_conv_Cons)

text \<open>
  \<open>allocate_frame\<close> is first-fit: it never panics, it returns the free frame with the
  lowest address and makes that frame, and no other, used; it returns \<open>None\<close> only when no
  frame is free, and then changes nothing.
\<close>

lemma allocate_frame_first_fit:
  assumes "bitmap_crates B X" and "bfa_inv B a"
  shows "\<exists>r a'. allocate_frame p X B a = Inr (r, a') \<and> bfa_inv B a' \<and>
    managed_frames a' = managed_frames a \<and>
    (case r of None \<Rightarrow> free_frames B a = {} \<and> free_frames B a' = {}
     | Some x \<Rightarrow> x \<in> free_frames B a \<and> free_frames B a' = free_frames B a - {x} \<and>
         (\<forall>y\<in>free_frames B a. x \<le> y))"
  by (rule bitmap_crates.allocate_frame_total [OF assms])

text \<open>
  C15. Any number of allocations in a row hand out pairwise different frames that were all free
  before, exactly as many as asked for or as there are; giving them all back restores the set of
  free frames.
\<close>

theorem allocations_distinct_and_reversible:
  assumes "bitmap_crates B X" and "bfa_inv B a"
  shows "\<exists>xs a' a''. alloc_n (allocate_frame p X B) n a = Inr (xs, a') \<and> distinct xs \<and>
    set xs \<subseteq> free_frames B a \<and> free_frames B a' = free_frames B a - set xs \<and>
    length xs = min n (card (free_frames B a)) \<and>
    dealloc_all (deallocate_frame p B) xs a' = Inr a'' \<and> free_frames B a'' = free_frames B a"
  by (rule bitmap_crates.alloc_n_round_trip [OF assms])

theorem allocations_distinct_and_reversible_witness:
  "\<exists>xs a' a''. alloc_n (allocate_frame Release x86_std lsb0) 7 example_alloc = Inr (xs, a') \<and> distinct xs \<and>
    set xs \<subseteq> free_frames lsb0 example_alloc \<and>
    free_frames lsb0 a' = free_frames lsb0 example_alloc - set xs \<and>
    length xs = min 7 (card (free_frames lsb0 example_alloc)) \<and>
    dealloc_all (deallocate_frame Release lsb0) xs a' = Inr a'' \<and>
    free_frames lsb0 a'' = free_frames lsb0 example_alloc"
  by (rule allocations_distinct_and_reversible [OF kernel_frames.bitmap_crates_axioms example_alloc_inv])

text \<open>
  C16. \<open>deallocate_frame\<close> on every input: a frame of the managed range becomes free, whatever
  its bit was, and nothing else changes; a frame beyond the managed range panics.
\<close>

theorem deallocate_frame_cases:
  assumes "bitmap_crates B X" and "bfa_inv B a"
  shows "(i < frame_count a \<longrightarrow> (\<exists>a'. deallocate_frame p B a (i * 4096) = Inr a' \<and> bfa_inv B a' \<and>
      free_frames B a' = insert (i * 4096) (free_frames B a) \<and> managed_frames a' = managed_frames a)) \<and>
    (frame_count a \<le> i \<longrightarrow> deallocate_frame p B a (i * 4096) =
      Inl (Panic ''Attempted to deallocate frame that was not allocated by the allocator''))"
proof -
  have "base_addr a = 0" using assms(2) by (simp add: bfa_inv_def)
  then have "frame_count a \<le> i \<Longrightarrow> frame_as_index p a (i * 4096) = Inr None"
    by (simp add: frame_as_index_def u64_sub_ok)
  then show ?thesis
    using bitmap_crates.deallocate_frame_total [OF assms, of "i * 4096" p]
    by (auto simp: deallocate_frame_def managed_frames_def)
qed

theorem deallocate_frame_cases_witness:
  "(\<exists>a'. deallocate_frame Debug lsb0 example_alloc (3 * 4096) = Inr a' \<and> bfa_inv lsb0 a' \<and>
      free_frames lsb0 a' = insert (3 * 4096) (free_frames lsb0 example_alloc) \<and>
      managed_frames a' = managed_frames example_alloc) \<and>
    deallocate_frame Debug lsb0 example_alloc (10 * 4096) =
      Inl (Panic ''Attempted to deallocate frame that was not allocated by the allocator'')"
  using deallocate_frame_cases [OF kernel_frames.bitmap_crates_axioms example_alloc_inv, of 3 Debug]
    deallocate_frame_cases [OF kernel_frames.bitmap_crates_axioms example_alloc_inv, of 10 Debug]
  by (simp add: example_alloc_def)

text \<open>
  The boot-info allocator walks the usable frames in the order of the memory map: its
  \<open>k\<close>-th call returns the \<open>k\<close>-th of them, and \<open>None\<close> from then on.
\<close>

lemma boot_info_allocates_in_order:
  assumes "x86_addr X" and "\<forall>a\<in>set (usable_frame_addresses mm). a < 2 ^ 52" and "n < 2 ^ 64"
  shows "alloc_n (boot_info_allocate_frame p X) n (boot_info_init mm) = Inr
    (map align_down (take n (usable_frame_addresses mm)),
     boot_info_init mm\<lparr>next_frame := min n (length (usable_frame_addresses mm) + 1)\<rparr>)"
  using boot_info_alloc_n [OF assms(1), of "boot_info_init mm" n p] assms(2,3)
  by (simp add: boot_info_init_def)

end
