(* ===== verification/Page_Allocator.thy ===== *)
theory Page_Allocator
  imports Frame_Memory
begin

text \<open>
  The kernel's virtual page allocator (\<^verbatim>\<open>kernel/src/allocator/page_allocator.rs\<close>): a bump
  allocator of virtual pages over a frame allocator and a page-table mapper.

  \<^verbatim>\<open>PageAllocator<M, F>\<close> is generic in the mapper \<open>M\<close> and the frame allocator
  \<open>F\<close>. The record \<open>paging_traits\<close> holds the trait methods it calls; the locale
  \<open>paging\<close> states what they promise: \<open>F\<close> satisfies \<open>frame_deallocator\<close>
  (the bitmap allocator does), and \<open>M\<close> behaves as the \<^verbatim>\<open>x86_64\<close> crate documents for
  \<^verbatim>\<open>Mapper::map_to\<close> and \<^verbatim>\<open>Mapper::unmap\<close> (the page table is a partial map from pages to
  frames and flags; \<open>map_to\<close> may take further frames for page tables). TLB flushes have
  no effect on this state.

  The contract this component offers to the heap is the locale \<open>page_source\<close>.
\<close>


section \<open>The traits the allocator is generic over\<close>

datatype page_flag = PRESENT | WRITABLE | NO_CACHE

datatype map_to_error = FrameAllocationFailed | ParentEntryHugePage | PageAlreadyMapped nat

datatype unmap_error = UnmapParentEntryHugePage | PageNotMapped | InvalidFrameAddress nat

record ('m, 'f) paging_traits =
  fa_allocate :: "'f \<Rightarrow> (nat option \<times> 'f) res"
  fa_deallocate :: "'f \<Rightarrow> nat \<Rightarrow> 'f res"
  map_to :: "'m \<Rightarrow> nat \<Rightarrow> nat \<Rightarrow> page_flag set \<Rightarrow> 'f \<Rightarrow> ((map_to_error + unit) \<times> 'm \<times> 'f) res"
  unmap :: "'m \<Rightarrow> nat \<Rightarrow> ((unmap_error + nat) \<times> 'm) res"

locale paging = x86_addr X + fa: frame_deallocator "fa_allocate T" free inv "fa_deallocate T" owned
  for X :: x86_addr_ops and T :: "('m, 'f) paging_traits"
    and free :: "'f \<Rightarrow> nat set" and inv :: "'f \<Rightarrow> bool" and owned :: "'f \<Rightarrow> nat set" +
  fixes mapping :: "'m \<Rightarrow> (nat \<rightharpoonup> nat \<times> page_flag set)"
  assumes map_to_total: "inv f \<Longrightarrow> \<exists>r m' f'. map_to T m pg fr fl f = Inr (r, m', f') \<and> inv f' \<and>
      owned f' = owned f \<and> free f' \<subseteq> free f \<and>
      (case r of Inl e \<Rightarrow> mapping m' = mapping m
       | Inr _ \<Rightarrow> mapping m pg = None \<and> mapping m' = (mapping m)(pg \<mapsto> (fr, fl)))"
    and unmap_mapped: "mapping m pg = Some (fr, fl) \<Longrightarrow>
      \<exists>m'. unmap T m pg = Inr (Inr fr, m') \<and> mapping m' = (mapping m)(pg := None)"
    and unmap_unmapped: "mapping m pg = None \<Longrightarrow>
      \<exists>e m'. unmap T m pg = Inr (Inl e, m') \<and> mapping m' = mapping m"


section \<open>The allocator\<close>

definition KERNEL_HEAP_START :: nat where
  "KERNEL_HEAP_START = 0xFFFFFF0000000000"

definition KERNEL_HEAP_SIZE :: nat where
  "KERNEL_HEAP_SIZE = 0x40000000"

definition KERNEL_HEAP_END :: nat where
  "KERNEL_HEAP_END = KERNEL_HEAP_START + KERNEL_HEAP_SIZE"

record ('m, 'f) page_allocator =
  pa_frames :: 'f
  pa_mapper :: 'm
  current_virt :: nat
  end_virt :: nat

definition page_allocator_new :: "'m \<Rightarrow> 'f \<Rightarrow> nat \<Rightarrow> nat \<Rightarrow> ('m, 'f) page_allocator" where
  "page_allocator_new m f start_virt e =
     \<lparr>pa_frames = f, pa_mapper = m, current_virt = start_virt, end_virt = e\<rparr>"

text \<open>
  The loop of \<open>alloc\<close> over the page numbers \<open>0..num_pages\<close>. The statement
  \<open>self.current_virt += bytes_needed\<close> stands inside the loop.
\<close>

fun page_alloc_loop ::
    "profile \<Rightarrow> x86_addr_ops \<Rightarrow> ('m, 'f) paging_traits \<Rightarrow> nat \<Rightarrow> nat \<Rightarrow> page_flag set \<Rightarrow> nat list \<Rightarrow>
     ('m, 'f) page_allocator \<Rightarrow> ((map_to_error + unit) \<times> ('m, 'f) page_allocator) res" where
  "page_alloc_loop p X T start_addr bytes_needed flags [] pa = Inr (Inr (), pa)"
| "page_alloc_loop p X T start_addr bytes_needed flags (i # is) pa =
     and_then (u64_mul p i PAGE_SIZE) (\<lambda>off.
     and_then (u64_add p start_addr off) (\<lambda>page_virt.
     and_then (virt_addr_new X page_virt) (\<lambda>va.
     let page = page_containing X va in
     and_then (fa_allocate T (pa_frames pa)) (\<lambda>(frame, f1).
       case frame of
         None \<Rightarrow> Inr (Inl FrameAllocationFailed, pa\<lparr>pa_frames := f1\<rparr>)
       | Some frame \<Rightarrow>
           and_then (map_to T (pa_mapper pa) page frame flags f1) (\<lambda>(r, m, f2).
             let pa1 = pa\<lparr>pa_mapper := m, pa_frames := f2\<rparr> in
             case r of
               Inl e \<Rightarrow> Inr (Inl e, pa1)
             | Inr _ \<Rightarrow>
                 and_then (u64_add p (current_virt pa1) bytes_needed) (\<lambda>v.
                   page_alloc_loop p X T start_addr bytes_needed flags is (pa1\<lparr>current_virt := v\<rparr>)))))))"

definition page_alloc ::
    "profile \<Rightarrow> x86_addr_ops \<Rightarrow> ('m, 'f) paging_traits \<Rightarrow> ('m, 'f) page_allocator \<Rightarrow> nat \<Rightarrow> page_flag set \<Rightarrow>
     ((map_to_error + nat) \<times> ('m, 'f) page_allocator) res" where
  "page_alloc p X T pa num_pages flags =
     and_then (u64_mul p num_pages PAGE_SIZE) (\<lambda>bytes_needed.
     and_then (u64_add p (current_virt pa) bytes_needed) (\<lambda>e.
       if e > end_virt pa then Inr (Inl FrameAllocationFailed, pa)
       else let start_addr = current_virt pa in
         and_then (page_alloc_loop p X T start_addr bytes_needed flags [0..<num_pages] pa) (\<lambda>(r, pa').
           Inr (case r of Inl e \<Rightarrow> Inl e | Inr _ \<Rightarrow> Inr start_addr, pa'))))"

text \<open>\<open>rng\<close> is what \<^verbatim>\<open>_rdrand64_step\<close> leaves in the variable.\<close>

definition init_start_aslr :: "profile \<Rightarrow> nat \<Rightarrow> ('m, 'f) page_allocator \<Rightarrow> ('m, 'f) page_allocator res" where
  "init_start_aslr p rng pa =
     and_then (u64_add p KERNEL_HEAP_START (rng mod KERNEL_HEAP_SIZE)) (\<lambda>v. Inr (pa\<lparr>current_virt := v\<rparr>))"

fun page_dealloc_loop ::
    "profile \<Rightarrow> x86_addr_ops \<Rightarrow> ('m, 'f) paging_traits \<Rightarrow> nat \<Rightarrow> nat list \<Rightarrow>
     ('m, 'f) page_allocator \<Rightarrow> ((unmap_error + unit) \<times> ('m, 'f) page_allocator) res" where
  "page_dealloc_loop p X T addr [] pa = Inr (Inr (), pa)"
| "page_dealloc_loop p X T addr (i # is) pa =
     and_then (u64_mul p i PAGE_SIZE) (\<lambda>off.
     and_then (u64_add p addr off) (\<lambda>page_virt.
     and_then (virt_addr_new X page_virt) (\<lambda>va.
     let page = page_containing X va in
     and_then (unmap T (pa_mapper pa) page) (\<lambda>(r, m).
       case r of
         Inl e \<Rightarrow> Inr (Inl e, pa\<lparr>pa_mapper := m\<rparr>)
       | Inr mapped_frame \<Rightarrow>
           and_then (fa_deallocate T (pa_frames pa) mapped_frame) (\<lambda>f.
             page_dealloc_loop p X T addr is (pa\<lparr>pa_mapper := m, pa_frames := f\<rparr>))))))"

definition page_dealloc ::
    "profile \<Rightarrow> x86_addr_ops \<Rightarrow> ('m, 'f) paging_traits \<Rightarrow> ('m, 'f) page_allocator \<Rightarrow> nat \<Rightarrow> nat \<Rightarrow>
     ((unmap_error + unit) \<times> ('m, 'f) page_allocator) res" where
  "page_dealloc p X T pa addr num_pages = page_dealloc_loop p X T addr [0..<num_pages] pa"

text \<open>The global \<open>PAGE_ALLOCATOR\<close> is an option; \<open>init_page_allocator\<close> replaces it.\<close>

definition init_page_allocator :: "'m \<Rightarrow> 'f \<Rightarrow> ('m, 'f) page_allocator option \<Rightarrow> ('m, 'f) page_allocator option" where
  "init_page_allocator mapper frame_alloc g =
     Some (page_allocator_new mapper frame_alloc KERNEL_HEAP_START KERNEL_HEAP_END)"


section \<open>What a run of pages maps\<close>

text \<open>The page table after mapping consecutive pages from \<open>a\<close> to the frames \<open>xs\<close>.\<close>

fun map_pages :: "nat \<Rightarrow> nat list \<Rightarrow> page_flag set \<Rightarrow> (nat \<rightharpoonup> nat \<times> page_flag set) \<Rightarrow>
    (nat \<rightharpoonup> nat \<times> page_flag set)" where
  "map_pages a [] fl M = M"
| "map_pages a (x # xs) fl M = map_pages (a + 4096) xs fl (M(a \<mapsto> (x, fl)))"

definition page_run :: "nat \<Rightarrow> nat \<Rightarrow> nat set" where
  "page_run a n = {a + j * 4096 | j. j < n}"

lemma page_run_0 [simp]: "page_run a 0 = {}"
  by (simp add: page_run_def)

lemma page_run_Suc: "page_run a (Suc n) = insert a (page_run (a + 4096) n)"
proof -
  have "(\<exists>j<Suc n. x = a + j * 4096) \<longleftrightarrow> x = a \<or> (\<exists>j<n. x = a + 4096 + j * 4096)" for x
    by (auto simp: less_Suc_eq_0_disj)
  then show ?thesis by (auto simp: page_run_def)
qed

lemma page_run_bounds: "x \<in> page_run a n \<Longrightarrow> a \<le> x \<and> x + 4096 \<le> a + n * 4096"
proof -
  assume "x \<in> page_run a n"
  then obtain j where "x = a + j * 4096" "Suc j \<le> n" by (auto simp: page_run_def)
  then show ?thesis using mult_le_mono1 [of "Suc j" n 4096] by simp
qed

lemma map_pages_outside: "pg \<notin> page_run a (length xs) \<Longrightarrow> map_pages a xs fl M pg = M pg"
  by (induction a xs fl M rule: map_pages.induct) (auto simp: page_run_Suc)

lemma map_pages_first: "map_pages (a + 4096) xs fl (M(a \<mapsto> v)) a = Some v"
proof -
  have "a \<notin> page_run (a + 4096) (length xs)" using page_run_bounds by fastforce
  then show ?thesis by (simp add: map_pages_outside)
qed

lemma map_pages_nth: "j < length xs \<Longrightarrow> map_pages a xs fl M (a + j * 4096) = Some (xs ! j, fl)"
proof (induction xs arbitrary: a M j)
  case (Cons x xs)
  show ?case
  proof (cases j)
    case 0
    then show ?thesis using map_pages_first by simp
  next
    case (Suc k)
    have "map_pages (a + 4096) xs fl (M(a \<mapsto> (x, fl))) (a + 4096 + k * 4096) = Some (xs ! k, fl)"
      using Cons.prems Suc by (intro Cons.IH) simp
    then show ?thesis using Suc by (simp add: add.assoc)
  qed
qed simp

lemma map_pages_dom: "dom (map_pages a xs fl M) = dom M \<union> page_run a (length xs)"
  by (induction xs arbitrary: a M) (simp_all add: page_run_Suc)

section \<open>The loops of alloc and dealloc\<close>

context paging
begin

lemma page_at:
  assumes "4096 dvd start" and "2 ^ 64 - 2 ^ 47 \<le> start" and "start + i * 4096 < 2 ^ 64"
  shows "u64_mul p i 4096 = Inr (i * 4096)" "u64_add p start (i * 4096) = Inr (start + i * 4096)"
    "virt_addr_new X (start + i * 4096) = Inr (start + i * 4096)"
    "page_containing X (start + i * 4096) = start + i * 4096"
  using assms by (simp_all add: u64_mul_ok u64_add_ok virt_new_ok canonical_def page_containing_eq)

text \<open>One page of the allocation loop: it fails without mapping anything, or maps the page and goes on.\<close>

lemma page_alloc_page:
  assumes "inv (pa_frames pa)" and "4096 dvd start" and "2 ^ 64 - 2 ^ 47 \<le> start"
    and "start + i * 4096 < 2 ^ 64" and "current_virt pa + bytes < 2 ^ 64"
  shows "(\<exists>e pa'. page_alloc_loop p X T start bytes fl (i # is) pa = Inr (Inl e, pa') \<and>
      inv (pa_frames pa') \<and> owned (pa_frames pa') = owned (pa_frames pa) \<and> end_virt pa' = end_virt pa \<and>
      free (pa_frames pa') \<subseteq> free (pa_frames pa) \<and> mapping (pa_mapper pa') = mapping (pa_mapper pa) \<and>
      current_virt pa' = current_virt pa) \<or>
    (\<exists>x pa'. page_alloc_loop p X T start bytes fl (i # is) pa = page_alloc_loop p X T start bytes fl is pa' \<and>
      inv (pa_frames pa') \<and> owned (pa_frames pa') = owned (pa_frames pa) \<and> end_virt pa' = end_virt pa \<and>
      x \<in> free (pa_frames pa) \<and> free (pa_frames pa') \<subseteq> free (pa_frames pa) - {x} \<and>
      mapping (pa_mapper pa) (start + i * 4096) = None \<and>
      mapping (pa_mapper pa') = (mapping (pa_mapper pa))(start + i * 4096 \<mapsto> (x, fl)) \<and>
      current_virt pa' = current_virt pa + bytes)" (is "?fail \<or> ?more")
proof -
  obtain fr f1 where a: "fa_allocate T (pa_frames pa) = Inr (fr, f1)" "inv f1"
    and fr: "case fr of None \<Rightarrow> free (pa_frames pa) = {} \<and> free f1 = {}
      | Some x \<Rightarrow> x \<in> free (pa_frames pa) \<and> free f1 = free (pa_frames pa) - {x}"
    using fa.alloc_total [OF assms(1)] by blast
  have o1: "owned f1 = owned (pa_frames pa)" by (rule fa.alloc_owned [OF assms(1) a(1)])
  note page = page_at [OF assms(2-4)] u64_add_ok [OF assms(5)]
  show ?thesis
  proof (cases fr)
    case None
    then have ?fail using a fr o1 page
      by (intro exI [of _ FrameAllocationFailed] exI [of _ "pa\<lparr>pa_frames := f1\<rparr>"]) simp
    then show ?thesis ..
  next
    case (Some x)
    obtain r m f2 where m: "map_to T (pa_mapper pa) (start + i * 4096) x fl f1 = Inr (r, m, f2)" "inv f2"
      "owned f2 = owned f1" "free f2 \<subseteq> free f1"
      and r: "case r of Inl e \<Rightarrow> mapping m = mapping (pa_mapper pa)
       | Inr _ \<Rightarrow> mapping (pa_mapper pa) (start + i * 4096) = None \<and>
           mapping m = (mapping (pa_mapper pa))(start + i * 4096 \<mapsto> (x, fl))"
      using map_to_total [OF a(2)] by blast
    let ?pa = "pa\<lparr>pa_mapper := m, pa_frames := f2\<rparr>"
    show ?thesis
    proof (cases r)
      case (Inl e)
      then have ?fail using a m fr Some r o1 page by (intro exI [of _ e] exI [of _ ?pa]) auto
      then show ?thesis ..
    next
      case (Inr u)
      then have ?more using a m fr Some r o1 page
        by (intro exI [of _ x] exI [of _ "?pa\<lparr>current_virt := current_virt pa + bytes\<rparr>"]) auto
      then show ?thesis ..
    qed
  qed
qed

lemma page_alloc_loop_total:
  assumes "inv (pa_frames pa)" and "4096 dvd start" and "2 ^ 64 - 2 ^ 47 \<le> start"
    and "start + n * 4096 \<le> 2 ^ 64" and "current_virt pa + (n - i) * bytes < 2 ^ 64"
  shows "\<exists>r pa' xs. page_alloc_loop p X T start bytes fl [i..<n] pa = Inr (r, pa') \<and>
    inv (pa_frames pa') \<and> owned (pa_frames pa') = owned (pa_frames pa) \<and> end_virt pa' = end_virt pa \<and>
    length xs \<le> n - i \<and> (r = Inr () \<longleftrightarrow> length xs = n - i) \<and>
    distinct xs \<and> set xs \<subseteq> free (pa_frames pa) \<and> free (pa_frames pa') \<subseteq> free (pa_frames pa) - set xs \<and>
    page_run (start + i * 4096) (length xs) \<inter> dom (mapping (pa_mapper pa)) = {} \<and>
    mapping (pa_mapper pa') = map_pages (start + i * 4096) xs fl (mapping (pa_mapper pa)) \<and>
    current_virt pa' = current_virt pa + length xs * bytes"
  using assms(1,5)
proof (induction "n - i" arbitrary: i pa)
  case 0
  then show ?case by (intro exI [of _ "Inr ()"] exI [of _ pa] exI [of _ "[]"]) simp
next
  case (Suc k)
  then have n: "n - i = Suc k" "n - Suc i = k" "[i..<n] = i # [Suc i..<n]" by (auto simp: upt_conv_Cons)
  have "start + i * 4096 < start + n * 4096" using n(1) by simp
  with assms(4) have lt: "start + i * 4096 < 2 ^ 64" by linarith
  have bytes: "current_virt pa + bytes < 2 ^ 64" using Suc.prems(2) n by simp
  from page_alloc_page [OF Suc.prems(1) assms(2,3) lt bytes, of p fl "[Suc i..<n]"] show ?case
  proof (elim disjE exE conjE)
    fix e pa'
    assume "page_alloc_loop p X T start bytes fl (i # [Suc i..<n]) pa = Inr (Inl e, pa')"
      "inv (pa_frames pa')" "owned (pa_frames pa') = owned (pa_frames pa)" "end_virt pa' = end_virt pa"
      "free (pa_frames pa') \<subseteq> free (pa_frames pa)" "mapping (pa_mapper pa') = mapping (pa_mapper pa)"
      "current_virt pa' = current_virt pa"
    then show ?thesis using n by (intro exI [of _ "Inl e"] exI [of _ pa'] exI [of _ "[]"]) simp
  next
    fix x pa1
    assume s: "page_alloc_loop p X T start bytes fl (i # [Suc i..<n]) pa =
        page_alloc_loop p X T start bytes fl [Suc i..<n] pa1"
      and pa1: "inv (pa_frames pa1)" "owned (pa_frames pa1) = owned (pa_frames pa)" "end_virt pa1 = end_virt pa"
      and x: "x \<in> free (pa_frames pa)" "free (pa_frames pa1) \<subseteq> free (pa_frames pa) - {x}"
      and M: "mapping (pa_mapper pa) (start + i * 4096) = None"
        "mapping (pa_mapper pa1) = (mapping (pa_mapper pa))(start + i * 4096 \<mapsto> (x, fl))"
      and cv: "current_virt pa1 = current_virt pa + bytes"
    obtain r pa' xs where IH: "page_alloc_loop p X T start bytes fl [Suc i..<n] pa1 = Inr (r, pa')"
      "inv (pa_frames pa')" "owned (pa_frames pa') = owned (pa_frames pa1)" "end_virt pa' = end_virt pa1"
      "length xs \<le> k" "r = Inr () \<longleftrightarrow> length xs = k" "distinct xs" "set xs \<subseteq> free (pa_frames pa1)"
      "free (pa_frames pa') \<subseteq> free (pa_frames pa1) - set xs"
      "page_run (start + Suc i * 4096) (length xs) \<inter> dom (mapping (pa_mapper pa1)) = {}"
      "mapping (pa_mapper pa') = map_pages (start + Suc i * 4096) xs fl (mapping (pa_mapper pa1))"
      "current_virt pa' = current_virt pa1 + length xs * bytes"
      using Suc.hyps(1) [of "Suc i" pa1] Suc.prems(2) pa1(1) n cv by auto
    have next_page: "start + i * 4096 + 4096 = start + Suc i * 4096" by simp
    have "page_run (start + i * 4096) (Suc (length xs)) \<inter> dom (mapping (pa_mapper pa)) = {}"
      unfolding page_run_Suc next_page using IH(10) M by auto
    moreover have "mapping (pa_mapper pa') = map_pages (start + i * 4096) (x # xs) fl (mapping (pa_mapper pa))"
      unfolding map_pages.simps next_page IH(11) M(2) ..
    ultimately show ?thesis
      using s IH(1-9,12) x pa1(2,3) cv n
      by (intro exI [of _ r] exI [of _ pa'] exI [of _ "x # xs"]) auto
  qed
qed

end

text \<open>The frames behind a set of pages.\<close>

definition frames_of :: "(nat \<rightharpoonup> nat \<times> page_flag set) \<Rightarrow> nat set \<Rightarrow> nat set" where
  "frames_of M pgs = {fr. \<exists>pg\<in>pgs. \<exists>fl. M pg = Some (fr, fl)}"

lemma frames_of_insert:
  "M pg = Some (fr, fl) \<Longrightarrow> frames_of M (insert pg pgs) = insert fr (frames_of M pgs)"
  by (auto simp: frames_of_def)

lemma frames_of_upd: "pg \<notin> pgs \<Longrightarrow> frames_of (M(pg := v)) pgs = frames_of M pgs"
  by (auto simp: frames_of_def)

context paging
begin

lemma page_dealloc_loop_total:
  assumes "inv (pa_frames pa)" and "4096 dvd start" and "2 ^ 64 - 2 ^ 47 \<le> start"
    and "start + n * 4096 \<le> 2 ^ 64"
    and "page_run (start + i * 4096) (n - i) \<subseteq> dom (mapping (pa_mapper pa))"
    and "frames_of (mapping (pa_mapper pa)) (page_run (start + i * 4096) (n - i)) \<subseteq> owned (pa_frames pa)"
  shows "\<exists>pa'. page_dealloc_loop p X T start [i..<n] pa = Inr (Inr (), pa') \<and>
    inv (pa_frames pa') \<and> owned (pa_frames pa') = owned (pa_frames pa) \<and> end_virt pa' = end_virt pa \<and>
    current_virt pa' = current_virt pa \<and>
    mapping (pa_mapper pa') = mapping (pa_mapper pa) |` (- page_run (start + i * 4096) (n - i)) \<and>
    free (pa_frames pa') = free (pa_frames pa) \<union>
      frames_of (mapping (pa_mapper pa)) (page_run (start + i * 4096) (n - i))"
  using assms(1,5,6)
proof (induction "n - i" arbitrary: i pa)
  case 0
  then show ?case by (intro exI [of _ pa]) (simp add: frames_of_def)
next
  case (Suc k)
  let ?M = "mapping (pa_mapper pa)" and ?pg = "start + i * 4096" and ?run = "page_run (start + Suc i * 4096) k"
  from Suc have n: "n - i = Suc k" "n - Suc i = k" "[i..<n] = i # [Suc i..<n]" by (auto simp: upt_conv_Cons)
  have "?pg < start + n * 4096" using n(1) by simp
  with assms(4) have lt: "?pg < 2 ^ 64" by linarith
  have run: "page_run ?pg (Suc k) = insert ?pg ?run" by (simp add: page_run_Suc add.commute add.left_commute)
  have notin: "?pg \<notin> ?run" using page_run_bounds by fastforce
  obtain fr fl where fr: "?M ?pg = Some (fr, fl)" using Suc.prems(2) n(1) run by auto
  have ins: "frames_of ?M (insert ?pg ?run) = insert fr (frames_of ?M ?run)"
    by (rule frames_of_insert) (rule fr)
  obtain m where m: "unmap T (pa_mapper pa) ?pg = Inr (Inr fr, m)" "mapping m = ?M(?pg := None)"
    using unmap_mapped [OF fr] by blast
  have own: "fr \<in> owned (pa_frames pa)" "frames_of ?M ?run \<subseteq> owned (pa_frames pa)"
    using Suc.prems(3) n(1) run ins by auto
  obtain f where f: "fa_deallocate T (pa_frames pa) fr = Inr f" "inv f" "free f = insert fr (free (pa_frames pa))"
    "owned f = owned (pa_frames pa)"
    using fa.dealloc_total [OF Suc.prems(1) own(1)] by blast
  let ?pa = "pa\<lparr>pa_mapper := m, pa_frames := f\<rparr>"
  have step: "page_dealloc_loop p X T start [i..<n] pa = page_dealloc_loop p X T start [Suc i..<n] ?pa"
    unfolding n(3) using page_at [OF assms(2,3) lt] m(1) f(1) by simp
  have "?run \<subseteq> dom (mapping m)" using Suc.prems(2) n(1) run notin m(2) by auto
  moreover have "frames_of (mapping m) ?run \<subseteq> owned f" using own(2) notin m(2) f(4) by (simp add: frames_of_upd)
  ultimately obtain pa' where IH: "page_dealloc_loop p X T start [Suc i..<n] ?pa = Inr (Inr (), pa')"
    "inv (pa_frames pa')" "owned (pa_frames pa') = owned f" "end_virt pa' = end_virt pa"
    "current_virt pa' = current_virt pa" "mapping (pa_mapper pa') = mapping m |` (- ?run)"
    "free (pa_frames pa') = free f \<union> frames_of (mapping m) ?run"
    using Suc.hyps(1) [of "Suc i" ?pa] f(2) n by auto
  have "mapping (pa_mapper pa') = ?M |` (- page_run ?pg (Suc k))"
    unfolding IH(6) m(2) run by (auto simp: restrict_map_def)
  moreover have "free (pa_frames pa') = free (pa_frames pa) \<union> frames_of ?M (page_run ?pg (Suc k))"
    unfolding IH(7) m(2) f(3) run ins frames_of_upd [OF notin] by simp
  ultimately show ?case using step IH(1-5) f(4) n(1) by auto
qed

lemma page_alloc_out_of_space:
  assumes "current_virt pa + n * 4096 < 2 ^ 64" and "end_virt pa < current_virt pa + n * 4096"
  shows "page_alloc p X T pa n fl = Inr (Inl FrameAllocationFailed, pa)"
proof -
  have "n * 4096 < 2 ^ 64" using assms(1) by linarith
  then show ?thesis using assms by (simp add: page_alloc_def u64_mul_ok u64_add_ok)
qed

lemma page_alloc_in_space:
  assumes "inv (pa_frames pa)" and "4096 dvd current_virt pa" and "2 ^ 64 - 2 ^ 47 \<le> current_virt pa"
    and "current_virt pa + n * 4096 \<le> end_virt pa" and "end_virt pa < 2 ^ 64"
    and "current_virt pa + n * (n * 4096) < 2 ^ 64"
  shows "\<exists>r pa' xs. page_alloc p X T pa n fl = Inr (r, pa') \<and> inv (pa_frames pa') \<and>
    owned (pa_frames pa') = owned (pa_frames pa) \<and> end_virt pa' = end_virt pa \<and>
    length xs \<le> n \<and> distinct xs \<and> set xs \<subseteq> free (pa_frames pa) \<and>
    free (pa_frames pa') \<subseteq> free (pa_frames pa) - set xs \<and>
    page_run (current_virt pa) (length xs) \<inter> dom (mapping (pa_mapper pa)) = {} \<and>
    mapping (pa_mapper pa') = map_pages (current_virt pa) xs fl (mapping (pa_mapper pa)) \<and>
    current_virt pa' = current_virt pa + length xs * (n * 4096) \<and>
    (case r of Inr a \<Rightarrow> a = current_virt pa \<and> length xs = n | Inl e \<Rightarrow> length xs < n)"
proof -
  let ?cv = "current_virt pa"
  have lt: "n * 4096 < 2 ^ 64" "?cv + n * 4096 < 2 ^ 64" using assms(4,5) by linarith+
  have le: "?cv + n * 4096 \<le> 2 ^ 64" using lt(2) by simp
  have cv: "?cv + (n - 0) * (n * 4096) < 2 ^ 64" using assms(6) by simp
  obtain r pa' xs where L: "page_alloc_loop p X T ?cv (n * 4096) fl [0..<n] pa = Inr (r, pa')"
    "inv (pa_frames pa')" "owned (pa_frames pa') = owned (pa_frames pa)" "end_virt pa' = end_virt pa"
    "length xs \<le> n" "r = Inr () \<longleftrightarrow> length xs = n" "distinct xs" "set xs \<subseteq> free (pa_frames pa)"
    "free (pa_frames pa') \<subseteq> free (pa_frames pa) - set xs"
    "page_run ?cv (length xs) \<inter> dom (mapping (pa_mapper pa)) = {}"
    "mapping (pa_mapper pa') = map_pages ?cv xs fl (mapping (pa_mapper pa))"
    "current_virt pa' = ?cv + length xs * (n * 4096)"
    using page_alloc_loop_total [OF assms(1,2,3) le cv, of p fl] by auto
  let ?r = "case r of Inl e \<Rightarrow> Inl e | Inr _ \<Rightarrow> Inr ?cv"
  have "page_alloc p X T pa n fl = Inr (?r, pa')"
    using lt assms(4) L(1) by (simp add: page_alloc_def u64_mul_ok u64_add_ok)
  moreover have "case ?r of Inr a \<Rightarrow> a = ?cv \<and> length xs = n | Inl e \<Rightarrow> length xs < n"
    using L(5,6) by (cases r) auto
  ultimately show ?thesis using L(2-5,7-12) by blast
qed

end

section \<open>The contract offered to the heap\<close>

text \<open>
  A source of pages: a successful allocation returns a page-aligned, non-null run of mapped pages
  at or above the mark of the addresses given out before, and raises the mark beyond it; a run of
  mapped pages can be given back. Requests are bounded by \<open>MAX_PAGES\<close>: the code adds
  \<open>num_pages\<close> times the size of the request to \<open>current_virt\<close>, and 16000 pages is
  a bound below which this can not leave the 64-bit address space.
\<close>

definition MAX_PAGES :: nat where
  "MAX_PAGES = 16000"

locale page_source =
  fixes palloc :: "'pa \<Rightarrow> nat \<Rightarrow> page_flag set \<Rightarrow> ((map_to_error + nat) \<times> 'pa) res"
    and pdealloc :: "'pa \<Rightarrow> nat \<Rightarrow> nat \<Rightarrow> ((unmap_error + unit) \<times> 'pa) res"
    and pinv :: "'pa \<Rightarrow> bool"
    and mark :: "'pa \<Rightarrow> nat"
    and mapped :: "'pa \<Rightarrow> nat set"
  assumes palloc_total: "pinv s \<Longrightarrow> 0 < n \<Longrightarrow> n \<le> MAX_PAGES \<Longrightarrow>
      \<exists>r s'. palloc s n fl = Inr (r, s') \<and> pinv s' \<and> mark s \<le> mark s' \<and> mapped s \<subseteq> mapped s' \<and>
        (case r of Inl e \<Rightarrow> True
         | Inr a \<Rightarrow> 4096 dvd a \<and> 0 < a \<and> mark s \<le> a \<and> a + n * 4096 \<le> mark s' \<and> page_run a n \<subseteq> mapped s')"
    and pdealloc_total: "pinv s \<Longrightarrow> 4096 dvd a \<Longrightarrow> 0 < n \<Longrightarrow> page_run a n \<subseteq> mapped s \<Longrightarrow>
      \<exists>s'. pdealloc s a n = Inr (Inr (), s') \<and> pinv s' \<and> mark s' = mark s \<and> mapped s' = mapped s - page_run a n"
    and mark_bound: "pinv s \<Longrightarrow> mark s < 2 ^ 64"

text \<open>
  The pages of the heap area below the bump pointer that are mapped, and the invariant: the bump pointer
  is page aligned and in the range the requests can reach, nothing is mapped above it, and the frames
  behind the heap pages belong to the frame allocator, are not free, and are not shared by two pages.
  The frames in play, free or behind a heap page, stay within the set \<open>G\<close> they started from.
\<close>

definition heap_pages :: "('m \<Rightarrow> (nat \<rightharpoonup> nat \<times> page_flag set)) \<Rightarrow> ('m, 'f) page_allocator \<Rightarrow> nat set" where
  "heap_pages mapping pa = {pg. KERNEL_HEAP_START \<le> pg \<and> pg < current_virt pa \<and> 4096 dvd pg \<and>
     mapping (pa_mapper pa) pg \<noteq> None}"

text \<open>The frames behind a set of pages are not free, and no two of the pages share one.\<close>

definition frames_private :: "(nat \<rightharpoonup> nat \<times> page_flag set) \<Rightarrow> nat set \<Rightarrow> nat set \<Rightarrow> bool" where
  "frames_private M P free \<longleftrightarrow> frames_of M P \<inter> free = {} \<and>
     (\<forall>pg\<in>P. \<forall>pg'\<in>P. \<forall>x fl fl'. M pg = Some (x, fl) \<and> M pg' = Some (x, fl') \<longrightarrow> pg = pg')"

definition pa_inv :: "nat set \<Rightarrow> ('f \<Rightarrow> nat set) \<Rightarrow> ('f \<Rightarrow> bool) \<Rightarrow> ('f \<Rightarrow> nat set) \<Rightarrow> ('m \<Rightarrow> (nat \<rightharpoonup> nat \<times> page_flag set)) \<Rightarrow>
    ('m, 'f) page_allocator \<Rightarrow> bool" where
  "pa_inv G free finv owned mapping pa \<longleftrightarrow> finv (pa_frames pa) \<and> end_virt pa = KERNEL_HEAP_END \<and>
     4096 dvd current_virt pa \<and> KERNEL_HEAP_START \<le> current_virt pa \<and>
     current_virt pa \<le> KERNEL_HEAP_END + MAX_PAGES * (MAX_PAGES * 4096) \<and>
     dom (mapping (pa_mapper pa)) \<inter> {current_virt pa..} = {} \<and>
     frames_of (mapping (pa_mapper pa)) (heap_pages mapping pa) \<subseteq> owned (pa_frames pa) \<and>
     frames_private (mapping (pa_mapper pa)) (heap_pages mapping pa) (free (pa_frames pa)) \<and>
     free (pa_frames pa) \<union> frames_of (mapping (pa_mapper pa)) (heap_pages mapping pa) \<subseteq> G"

lemmas heap_bounds = KERNEL_HEAP_START_def KERNEL_HEAP_END_def KERNEL_HEAP_SIZE_def MAX_PAGES_def

lemma map_pages_frames:
  "pg \<in> page_run a (length xs) \<Longrightarrow> \<exists>j<length xs. map_pages a xs fl M pg = Some (xs ! j, fl)"
  using map_pages_nth by (fastforce simp: page_run_def)

lemma map_pages_run:
  assumes "pg \<in> page_run a (length xs)" and "map_pages a xs fl M pg = Some (x, fl')"
  shows "\<exists>j<length xs. pg = a + j * 4096 \<and> x = xs ! j"
  using assms map_pages_nth [of _ xs a fl M] by (fastforce simp: page_run_def)

lemma frames_privateD:
  "frames_private M P fr \<Longrightarrow> pg \<in> P \<Longrightarrow> pg' \<in> P \<Longrightarrow> M pg = Some (x, fl) \<Longrightarrow> M pg' = Some (x, fl') \<Longrightarrow> pg = pg'"
  unfolding frames_private_def by blast

lemma frames_privateI:
  assumes "frames_of M P \<inter> fr = {}"
    and "\<And>pg pg' x fl fl'. pg \<in> P \<Longrightarrow> pg' \<in> P \<Longrightarrow> M pg = Some (x, fl) \<Longrightarrow> M pg' = Some (x, fl') \<Longrightarrow> pg = pg'"
  shows "frames_private M P fr"
  using assms unfolding frames_private_def by blast

lemma frames_private_map:
  assumes P: "frames_private M P fr" and disj: "page_run a (length xs) \<inter> dom M = {}"
    and xs: "distinct xs" "set xs \<subseteq> fr" "fr' \<subseteq> fr - set xs"
  shows "frames_private (map_pages a xs fl M) (P \<union> page_run a (length xs)) fr'"
proof -
  let ?M = "map_pages a xs fl M" and ?run = "page_run a (length xs)"
  have frame: "if pg \<in> ?run then \<exists>j<length xs. pg = a + j * 4096 \<and> x = xs ! j
      else M pg = Some (x, fl') \<and> x \<notin> fr" if "pg \<in> P \<union> ?run" "?M pg = Some (x, fl')" for pg x fl'
  proof (cases "pg \<in> ?run")
    case True
    then show ?thesis using map_pages_run that(2) by simp
  next
    case False
    then have "M pg = Some (x, fl')" "pg \<in> P" using that by (auto simp: map_pages_outside)
    then have "x \<in> frames_of M P" by (auto simp: frames_of_def)
    then show ?thesis using False P \<open>M pg = Some (x, fl')\<close> by (auto simp: frames_private_def)
  qed
  have "frames_of ?M (P \<union> ?run) \<inter> fr' = {}"
  proof (rule ccontr)
    assume "frames_of ?M (P \<union> ?run) \<inter> fr' \<noteq> {}"
    then obtain x pg fl' where "x \<in> fr'" "pg \<in> P \<union> ?run" "?M pg = Some (x, fl')" by (auto simp: frames_of_def)
    then show False using frame [of pg x fl'] xs(3) by (auto split: if_splits)
  qed
  moreover have "pg = pg'" if "pg \<in> P \<union> ?run" "pg' \<in> P \<union> ?run" "?M pg = Some (x, fl1)" "?M pg' = Some (x, fl2)"
    for pg pg' x fl1 fl2
  proof -
    note f = frame [OF that(1,3)] frame [OF that(2,4)]
    have "x \<notin> fr \<or> x \<in> set xs \<and> x \<in> fr" using f xs(2) by (auto split: if_splits)
    then consider "pg \<in> ?run" "pg' \<in> ?run" | "pg \<notin> ?run" "pg' \<notin> ?run"
      using f xs(2) nth_mem by (metis (full_types) subsetD)
    then show ?thesis
    proof cases
      case 1
      then obtain j k where "j < length xs" "k < length xs" "pg = a + j * 4096" "pg' = a + k * 4096" "xs ! j = xs ! k"
        using f by auto
      then show ?thesis using xs(1) by (simp add: nth_eq_iff_index_eq)
    next
      case 2
      then have "pg \<in> P" "pg' \<in> P" "M pg = Some (x, fl1)" "M pg' = Some (x, fl2)" using f that(1,2) by auto
      then show ?thesis by (rule frames_privateD [OF P])
    qed
  qed
  ultimately show ?thesis by (rule frames_privateI)
qed

lemma frames_private_restrict:
  assumes P: "frames_private M P fr" and R: "R \<subseteq> P"
  shows "frames_private (M |` (- R)) (P - R) (fr \<union> frames_of M R)"
proof -
  have new: "x \<notin> fr \<union> frames_of M R" if pg: "pg \<in> P - R" "M pg = Some (x, fl)" for pg x fl
  proof -
    have "x \<in> frames_of M P" using pg by (auto simp: frames_of_def)
    then have "x \<notin> fr" using P by (auto simp: frames_private_def)
    moreover have "pg' \<notin> R" if "M pg' = Some (x, fl')" for pg' fl'
      using frames_privateD [OF P _ _ pg(2) that] pg(1) R by blast
    ultimately show ?thesis by (auto simp: frames_of_def)
  qed
  have restr: "(M |` (- R)) pg = M pg" if "pg \<in> P - R" for pg using that by simp
  have "frames_of (M |` (- R)) (P - R) \<inter> (fr \<union> frames_of M R) = {}"
  proof (rule ccontr)
    assume "frames_of (M |` (- R)) (P - R) \<inter> (fr \<union> frames_of M R) \<noteq> {}"
    then obtain x pg fl where x: "x \<in> fr \<union> frames_of M R" "pg \<in> P - R" "(M |` (- R)) pg = Some (x, fl)"
      unfolding frames_of_def by blast
    then show False using new [OF x(2)] restr [OF x(2)] by simp
  qed
  moreover have "pg = pg'"
    if "pg \<in> P - R" "pg' \<in> P - R" "(M |` (- R)) pg = Some (x, fl)" "(M |` (- R)) pg' = Some (x, fl')" for pg pg' x fl fl'
    using frames_privateD [OF P, of pg pg' x fl fl'] that restr by auto
  ultimately show ?thesis by (rule frames_privateI)
qed

lemma heap_pages_map:
  assumes M: "mapping (pa_mapper pa') = map_pages (current_virt pa) xs fl (mapping (pa_mapper pa))"
    and "4096 dvd current_virt pa" and "KERNEL_HEAP_START \<le> current_virt pa"
    and cv: "current_virt pa + length xs * 4096 \<le> current_virt pa'"
    and unmapped: "dom (mapping (pa_mapper pa)) \<inter> {current_virt pa..} = {}"
  shows "heap_pages mapping pa' = heap_pages mapping pa \<union> page_run (current_virt pa) (length xs)"
    and "dom (mapping (pa_mapper pa')) \<inter> {current_virt pa'..} = {}"
proof -
  let ?run = "page_run (current_virt pa) (length xs)"
  have run: "pg \<in> ?run \<Longrightarrow> 4096 dvd pg \<and> current_virt pa \<le> pg \<and> pg < current_virt pa'" for pg
    using page_run_bounds [of pg "current_virt pa" "length xs"] assms(2) cv by (auto simp: page_run_def)
  have dom: "dom (mapping (pa_mapper pa')) = dom (mapping (pa_mapper pa)) \<union> ?run"
    unfolding M by (rule map_pages_dom)
  have low: "pg < current_virt pa" if "pg \<in> dom (mapping (pa_mapper pa))" for pg
    using that unmapped by (metis IntI atLeast_iff empty_iff not_le)
  show "heap_pages mapping pa' = heap_pages mapping pa \<union> ?run"
  proof (rule set_eqI)
    fix pg
    have "mapping (pa_mapper pa') pg \<noteq> None \<longleftrightarrow> mapping (pa_mapper pa) pg \<noteq> None \<or> pg \<in> ?run"
      using dom unfolding domIff [symmetric] by simp
    then show "pg \<in> heap_pages mapping pa' \<longleftrightarrow> pg \<in> heap_pages mapping pa \<union> ?run"
      using run [of pg] low [of pg] assms(3) cv unfolding heap_pages_def by (cases "pg \<in> ?run") auto
  qed
  show "dom (mapping (pa_mapper pa')) \<inter> {current_virt pa'..} = {}"
    unfolding dom using run low cv by (meson disjoint_iff atLeast_iff UnE add_leD1 leD le_trans)
qed

lemma heap_frames_map:
  assumes "mapping (pa_mapper pa') = map_pages (current_virt pa) xs fl (mapping (pa_mapper pa))"
    and "heap_pages mapping pa' = heap_pages mapping pa \<union> page_run (current_virt pa) (length xs)"
  shows "frames_of (mapping (pa_mapper pa')) (heap_pages mapping pa') \<subseteq>
    frames_of (mapping (pa_mapper pa)) (heap_pages mapping pa) \<union> set xs"
proof
  fix fr assume "fr \<in> frames_of (mapping (pa_mapper pa')) (heap_pages mapping pa')"
  then obtain pg fl' where pg: "pg \<in> heap_pages mapping pa'" "mapping (pa_mapper pa') pg = Some (fr, fl')"
    by (auto simp: frames_of_def)
  show "fr \<in> frames_of (mapping (pa_mapper pa)) (heap_pages mapping pa) \<union> set xs"
  proof (cases "pg \<in> page_run (current_virt pa) (length xs)")
    case True
    then obtain j where "j < length xs" "mapping (pa_mapper pa') pg = Some (xs ! j, fl)"
      using map_pages_frames [OF True, of fl "mapping (pa_mapper pa)"] assms(1) by auto
    then show ?thesis using pg(2) by auto
  next
    case False
    then have "mapping (pa_mapper pa) pg = Some (fr, fl')" "pg \<in> heap_pages mapping pa"
      using pg assms by (auto simp: map_pages_outside)
    then show ?thesis by (auto simp: frames_of_def)
  qed
qed

context paging
begin

lemma page_alloc_outcome:
  assumes inv: "pa_inv G free inv owned mapping pa" and n: "0 < n" "n \<le> MAX_PAGES"
    and space: "current_virt pa + n * 4096 \<le> KERNEL_HEAP_END"
  shows "\<exists>r pa' xs. page_alloc p X T pa n fl = Inr (r, pa') \<and> pa_inv G free inv owned mapping pa' \<and>
    distinct xs \<and> set xs \<subseteq> free (pa_frames pa) \<and> free (pa_frames pa') \<subseteq> free (pa_frames pa) - set xs \<and>
    page_run (current_virt pa) (length xs) \<inter> dom (mapping (pa_mapper pa)) = {} \<and>
    mapping (pa_mapper pa') = map_pages (current_virt pa) xs fl (mapping (pa_mapper pa)) \<and>
    heap_pages mapping pa' = heap_pages mapping pa \<union> page_run (current_virt pa) (length xs) \<and>
    current_virt pa' = current_virt pa + length xs * (n * 4096) \<and>
    (case r of Inr a \<Rightarrow> a = current_virt pa \<and> length xs = n | Inl e \<Rightarrow> length xs < n)"
proof -
  let ?cv = "current_virt pa"
  from inv have i: "inv (pa_frames pa)" "end_virt pa = KERNEL_HEAP_END" "4096 dvd ?cv" "KERNEL_HEAP_START \<le> ?cv"
    "dom (mapping (pa_mapper pa)) \<inter> {?cv..} = {}"
    "frames_of (mapping (pa_mapper pa)) (heap_pages mapping pa) \<subseteq> owned (pa_frames pa)"
    "frames_private (mapping (pa_mapper pa)) (heap_pages mapping pa) (free (pa_frames pa))"
    "free (pa_frames pa) \<union> frames_of (mapping (pa_mapper pa)) (heap_pages mapping pa) \<subseteq> G"
    by (auto simp: pa_inv_def)
  have nn: "n * (n * 4096) \<le> MAX_PAGES * (MAX_PAGES * 4096)" using n(2) by (intro mult_le_mono) auto
  have hi: "?cv \<le> KERNEL_HEAP_END" using space by linarith
  have b: "2 ^ 64 - 2 ^ 47 \<le> ?cv" "end_virt pa < 2 ^ 64" using i(2,4) by (simp_all add: heap_bounds)
  have b3: "?cv + n * (n * 4096) < 2 ^ 64"
    by (rule le_less_trans [OF add_mono [OF hi nn]]) (simp add: heap_bounds)
  have sp: "?cv + n * 4096 \<le> end_virt pa" using space i(2) by simp
  obtain r pa' xs where A: "page_alloc p X T pa n fl = Inr (r, pa')" "inv (pa_frames pa')"
    "owned (pa_frames pa') = owned (pa_frames pa)" "end_virt pa' = end_virt pa" "length xs \<le> n"
    "distinct xs" "set xs \<subseteq> free (pa_frames pa)" "free (pa_frames pa') \<subseteq> free (pa_frames pa) - set xs"
    "page_run ?cv (length xs) \<inter> dom (mapping (pa_mapper pa)) = {}"
    "mapping (pa_mapper pa') = map_pages ?cv xs fl (mapping (pa_mapper pa))"
    "current_virt pa' = ?cv + length xs * (n * 4096)"
    "case r of Inr a \<Rightarrow> a = ?cv \<and> length xs = n | Inl e \<Rightarrow> length xs < n"
    using page_alloc_in_space [OF i(1,3) b(1) sp b(2) b3, of p fl] by blast
  have cv: "?cv + length xs * 4096 \<le> current_virt pa'" using A(11) n(1) by simp
  note hp = heap_pages_map [OF A(10) i(3,4) cv i(5)]
  have "set xs \<subseteq> owned (pa_frames pa)" using A(7) fa.free_owned [OF i(1)] by blast
  then have own: "frames_of (mapping (pa_mapper pa')) (heap_pages mapping pa') \<subseteq> owned (pa_frames pa')"
    using heap_frames_map [OF A(10) hp(1)] i(6) A(3) by auto
  have G: "free (pa_frames pa') \<union> frames_of (mapping (pa_mapper pa')) (heap_pages mapping pa') \<subseteq> G"
    using heap_frames_map [OF A(10) hp(1)] i(8) A(7,8) by blast
  have "length xs * (n * 4096) \<le> MAX_PAGES * (MAX_PAGES * 4096)"
    using A(5) n(2) by (intro mult_le_mono) auto
  with hi have "current_virt pa' \<le> KERNEL_HEAP_END + MAX_PAGES * (MAX_PAGES * 4096)"
    unfolding A(11) by (rule add_mono)
  moreover have "4096 dvd current_virt pa'" unfolding A(11) using i(3) by simp
  ultimately have "pa_inv G free inv owned mapping pa'"
    unfolding pa_inv_def
    using A(2,4) i(2,4) cv hp(2) own G frames_private_map [OF i(7) A(9,6,7,8), of fl] unfolding hp(1) A(10) by simp
  then show ?thesis using A(1,6-12) hp(1) by blast
qed

lemma page_alloc_contract:
  assumes inv: "pa_inv G free inv owned mapping pa" and n: "0 < n" "n \<le> MAX_PAGES"
  shows "\<exists>r pa'. page_alloc p X T pa n fl = Inr (r, pa') \<and> pa_inv G free inv owned mapping pa' \<and>
    current_virt pa \<le> current_virt pa' \<and> heap_pages mapping pa \<subseteq> heap_pages mapping pa' \<and>
    (case r of Inl e \<Rightarrow> True
     | Inr a \<Rightarrow> 4096 dvd a \<and> 0 < a \<and> current_virt pa \<le> a \<and> a + n * 4096 \<le> current_virt pa' \<and>
         page_run a n \<subseteq> heap_pages mapping pa')"
proof (cases "current_virt pa + n * 4096 \<le> KERNEL_HEAP_END")
  case True
  let ?cv = "current_virt pa"
  obtain r pa' and xs :: "nat list" where A: "page_alloc p X T pa n fl = Inr (r, pa')" "pa_inv G free inv owned mapping pa'"
    "heap_pages mapping pa' = heap_pages mapping pa \<union> page_run ?cv (length xs)"
    "current_virt pa' = ?cv + length xs * (n * 4096)"
    "case r of Inr a \<Rightarrow> a = ?cv \<and> length xs = n | Inl e \<Rightarrow> length xs < n"
    using page_alloc_outcome [OF assms True, of p fl] by blast
  have "n * 4096 \<le> n * (n * 4096)" using n(1) by simp
  then have "case r of Inl e \<Rightarrow> True
     | Inr a \<Rightarrow> 4096 dvd a \<and> 0 < a \<and> ?cv \<le> a \<and> a + n * 4096 \<le> current_virt pa' \<and> page_run a n \<subseteq> heap_pages mapping pa'"
    using A(3-5) inv by (auto simp: pa_inv_def KERNEL_HEAP_START_def split: sum.splits)
  with A show ?thesis by (intro exI [of _ r] exI [of _ pa']) simp
next
  case False
  have "current_virt pa + n * 4096 < 2 ^ 64" "end_virt pa = KERNEL_HEAP_END"
    using inv n(2) by (simp_all add: pa_inv_def heap_bounds)
  then have "page_alloc p X T pa n fl = Inr (Inl FrameAllocationFailed, pa)"
    using False by (intro page_alloc_out_of_space) auto
  then show ?thesis using inv by auto
qed

lemma heap_run_bounds:
  assumes inv: "pa_inv G free inv owned mapping pa" and a: "4096 dvd a" "0 < n" "page_run a n \<subseteq> heap_pages mapping pa"
  shows "2 ^ 64 - 2 ^ 47 \<le> a" "a + n * 4096 \<le> 2 ^ 64"
proof -
  from inv have i: "current_virt pa < 2 ^ 64" "4096 dvd current_virt pa"
    by (auto simp: pa_inv_def heap_bounds)
  have "a + 0 * 4096 \<in> page_run a n" using a(2) unfolding page_run_def by blast
  then have "a \<in> heap_pages mapping pa" using a(3) by auto
  then show "2 ^ 64 - 2 ^ 47 \<le> a" by (simp add: heap_pages_def heap_bounds)
  have "a + (n - 1) * 4096 \<in> page_run a n" using a(2) unfolding page_run_def by (auto intro: exI [of _ "n - 1"])
  then have "a + (n - 1) * 4096 < current_virt pa" using a(3) by (auto simp: heap_pages_def)
  moreover obtain u v where uv: "a = 4096 * u" "current_virt pa = 4096 * v" using a(1) i(2) by (auto elim!: dvdE)
  ultimately have "u + n \<le> v" using a(2) by simp
  then show "a + n * 4096 \<le> 2 ^ 64" using uv i(1) by simp
qed

text \<open>Deallocating a run that is mapped removes it from the page table and frees its frames.\<close>

lemma page_dealloc_outcome:
  assumes inv: "pa_inv G free inv owned mapping pa" and a: "4096 dvd a" "0 < n" "page_run a n \<subseteq> heap_pages mapping pa"
  shows "\<exists>pa'. page_dealloc p X T pa a n = Inr (Inr (), pa') \<and> pa_inv G free inv owned mapping pa' \<and>
    current_virt pa' = current_virt pa \<and> heap_pages mapping pa' = heap_pages mapping pa - page_run a n \<and>
    mapping (pa_mapper pa') = mapping (pa_mapper pa) |` (- page_run a n) \<and>
    free (pa_frames pa') = free (pa_frames pa) \<union> frames_of (mapping (pa_mapper pa)) (page_run a n)"
proof -
  let ?M = "mapping (pa_mapper pa)"
  from inv have i: "inv (pa_frames pa)" "frames_of ?M (heap_pages mapping pa) \<subseteq> owned (pa_frames pa)"
    "frames_private ?M (heap_pages mapping pa) (free (pa_frames pa))"
    by (auto simp: pa_inv_def)
  have run: "page_run (a + 0 * 4096) (n - 0) = page_run a n" by simp
  have dom: "page_run a n \<subseteq> dom ?M" using a(3) by (auto simp: heap_pages_def)
  have own: "frames_of ?M (page_run a n) \<subseteq> owned (pa_frames pa)" using a(3) i(2) by (auto simp: frames_of_def)
  obtain pa' where D: "page_dealloc_loop p X T a [0..<n] pa = Inr (Inr (), pa')" "inv (pa_frames pa')"
    "owned (pa_frames pa') = owned (pa_frames pa)" "end_virt pa' = end_virt pa"
    "current_virt pa' = current_virt pa" "mapping (pa_mapper pa') = ?M |` (- page_run a n)"
    "free (pa_frames pa') = free (pa_frames pa) \<union> frames_of ?M (page_run a n)"
    using page_dealloc_loop_total [OF i(1) a(1) heap_run_bounds [OF inv a], of 0 p, unfolded run, OF dom own] by auto
  have hp: "heap_pages mapping pa' = heap_pages mapping pa - page_run a n"
    unfolding heap_pages_def D(5,6) by (auto simp: restrict_map_def)
  have "frames_of (mapping (pa_mapper pa')) (heap_pages mapping pa') \<subseteq> owned (pa_frames pa')"
    using i(2) unfolding hp D(3,6) by (force simp: frames_of_def restrict_map_def split: if_splits)
  moreover have "free (pa_frames pa') \<union> frames_of (mapping (pa_mapper pa')) (heap_pages mapping pa') \<subseteq> G"
  proof -
    have "frames_of ?M (page_run a n) \<subseteq> frames_of ?M (heap_pages mapping pa)" using a(3) by (auto simp: frames_of_def)
    moreover have "frames_of (mapping (pa_mapper pa')) (heap_pages mapping pa') \<subseteq> frames_of ?M (heap_pages mapping pa)"
      unfolding hp D(6) by (auto simp: frames_of_def restrict_map_def split: if_splits)
    ultimately show ?thesis using inv D(7) by (auto simp: pa_inv_def)
  qed
  ultimately have "pa_inv G free inv owned mapping pa'"
    using inv D(2-5) frames_private_restrict [OF i(3) a(3)] unfolding pa_inv_def hp D(6,7) by auto
  then show ?thesis using D(1,5-7) hp by (auto simp: page_dealloc_def)
qed

end

sublocale paging \<subseteq> pages: page_source "page_alloc p X T" "page_dealloc p X T" "pa_inv G free inv owned mapping"
  current_virt "heap_pages mapping" for p G
proof unfold_locales
  fix s a n assume "pa_inv G free inv owned mapping s" "4096 dvd a" "0 < n" "page_run a n \<subseteq> heap_pages mapping s"
  then show "\<exists>s'. page_dealloc p X T s a n = Inr (Inr (), s') \<and> pa_inv G free inv owned mapping s' \<and>
      current_virt s' = current_virt s \<and> heap_pages mapping s' = heap_pages mapping s - page_run a n"
    using page_dealloc_outcome by blast
next
  show "pa_inv G free inv owned mapping s \<Longrightarrow> current_virt s < 2 ^ 64" for s
    by (simp add: pa_inv_def heap_bounds)
qed (rule page_alloc_contract; assumption)

section \<open>A mapper and the allocator over the kernel's frames\<close>

text \<open>
  A page table whose lower levels exist already, so that \<open>map_to\<close> takes no frame of its own:
  the least mapper that behaves as documented. With the bitmap allocator it interprets the contract.
\<close>

type_synonym page_map = "nat \<rightharpoonup> nat \<times> page_flag set"

definition flat_map_to :: "page_map \<Rightarrow> nat \<Rightarrow> nat \<Rightarrow> page_flag set \<Rightarrow> 'f \<Rightarrow> ((map_to_error + unit) \<times> page_map \<times> 'f) res" where
  "flat_map_to m pg fr fl f =
     Inr (if m pg = None then (Inr (), m(pg \<mapsto> (fr, fl)), f) else (Inl (PageAlreadyMapped fr), m, f))"

definition flat_unmap :: "page_map \<Rightarrow> nat \<Rightarrow> ((unmap_error + nat) \<times> page_map) res" where
  "flat_unmap m pg = Inr (case m pg of None \<Rightarrow> (Inl PageNotMapped, m) | Some (fr, _) \<Rightarrow> (Inr fr, m(pg := None)))"

definition kernel_traits :: "profile \<Rightarrow> (page_map, 8 word list bitmap_frame_allocator) paging_traits" where
  "kernel_traits p = \<lparr>fa_allocate = allocate_frame p x86_std lsb0, fa_deallocate = deallocate_frame p lsb0,
     map_to = flat_map_to, unmap = flat_unmap\<rparr>"

lemma kernel_traits_frames [simp]:
  "fa_allocate (kernel_traits p) = allocate_frame p x86_std lsb0"
  "fa_deallocate (kernel_traits p) = deallocate_frame p lsb0"
  by (simp_all add: kernel_traits_def)

interpretation kernel_paging: paging x86_std "kernel_traits p" "free_frames lsb0" "bfa_inv lsb0" managed_frames id for p
proof unfold_locales
  show "bfa_inv lsb0 f \<Longrightarrow> \<exists>r f'. fa_allocate (kernel_traits p) f = Inr (r, f') \<and> bfa_inv lsb0 f' \<and>
    (case r of None \<Rightarrow> free_frames lsb0 f = {} \<and> free_frames lsb0 f' = {}
     | Some x \<Rightarrow> x \<in> free_frames lsb0 f \<and> free_frames lsb0 f' = free_frames lsb0 f - {x})" for f
    by (simp add: kernel_frames.bfa.alloc_total)
qed (auto simp: kernel_traits_def flat_map_to_def flat_unmap_def kernel_frames.bfa.free_owned
      kernel_frames.bfa.alloc_owned kernel_frames.bfa.dealloc_total split: option.splits)

text \<open>The allocator that \<open>init_page_allocator\<close> installs, over the example frames.\<close>

definition example_pages :: "(page_map, 8 word list bitmap_frame_allocator) page_allocator" where
  "example_pages = page_allocator_new (\<lambda>_. None) example_alloc KERNEL_HEAP_START KERNEL_HEAP_END"

lemma page_allocator_new_inv:
  assumes "finv f" and "\<forall>pg\<ge>KERNEL_HEAP_START. mapping m pg = None" and "free f \<subseteq> G"
  shows "pa_inv G free finv owned mapping (page_allocator_new m f KERNEL_HEAP_START KERNEL_HEAP_END)"
  using assms by (auto simp: pa_inv_def page_allocator_new_def heap_bounds heap_pages_def frames_of_def frames_private_def)

lemma example_pages_inv: "pa_inv UNIV (free_frames lsb0) (bfa_inv lsb0) managed_frames id example_pages"
  unfolding example_pages_def by (rule page_allocator_new_inv) (simp_all add: example_alloc_inv)

lemmas page_exec = page_alloc_def page_allocator_new_def example_alloc_def kernel_traits_def flat_map_to_def
  allocate_frame_def bitmap_set_def index_as_frame_def x86_std_def lsb0_def u64_mul_ok u64_add_ok

lemma example_pages_alloc:
  "\<exists>pa'. page_alloc p x86_std (kernel_traits p) example_pages 2 fl = Inr (Inr KERNEL_HEAP_START, pa')"
  by (simp add: example_pages_def page_exec upt_conv_Cons heap_bounds canonical_def align_down_def bit_simps)

section \<open>The properties of the page allocator\<close>

lemma page_alloc_loop_Release:
  assumes "page_alloc_loop Release X T start bytes fl is pa = Inr (Inr u, pa')" and "current_virt pa < 2 ^ 64"
  shows "current_virt pa' = (current_virt pa + length is * bytes) mod 2 ^ 64"
  using assms
proof (induction "is" arbitrary: pa)
  case (Cons i "is")
  then obtain pa1 where pa1: "page_alloc_loop Release X T start bytes fl is pa1 = Inr (Inr u, pa')"
    "current_virt pa1 = (current_virt pa + bytes) mod 2 ^ 64"
    by (auto simp: u64_add_Release Let_def split: option.splits sum.splits)
  then have "current_virt pa' = (current_virt pa1 + length is * bytes) mod 2 ^ 64"
    by (intro Cons.IH) simp_all
  then show ?case unfolding pa1(2) by (simp add: mod_simps algebra_simps)
qed simp

context paging
begin

lemma page_alloc_one_page:
  assumes "inv (pa_frames pa)" and "canonical (current_virt pa)"
    and alloc: "page_alloc p X T pa 1 fl = Inr (Inr a, pa')"
  shows "\<exists>x. mapping (pa_mapper pa') = (mapping (pa_mapper pa))(align_down (current_virt pa) \<mapsto> (x, fl))"
proof -
  have cv: "current_virt pa < 2 ^ 64" using assms(2) by (auto simp: canonical_def)
  obtain fr f1 where f1: "fa_allocate T (pa_frames pa) = Inr (fr, f1)" "inv f1"
    using fa.alloc_total [OF assms(1)] by blast
  obtain x where fr: "fr = Some x"
    using alloc f1(1) cv assms(2) by (cases fr) (auto simp: page_alloc_def u64_mul_ok u64_add_ok virt_new_ok split: if_splits)
  obtain r m f2 where m: "map_to T (pa_mapper pa) (align_down (current_virt pa)) x fl f1 = Inr (r, m, f2)"
      "case r of Inl e \<Rightarrow> True | Inr _ \<Rightarrow> mapping m = (mapping (pa_mapper pa))(align_down (current_virt pa) \<mapsto> (x, fl))"
    using map_to_total [OF f1(2), of "pa_mapper pa" "align_down (current_virt pa)" x fl] by (fastforce split: sum.splits)
  have "pa_mapper pa' = m \<and> (\<exists>u. r = Inr u)"
    using alloc f1(1) fr m(1) cv assms(2)
    by (cases r) (auto simp: page_alloc_def u64_mul_ok u64_add_ok virt_new_ok page_containing_eq split: if_splits)
  then show ?thesis using m(2) by auto
qed

end

text \<open>
  C17. \<open>PageAllocator::alloc\<close> returns in every state of the invariant, for every request up to
  16000 pages. A request that does not fit below \<open>end_virt\<close> fails and changes nothing. Otherwise
  the pages from \<open>current_virt\<close> on, none of which was mapped, are mapped one by one to
  pairwise different frames that were free: all of them on success, a proper prefix when the frames
  or the mapper fail. The bump pointer moves by the size of the whole request once per mapped page.
\<close>

theorem page_alloc_maps_fresh_run:
  assumes "paging X T free finv owned mapping" and "pa_inv G free finv owned mapping pa"
    and "0 < n" and "n \<le> MAX_PAGES"
  shows "if KERNEL_HEAP_END < current_virt pa + n * 4096
    then page_alloc p X T pa n fl = Inr (Inl FrameAllocationFailed, pa)
    else \<exists>r pa' xs. page_alloc p X T pa n fl = Inr (r, pa') \<and> pa_inv G free finv owned mapping pa' \<and>
      distinct xs \<and> set xs \<subseteq> free (pa_frames pa) \<and> free (pa_frames pa') \<subseteq> free (pa_frames pa) - set xs \<and>
      page_run (current_virt pa) (length xs) \<inter> dom (mapping (pa_mapper pa)) = {} \<and>
      mapping (pa_mapper pa') = map_pages (current_virt pa) xs fl (mapping (pa_mapper pa)) \<and>
      current_virt pa' = current_virt pa + length xs * (n * 4096) \<and>
      (case r of Inr a \<Rightarrow> a = current_virt pa \<and> length xs = n | Inl e \<Rightarrow> length xs < n)"
proof (cases "KERNEL_HEAP_END < current_virt pa + n * 4096")
  case True
  have "current_virt pa + n * 4096 < 2 ^ 64" "end_virt pa = KERNEL_HEAP_END"
    using assms(2,4) by (simp_all add: pa_inv_def heap_bounds)
  with True show ?thesis by (simp add: paging.page_alloc_out_of_space [OF assms(1)])
next
  case False
  then have "current_virt pa + n * 4096 \<le> KERNEL_HEAP_END" by simp
  from paging.page_alloc_outcome [OF assms this, of p fl] False show ?thesis by (simp only: if_False) blast
qed

theorem page_alloc_maps_fresh_run_witness:
  "\<exists>r pa' xs. page_alloc Debug x86_std (kernel_traits Debug) example_pages 2 {PRESENT, WRITABLE} = Inr (r, pa') \<and>
      pa_inv UNIV (free_frames lsb0) (bfa_inv lsb0) managed_frames id pa' \<and> distinct xs \<and>
      set xs \<subseteq> free_frames lsb0 (pa_frames example_pages) \<and>
      free_frames lsb0 (pa_frames pa') \<subseteq> free_frames lsb0 (pa_frames example_pages) - set xs \<and>
      page_run (current_virt example_pages) (length xs) \<inter> dom (id (pa_mapper example_pages)) = {} \<and>
      id (pa_mapper pa') =
        map_pages (current_virt example_pages) xs {PRESENT, WRITABLE} (id (pa_mapper example_pages)) \<and>
      current_virt pa' = current_virt example_pages + length xs * (2 * 4096) \<and>
      (case r of Inr a \<Rightarrow> a = current_virt example_pages \<and> length xs = 2 | Inl e \<Rightarrow> length xs < 2)"
proof -
  have "\<not> KERNEL_HEAP_END < current_virt example_pages + 2 * 4096"
    by (simp add: example_pages_def page_allocator_new_def heap_bounds)
  then show ?thesis
    using page_alloc_maps_fresh_run [OF kernel_paging.paging_axioms example_pages_inv, of 2 Debug Debug "{PRESENT, WRITABLE}"]
    by (simp only: if_False MAX_PAGES_def)
qed

text \<open>
  C18. What \<open>alloc\<close> gave out, \<open>dealloc\<close> takes back: after a successful allocation of a run
  its deallocation succeeds, the page table is what it was before the allocation, the frames of
  the run are free again, and the invariant holds.
\<close>

theorem page_alloc_dealloc_roundtrip:
  assumes P: "paging X T free finv owned mapping" and inv: "pa_inv G free finv owned mapping pa"
    and n: "0 < n" "n \<le> MAX_PAGES" and alloc: "page_alloc p X T pa n fl = Inr (Inr a, pa')"
  shows "\<exists>pa''. page_dealloc p X T pa' a n = Inr (Inr (), pa'') \<and> pa_inv G free finv owned mapping pa'' \<and>
    mapping (pa_mapper pa'') = mapping (pa_mapper pa) \<and>
    free (pa_frames pa'') = free (pa_frames pa') \<union> frames_of (mapping (pa_mapper pa')) (page_run a n)"
proof -
  let ?cv = "current_virt pa"
  have space: "?cv + n * 4096 \<le> KERNEL_HEAP_END"
  proof (rule ccontr)
    assume "\<not> ?cv + n * 4096 \<le> KERNEL_HEAP_END"
    moreover have "?cv + n * 4096 < 2 ^ 64" "end_virt pa = KERNEL_HEAP_END"
      using inv n(2) by (simp_all add: pa_inv_def heap_bounds)
    ultimately show False using alloc by (simp add: paging.page_alloc_out_of_space [OF P])
  qed
  obtain xs where A: "pa_inv G free finv owned mapping pa'" "page_run ?cv n \<inter> dom (mapping (pa_mapper pa)) = {}"
    "mapping (pa_mapper pa') = map_pages ?cv xs fl (mapping (pa_mapper pa))" "length xs = n" "a = ?cv"
    "heap_pages mapping pa' = heap_pages mapping pa \<union> page_run ?cv n"
    using paging.page_alloc_outcome [OF P inv n space, of p fl] alloc by auto
  have a: "4096 dvd a" "page_run a n \<subseteq> heap_pages mapping pa'" using inv A(5,6) by (auto simp: pa_inv_def)
  obtain pa'' where D: "page_dealloc p X T pa' a n = Inr (Inr (), pa'')" "pa_inv G free finv owned mapping pa''"
    "mapping (pa_mapper pa'') = mapping (pa_mapper pa') |` (- page_run a n)"
    "free (pa_frames pa'') = free (pa_frames pa') \<union> frames_of (mapping (pa_mapper pa')) (page_run a n)"
    using paging.page_dealloc_outcome [OF P A(1) a(1) n(1) a(2), of p] by blast
  have "mapping (pa_mapper pa'') = mapping (pa_mapper pa)"
  proof
    fix pg
    have "pg \<in> page_run ?cv n \<Longrightarrow> mapping (pa_mapper pa) pg = None" using A(2) by (meson disjoint_iff domIff)
    then show "mapping (pa_mapper pa'') pg = mapping (pa_mapper pa) pg"
      using map_pages_outside [of pg ?cv xs fl "mapping (pa_mapper pa)"]
      unfolding D(3) A(3,4,5) by (cases "pg \<in> page_run ?cv n") (auto simp: restrict_map_def)
  qed
  with D show ?thesis by blast
qed

theorem page_alloc_dealloc_roundtrip_witness:
  "\<exists>pa' pa''. page_alloc Debug x86_std (kernel_traits Debug) example_pages 2 {PRESENT} = Inr (Inr KERNEL_HEAP_START, pa') \<and>
    page_dealloc Debug x86_std (kernel_traits Debug) pa' KERNEL_HEAP_START 2 = Inr (Inr (), pa'') \<and>
    pa_inv UNIV (free_frames lsb0) (bfa_inv lsb0) managed_frames id pa'' \<and> id (pa_mapper pa'') = id (pa_mapper example_pages) \<and>
    free_frames lsb0 (pa_frames pa'') =
      free_frames lsb0 (pa_frames pa') \<union> frames_of (id (pa_mapper pa')) (page_run KERNEL_HEAP_START 2)"
proof -
  obtain pa' where alloc: "page_alloc Debug x86_std (kernel_traits Debug) example_pages 2 {PRESENT} =
      Inr (Inr KERNEL_HEAP_START, pa')"
    using example_pages_alloc by blast
  have "2 \<le> MAX_PAGES" by (simp add: MAX_PAGES_def)
  from page_alloc_dealloc_roundtrip [OF kernel_paging.paging_axioms example_pages_inv _ this alloc] alloc
  show ?thesis by auto
qed

text \<open>
  C36. The bump pointer runs away: since it moves by the whole request once per page, a request of
  \<open>n\<close> pages uses up \<open>n * n\<close> pages of address space. Once \<open>n * n\<close> pages no longer fit
  below the end of the heap, the successful request is the last one: every later request fails.
  512 pages, 2 MiB, exhaust the whole heap of 1 GiB.
\<close>

theorem page_alloc_quadratic_exhaustion:
  assumes P: "paging X T free finv owned mapping" and inv: "pa_inv G free finv owned mapping pa"
    and n: "0 < n" "n \<le> MAX_PAGES" and alloc: "page_alloc p X T pa n fl = Inr (Inr a, pa')"
    and big: "KERNEL_HEAP_END \<le> current_virt pa + n * n * 4096" and m: "0 < m" "m \<le> MAX_PAGES"
  shows "page_alloc p X T pa' m fl' = Inr (Inl FrameAllocationFailed, pa')"
proof -
  have out: "KERNEL_HEAP_END < current_virt s + k * 4096 \<Longrightarrow> k \<le> MAX_PAGES \<Longrightarrow> pa_inv G free finv owned mapping s \<Longrightarrow>
      page_alloc p X T s k fl'' = Inr (Inl FrameAllocationFailed, s)" for s k fl''
    by (rule paging.page_alloc_out_of_space [OF P]) (auto simp: pa_inv_def heap_bounds)
  have "current_virt pa + n * 4096 \<le> KERNEL_HEAP_END"
    using out [OF _ n(2) inv, of fl] alloc by (cases "current_virt pa + n * 4096 \<le> KERNEL_HEAP_END") auto
  from paging.page_alloc_outcome [OF P inv n this, of p fl] alloc
  have "pa_inv G free finv owned mapping pa'" "current_virt pa' = current_virt pa + n * (n * 4096)" by auto
  then show ?thesis using big m by (intro out) (simp_all add: mult.assoc)
qed

text \<open>The last four pages of the heap, of which a request of two pages leaves nothing.\<close>

definition example_last_pages :: "(page_map, 8 word list bitmap_frame_allocator) page_allocator" where
  "example_last_pages = page_allocator_new (\<lambda>_. None) example_alloc (KERNEL_HEAP_END - 4 * 4096) KERNEL_HEAP_END"

lemma example_last_pages_inv: "pa_inv UNIV (free_frames lsb0) (bfa_inv lsb0) managed_frames id example_last_pages"
  unfolding example_last_pages_def using example_alloc_inv
  by (auto simp: pa_inv_def page_allocator_new_def heap_bounds heap_pages_def frames_of_def frames_private_def)

lemma example_last_pages_alloc:
  "\<exists>pa'. page_alloc p x86_std (kernel_traits p) example_last_pages 2 fl = Inr (Inr (KERNEL_HEAP_END - 4 * 4096), pa')"
  by (simp add: example_last_pages_def page_exec upt_conv_Cons heap_bounds canonical_def align_down_def bit_simps)

theorem page_alloc_quadratic_exhaustion_witness:
  "\<exists>a pa'. page_alloc Release x86_std (kernel_traits Release) example_last_pages 2 {PRESENT} = Inr (Inr a, pa') \<and>
    page_alloc Release x86_std (kernel_traits Release) pa' 1 {PRESENT} = Inr (Inl FrameAllocationFailed, pa')"
proof -
  obtain a pa' where alloc: "page_alloc Release x86_std (kernel_traits Release) example_last_pages 2 {PRESENT} = Inr (Inr a, pa')"
    using example_last_pages_alloc by blast
  have "2 \<le> MAX_PAGES" "1 \<le> MAX_PAGES" by (simp_all add: MAX_PAGES_def)
  moreover have "KERNEL_HEAP_END \<le> current_virt example_last_pages + 2 * 2 * 4096"
    by (simp add: example_last_pages_def page_allocator_new_def heap_bounds)
  ultimately have "page_alloc Release x86_std (kernel_traits Release) pa' 1 {PRESENT} = Inr (Inl FrameAllocationFailed, pa')"
    using page_alloc_quadratic_exhaustion [OF kernel_paging.paging_axioms example_last_pages_inv _ _ alloc, of 1 "{PRESENT}"]
    by simp
  with alloc show ?thesis by blast
qed

text \<open>
  In a release build nothing stops the bump pointer at the end of the address space: after every
  successful request it is the old value plus \<open>n * n\<close> pages modulo \<open>2 ^ 64\<close>, whatever
  the frame allocator and the mapper do. A request of 16384 pages at the start of the heap, which
  passes the bound check, makes it zero.
\<close>

lemma page_alloc_release_wraps:
  assumes "page_alloc Release X T pa n fl = Inr (Inr a, pa')" and "current_virt pa < 2 ^ 64"
  shows "a = current_virt pa \<and> current_virt pa' = (current_virt pa + n * (n * 4096)) mod 2 ^ 64 \<and>
    (current_virt pa = KERNEL_HEAP_START \<and> n = 16384 \<longrightarrow> current_virt pa' = 0)"
proof -
  have "a = current_virt pa" and
    loop: "page_alloc_loop Release X T (current_virt pa) ((n * 4096) mod 2 ^ 64) fl [0..<n] pa = Inr (Inr (), pa')"
    using assms(1) by (auto simp: page_alloc_def u64_mul_Release u64_add_Release Let_def split: if_splits sum.splits)
  have "current_virt pa' = (current_virt pa + n * (n * 4096 mod 2 ^ 64)) mod 2 ^ 64"
    using page_alloc_loop_Release [OF loop assms(2)] by simp
  also have "\<dots> = (current_virt pa + n * (n * 4096)) mod 2 ^ 64" by (metis mod_add_right_eq mod_mult_right_eq)
  finally show ?thesis using \<open>a = current_virt pa\<close> by (simp add: heap_bounds)
qed

text \<open>
  \<open>init_start_aslr\<close> picks a start inside the heap but not on a page boundary. With such a
  start a page that \<open>alloc\<close> returns is not covered by what it maps: the page holding its last byte
  is left as it was.
\<close>

lemma aslr_start_not_covered:
  assumes P: "paging X T free finv owned mapping" and "finv (pa_frames pa)" and rng: "rng mod 4096 \<noteq> 0"
    and start: "init_start_aslr p rng pa = Inr pa1" and alloc: "page_alloc p X T pa1 1 fl = Inr (Inr a, pa2)"
  shows "KERNEL_HEAP_START \<le> a \<and> a < KERNEL_HEAP_END \<and> align_down (a + 4095) \<noteq> align_down a \<and>
    mapping (pa_mapper pa2) (align_down (a + 4095)) = mapping (pa_mapper pa) (align_down (a + 4095))"
proof -
  have lt: "rng mod KERNEL_HEAP_SIZE < KERNEL_HEAP_SIZE" by (simp add: KERNEL_HEAP_SIZE_def)
  then have pa1: "pa1 = pa\<lparr>current_virt := KERNEL_HEAP_START + rng mod KERNEL_HEAP_SIZE\<rparr>"
    using start by (simp add: init_start_aslr_def u64_add_ok heap_bounds)
  have a: "a = KERNEL_HEAP_START + rng mod KERNEL_HEAP_SIZE"
    using alloc unfolding page_alloc_def pa1 by (auto simp: Let_def split: if_splits sum.splits)
  then have range: "KERNEL_HEAP_START \<le> a" "a < KERNEL_HEAP_END" using lt by (simp_all add: KERNEL_HEAP_END_def)
  have "a mod 4096 = rng mod 4096" unfolding a by (simp add: heap_bounds mod_add_eq [symmetric] mod_mod_cancel)
  then have "a mod 4096 \<noteq> 0" using rng by simp
  then have next_page: "align_down (a + 4095) \<noteq> align_down a"
    using align_down_le [of a] align_down_gt [of "a + 4095"] by (simp add: align_down_def)
  have "canonical (current_virt pa1)" using range a pa1 by (simp add: canonical_def heap_bounds)
  then have "\<exists>x. mapping (pa_mapper pa2) = (mapping (pa_mapper pa1))(align_down (current_virt pa1) \<mapsto> (x, fl))"
    using assms(2) pa1 by (intro paging.page_alloc_one_page [OF P _ _ alloc]) simp_all
  then have "\<exists>x. mapping (pa_mapper pa2) = (mapping (pa_mapper pa))(align_down a \<mapsto> (x, fl))"
    unfolding pa1 a by simp
  then show ?thesis using range next_page by auto
qed

end
