(* ===== verification/Kernel_Heap.thy ===== *)
theory Kernel_Heap
  imports Page_Allocator
begin

text \<open>
  The kernel heap: the global allocator of \<^verbatim>\<open>kernel/src/allocator.rs\<close>, the fixed-size-block allocator
  of \<^verbatim>\<open>allocator/fixed_size_block.rs\<close> and the table of large allocations of
  \<^verbatim>\<open>allocator/alloc_info.rs\<close>.

  The state is one record: the two arrays of \<^verbatim>\<open>FixedSizeBlockAllocator\<close>, the globals
  \<^verbatim>\<open>LARGE_ALLOCS\<close> and \<^verbatim>\<open>PAGE_ALLOCATOR\<close>, and the part of memory the allocator itself
  reads and writes, the \<open>next\<close> field of the \<^verbatim>\<open>ListNode\<close> at each address. A pointer is its
  address and the null pointer is 0. The operations of the page allocator are arguments
  \<open>palloc\<close> and \<open>pdealloc\<close>; the kernel passes \<open>page_alloc\<close> and \<open>page_dealloc\<close>, and the proofs use
  the contract \<open>page_source\<close> only.

  The free lists are chains through memory. The invariant says that the free blocks and the blocks
  in use are pairwise disjoint and lie in mapped memory; it is kept by allocation, by deallocation
  of a block in use with its layout, and by every write of the users into their own blocks.
\<close>


section \<open>Layouts and size classes\<close>

text \<open>\<^verbatim>\<open>core::alloc::Layout\<close>: a size and an alignment, which is a power of two.\<close>

record layout =
  l_size :: nat
  l_align :: nat

definition BLOCK_SIZES :: "nat list" where
  "BLOCK_SIZES = [8, 16, 32, 64, 128, 256, 512, 1024, 2048]"

definition MAX_LIST_LENGTH :: nat where
  "MAX_LIST_LENGTH = 4096"

definition list_index :: "layout \<Rightarrow> nat option" where
  "list_index l = (let required_block_size = max (l_size l) (l_align l) in
     position (\<lambda>s. required_block_size \<le> s) BLOCK_SIZES)"


section \<open>The state of the heap\<close>

text \<open>
  \<^verbatim>\<open>mem::size_of::<ListNode>()\<close> and \<^verbatim>\<open>mem::align_of::<ListNode>()\<close>: the node is one optional
  reference, which is one pointer.
\<close>

definition LIST_NODE_SIZE :: nat where
  "LIST_NODE_SIZE = 8"

definition LIST_NODE_ALIGN :: nat where
  "LIST_NODE_ALIGN = 8"

record fixed_size_block_allocator =
  list_heads :: "nat option list"
  list_lengths :: "nat list"

record 'pa kheap = fixed_size_block_allocator +
  node_next :: "nat \<Rightarrow> nat option"
  LARGE_ALLOCS :: "(nat \<times> nat) option list"
  PAGE_ALLOCATOR :: "'pa option"

definition heap_new :: fixed_size_block_allocator where
  "heap_new = \<lparr>list_heads = replicate (length BLOCK_SIZES) None, list_lengths = replicate (length BLOCK_SIZES) 0\<rparr>"

definition LARGE_ALLOCS_init :: "(nat \<times> nat) option list" where
  "LARGE_ALLOCS_init = replicate 512 None"


section \<open>The large allocations\<close>

text \<open>\<open>large_alloc_insert\<close> fills the first empty slot.\<close>

fun insert_slot :: "nat \<Rightarrow> nat \<Rightarrow> (nat \<times> nat) option list \<Rightarrow> (nat \<times> nat) option list option" where
  "insert_slot addr num_pages [] = None"
| "insert_slot addr num_pages (slot # slots) =
     (if slot = None then Some (Some (addr, num_pages) # slots)
      else map_option (Cons slot) (insert_slot addr num_pages slots))"

definition large_alloc_insert :: "nat \<Rightarrow> nat \<Rightarrow> 'pa kheap \<Rightarrow> 'pa kheap res" where
  "large_alloc_insert addr num_pages h =
     (case insert_slot addr num_pages (LARGE_ALLOCS h) of
        Some slots \<Rightarrow> Inr (h\<lparr>LARGE_ALLOCS := slots\<rparr>)
      | None \<Rightarrow> Inl (Panic ''LARGE_ALLOCS is full!''))"


section \<open>Operations\<close>

text \<open>
  The body of the loops that carve a page into blocks: the node at \<open>current_addr\<close> becomes the head
  of the list, and the address advances.
\<close>

definition push_block :: "profile \<Rightarrow> nat \<Rightarrow> nat \<Rightarrow> nat \<times> 'pa kheap \<Rightarrow> (nat \<times> 'pa kheap) res" where
  "push_block p index block_size = (\<lambda>(current_addr, h).
     and_then (nth_res (list_heads h) index) (\<lambda>hd.
     let h' = h\<lparr>node_next := (node_next h)(current_addr := hd),
                list_heads := (list_heads h)[index := Some current_addr]\<rparr> in
     and_then (u64_add p current_addr block_size) (\<lambda>a. Inr (a, h'))))"

type_synonym 'pa palloc = "'pa \<Rightarrow> nat \<Rightarrow> page_flag set \<Rightarrow> ((map_to_error + nat) \<times> 'pa) res"
type_synonym 'pa pdealloc = "'pa \<Rightarrow> nat \<Rightarrow> nat \<Rightarrow> ((unmap_error + unit) \<times> 'pa) res"

text \<open>\<open>init\<close> works on the page allocator that the caller holds locked and hands over.\<close>

definition heap_init :: "profile \<Rightarrow> 'pa palloc \<Rightarrow> 'pa kheap \<Rightarrow> 'pa \<Rightarrow> ('pa kheap \<times> 'pa) res" where
  "heap_init p palloc h pa =
     and_then (palloc pa 1 {PRESENT, WRITABLE}) (\<lambda>(r, pa').
       case r of
         Inr start_addr \<Rightarrow>
           (let page_size = 4096; block_size = 8; num_blocks = page_size div block_size in
            and_then (for_each (\<lambda>_. push_block p 0 block_size) [0..<num_blocks] (start_addr, h)) (\<lambda>(_, h').
              Inr (h', pa')))
       | Inl _ \<Rightarrow> Inr (h, pa'))"

definition init_heap_experimental :: "profile \<Rightarrow> 'pa palloc \<Rightarrow> 'pa kheap \<Rightarrow> 'pa \<Rightarrow>
    ((map_to_error + unit) \<times> 'pa kheap \<times> 'pa) res" where
  "init_heap_experimental p palloc h pa =
     and_then (heap_init p palloc h pa) (\<lambda>(h', pa'). Inr (Inr (), h', pa'))"

definition fallback_alloc :: "profile \<Rightarrow> 'pa palloc \<Rightarrow> 'pa kheap \<Rightarrow> layout \<Rightarrow> (nat \<times> 'pa kheap) res" where
  "fallback_alloc p palloc h l =
     (let size = max (l_size l) (l_align l) in
      and_then (u64_add p size (PAGE_SIZE - 1)) (\<lambda>s.
      let num_pages = s div PAGE_SIZE in
      case PAGE_ALLOCATOR h of
        Some pa \<Rightarrow>
          and_then (palloc pa num_pages {PRESENT, WRITABLE}) (\<lambda>(r, pa').
            let h' = h\<lparr>PAGE_ALLOCATOR := Some pa'\<rparr> in
            case r of
              Inr addr \<Rightarrow> and_then (large_alloc_insert addr num_pages h') (\<lambda>h''. Inr (addr, h''))
            | Inl _ \<Rightarrow> Inr (0, h'))
      | None \<Rightarrow> Inr (0, h)))"

definition refill_free_list :: "profile \<Rightarrow> 'pa palloc \<Rightarrow> 'pa kheap \<Rightarrow> nat \<Rightarrow> (nat option \<times> 'pa kheap) res" where
  "refill_free_list p palloc h index =
     (case PAGE_ALLOCATOR h of
        None \<Rightarrow> Inr (None, h)
      | Some pa \<Rightarrow>
          and_then (palloc pa 1 {PRESENT, WRITABLE}) (\<lambda>(r, pa').
            let h' = h\<lparr>PAGE_ALLOCATOR := Some pa'\<rparr> in
            case r of
              Inl _ \<Rightarrow> Inr (None, h')
            | Inr page \<Rightarrow>
                and_then (nth_res BLOCK_SIZES index) (\<lambda>block_size.
                let num_blocks = PAGE_SIZE div block_size; user_block = page in
                and_then (u64_add p page block_size) (\<lambda>current_addr.
                and_then (for_each (\<lambda>_. push_block p index block_size) [1..<num_blocks] (current_addr, h')) (\<lambda>(_, h'').
                  Inr (Some user_block, h''))))))"

definition heap_alloc :: "profile \<Rightarrow> 'pa palloc \<Rightarrow> 'pa kheap \<Rightarrow> layout \<Rightarrow> (nat \<times> 'pa kheap) res" where
  "heap_alloc p palloc h l =
     (case list_index l of
        Some index \<Rightarrow>
          and_then (nth_res (list_heads h) index) (\<lambda>hd.
            case hd of
              Some node \<Rightarrow>
                Inr (node, h\<lparr>list_heads := (list_heads h)[index := node_next h node],
                             node_next := (node_next h)(node := None)\<rparr>)
            | None \<Rightarrow>
                and_then (refill_free_list p palloc h index) (\<lambda>(block, h').
                  Inr (case block of Some b \<Rightarrow> b | None \<Rightarrow> 0, h')))
      | None \<Rightarrow> fallback_alloc p palloc h l)"

text \<open>The loop of \<open>dealloc\<close> over the slots; the slots themselves are not changed.\<close>

fun dealloc_slots :: "'pa pdealloc \<Rightarrow> nat \<Rightarrow> (nat \<times> nat) option list \<Rightarrow> 'pa kheap \<Rightarrow> 'pa kheap res" where
  "dealloc_slots pdealloc start_addr [] h = Inr h"
| "dealloc_slots pdealloc start_addr (slot # slots) h =
     (case slot of
        Some (addr, num_pages) \<Rightarrow>
          if addr = start_addr then
            (case PAGE_ALLOCATOR h of
               Some pa \<Rightarrow>
                 and_then (pdealloc pa start_addr num_pages) (\<lambda>(r, pa').
                   case r of
                     Inr _ \<Rightarrow> dealloc_slots pdealloc start_addr slots (h\<lparr>PAGE_ALLOCATOR := Some pa'\<rparr>)
                   | Inl _ \<Rightarrow> Inl (Panic ''dealloc failed''))
             | None \<Rightarrow> dealloc_slots pdealloc start_addr slots h)
          else dealloc_slots pdealloc start_addr slots h
      | None \<Rightarrow> dealloc_slots pdealloc start_addr slots h)"

definition heap_dealloc :: "profile \<Rightarrow> 'pa pdealloc \<Rightarrow> 'pa kheap \<Rightarrow> nat \<Rightarrow> layout \<Rightarrow> 'pa kheap res" where
  "heap_dealloc p pdealloc h ptr l =
     (case list_index l of
        Some index \<Rightarrow>
          and_then (nth_res (list_lengths h) index) (\<lambda>len.
          if len < MAX_LIST_LENGTH then
            and_then (nth_res (list_heads h) index) (\<lambda>next.
            if \<not> LIST_NODE_SIZE \<le> BLOCK_SIZES ! index then Inl (Panic ''assertion failed'')
            else if \<not> LIST_NODE_ALIGN \<le> BLOCK_SIZES ! index then Inl (Panic ''assertion failed'')
            else and_then (u64_add p len 1) (\<lambda>len'.
              Inr (h\<lparr>node_next := (node_next h)(ptr := next),
                     list_heads := (list_heads h)[index := Some ptr],
                     list_lengths := (list_lengths h)[index := len']\<rparr>)))
          else Inr h)
      | None \<Rightarrow> dealloc_slots pdealloc ptr (LARGE_ALLOCS h) h)"

text \<open>\<open>Dummy\<close>, the allocator that refuses.\<close>

definition dummy_alloc :: "layout \<Rightarrow> nat" where
  "dummy_alloc l = 0"

definition dummy_dealloc :: "nat \<Rightarrow> layout \<Rightarrow> unit res" where
  "dummy_dealloc ptr l = Inl (Panic ''Should not be called'')"

section \<open>Size classes\<close>

lemma BLOCK_SIZES_nth: "i < 9 \<Longrightarrow> BLOCK_SIZES ! i = 2 ^ (i + 3)"
proof -
  have "\<forall>i<9. BLOCK_SIZES ! i = 2 ^ (i + 3)"
    by (simp add: all_less_list upt_conv_Cons BLOCK_SIZES_def)
  then show "i < 9 \<Longrightarrow> BLOCK_SIZES ! i = 2 ^ (i + 3)" by blast
qed

lemma length_BLOCK_SIZES [simp]: "length BLOCK_SIZES = 9"
  by (simp add: BLOCK_SIZES_def)

lemma list_index_Some_iff:
  "list_index l = Some i \<longleftrightarrow>
     i < 9 \<and> max (l_size l) (l_align l) \<le> BLOCK_SIZES ! i \<and> (\<forall>j<i. BLOCK_SIZES ! j < max (l_size l) (l_align l))"
  unfolding list_index_def Let_def position_Some_iff by (auto simp: not_le)

lemma list_index_less: "list_index l = Some i \<Longrightarrow> i < 9"
  by (simp add: list_index_Some_iff)

lemma list_index_None_iff: "list_index l = None \<longleftrightarrow> 2048 < max (l_size l) (l_align l)"
proof -
  have "position (\<lambda>s. m \<le> s) BLOCK_SIZES = None \<longleftrightarrow> 2048 < m" for m :: nat
    unfolding position_None_iff BLOCK_SIZES_def by auto
  then show ?thesis unfolding list_index_def Let_def .
qed

lemma block_size_dvd_page: "i < 9 \<Longrightarrow> BLOCK_SIZES ! i dvd 4096"
  using le_imp_power_dvd [of "i + 3" 12 "2::nat"] by (simp add: BLOCK_SIZES_nth)

lemma block_size_bounds: "i < 9 \<Longrightarrow> 8 \<le> BLOCK_SIZES ! i \<and> BLOCK_SIZES ! i \<le> 2048"
  using power_increasing [of 3 "i + 3" "2::nat"] power_increasing [of "i + 3" 11 "2::nat"] by (simp add: BLOCK_SIZES_nth)

lemma block_sizes_inj: "i < 9 \<Longrightarrow> j < 9 \<Longrightarrow> BLOCK_SIZES ! i = BLOCK_SIZES ! j \<longleftrightarrow> i = j"
  by (simp add: BLOCK_SIZES_nth)


section \<open>Free lists as chains through memory\<close>

fun chain :: "(nat \<Rightarrow> nat option) \<Rightarrow> nat option \<Rightarrow> nat list \<Rightarrow> bool" where
  "chain nx r [] \<longleftrightarrow> r = None"
| "chain nx r (b # bs) \<longleftrightarrow> r = Some b \<and> chain nx (nx b) bs"

lemma chain_Some: "chain nx (Some b) bs \<longleftrightarrow> (\<exists>cs. bs = b # cs \<and> chain nx (nx b) cs)"
  by (cases bs) auto

lemma chain_None [simp]: "chain nx None bs \<longleftrightarrow> bs = []"
  by (cases bs) auto

lemma chain_cong: "(\<And>b. b \<in> set bs \<Longrightarrow> nx b = nx' b) \<Longrightarrow> chain nx r bs \<longleftrightarrow> chain nx' r bs"
  by (induction bs arbitrary: r) auto

lemma chain_upd [simp]: "a \<notin> set bs \<Longrightarrow> chain (nx(a := v)) r bs \<longleftrightarrow> chain nx r bs"
  by (rule chain_cong) auto

text \<open>The blocks a page is carved into, in the order the loops push them.\<close>

definition blocks_from :: "nat \<Rightarrow> nat \<Rightarrow> nat \<Rightarrow> nat list" where
  "blocks_from a s n = map (\<lambda>k. a + k * s) [0..<n]"

lemma blocks_from_Suc: "blocks_from a s (Suc n) = blocks_from a s n @ [a + n * s]"
  by (simp add: blocks_from_def)

lemma set_blocks_from: "b \<in> set (blocks_from a s n) \<longleftrightarrow> (\<exists>k<n. b = a + k * s)"
  by (auto simp: blocks_from_def)

lemma distinct_blocks_from: "0 < s \<Longrightarrow> distinct (blocks_from a s n)"
  by (auto simp: blocks_from_def distinct_map inj_on_def)

lemma blocks_from_bounds: "b \<in> set (blocks_from a s n) \<Longrightarrow> a \<le> b \<and> b + s \<le> a + n * s"
proof -
  assume "b \<in> set (blocks_from a s n)"
  then obtain k where "b = a + k * s" "Suc k \<le> n" by (metis set_blocks_from Suc_leI)
  then show ?thesis using mult_le_mono1 [of "Suc k" n s] by simp
qed

lemma blocks_from_disjoint:
  assumes "b \<in> set (blocks_from a s n)" and "c \<in> set (blocks_from a s n)" and "b \<noteq> c"
  shows "blk (b, s) \<inter> blk (c, s) = {}"
proof -
  obtain j k where jk: "b = a + j * s" "c = a + k * s" using assms(1,2) by (auto simp: set_blocks_from)
  have "Suc j \<le> k \<or> Suc k \<le> j" using assms(3) jk by (metis Suc_leI linorder_neqE_nat)
  then have "b + s \<le> c \<or> c + s \<le> b"
    using mult_le_mono1 [of "Suc j" k s] mult_le_mono1 [of "Suc k" j s] jk by auto
  then show ?thesis by (rule blk_disjointI)
qed

text \<open>The carving loop pushes its blocks, the last one first, onto the list it works on.\<close>

lemma push_block_loop:
  fixes h :: "'pa kheap"
  assumes "i < length (list_heads h)" and "0 < s" and "a + length xs * s < 2 ^ 64"
    and "chain (node_next h) (list_heads h ! i) bs" and "set (blocks_from a s (length xs)) \<inter> set bs = {}"
  shows "\<exists>nx r. for_each (\<lambda>_. push_block p i s) xs (a, h) =
      Inr (a + length xs * s, h\<lparr>node_next := nx, list_heads := (list_heads h)[i := r]\<rparr>) \<and>
    chain nx r (rev (blocks_from a s (length xs)) @ bs) \<and>
    (\<forall>b. b \<notin> set (blocks_from a s (length xs)) \<longrightarrow> nx b = node_next h b)"
  using assms(3,5)
proof (induction xs rule: rev_induct)
  case Nil
  show ?case using assms(4)
    by (intro exI [of _ "node_next h"] exI [of _ "list_heads h ! i"]) (simp add: blocks_from_def)
next
  case (snoc x xs)
  let ?n = "length xs" and ?a = "a + length xs * s"
  from snoc.prems have "set (blocks_from a s ?n) \<inter> set bs = {}" "?a \<notin> set bs" "?a + s < 2 ^ 64"
    by (auto simp: blocks_from_Suc)
  then obtain nx r where IH: "for_each (\<lambda>_. push_block p i s) xs (a, h) =
      Inr (?a, h\<lparr>node_next := nx, list_heads := (list_heads h)[i := r]\<rparr>)"
    "chain nx r (rev (blocks_from a s ?n) @ bs)" "\<forall>b. b \<notin> set (blocks_from a s ?n) \<longrightarrow> nx b = node_next h b"
    using snoc.IH by auto
  have new: "?a \<notin> set (blocks_from a s ?n)" using blocks_from_bounds [of ?a a s ?n] assms(2) by auto
  obtain nx' where nx': "nx' = nx(?a := r)" by blast
  have push: "push_block p i s (?a, h\<lparr>node_next := nx, list_heads := (list_heads h)[i := r]\<rparr>) =
      Inr (a + Suc ?n * s, h\<lparr>node_next := nx', list_heads := (list_heads h)[i := Some ?a]\<rparr>)"
    using assms(1) \<open>?a + s < 2 ^ 64\<close> by (simp add: push_block_def u64_add_ok nx' add.commute)
  have "chain nx' (Some ?a) (rev (blocks_from a s (Suc ?n)) @ bs)"
    using IH(2) new \<open>?a \<notin> set bs\<close> by (simp add: blocks_from_Suc nx')
  moreover have "\<forall>b. b \<notin> set (blocks_from a s (Suc ?n)) \<longrightarrow> nx' b = node_next h b"
    using IH(3) by (simp add: blocks_from_Suc nx')
  ultimately show ?case unfolding for_each_append IH(1)
    by (intro exI [of _ nx'] exI [of _ "Some ?a"]) (simp add: push)
qed

section \<open>Blocks and regions\<close>

text \<open>The blocks of the free lists \<open>F\<close>, and the blocks in use, each with the bytes it occupies.\<close>

definition num_pages_of :: "layout \<Rightarrow> nat" where
  "num_pages_of l = (max (l_size l) (l_align l) + 4095) div 4096"

definition capacity :: "layout \<Rightarrow> nat" where
  "capacity l = (case list_index l of Some i \<Rightarrow> BLOCK_SIZES ! i | None \<Rightarrow> num_pages_of l * 4096)"

definition free_blocks :: "(nat \<Rightarrow> nat list) \<Rightarrow> (nat \<times> nat) set" where
  "free_blocks F = {(b, BLOCK_SIZES ! i) | b i. i < 9 \<and> b \<in> set (F i)}"

definition live_blocks :: "(nat \<rightharpoonup> layout) \<Rightarrow> (nat \<times> nat) set" where
  "live_blocks live = {(a, capacity l) | a l. live a = Some l}"

definition page_bytes :: "nat set \<Rightarrow> nat set" where
  "page_bytes P = (\<Union>pg\<in>P. blk (pg, 4096))"

text \<open>
  What a request must satisfy: \<^verbatim>\<open>GlobalAlloc::alloc\<close> requires a non-zero size, \<^verbatim>\<open>Layout\<close> a
  power of two as alignment, and the page allocator is used up to \<open>MAX_PAGES\<close>.
\<close>

definition layout_ok :: "layout \<Rightarrow> bool" where
  "layout_ok l \<longleftrightarrow> 0 < l_size l \<and> (\<exists>k. l_align l = 2 ^ k) \<and> max (l_size l) (l_align l) \<le> MAX_PAGES * 4096"

text \<open>A set of blocks that are pairwise disjoint, non-null, below the mark and in mapped memory.\<close>

definition region_ok :: "nat \<Rightarrow> nat set \<Rightarrow> (nat \<times> nat) set \<Rightarrow> bool" where
  "region_ok mk mp R \<longleftrightarrow> pairwise (\<lambda>x y. blk x \<inter> blk y = {}) R \<and>
     (\<forall>(b, s)\<in>R. 0 < b \<and> 0 < s \<and> b + s \<le> mk \<and> blk (b, s) \<subseteq> page_bytes mp)"

lemma in_free_blocks: "(b, s) \<in> free_blocks F \<longleftrightarrow> (\<exists>i<9. s = BLOCK_SIZES ! i \<and> b \<in> set (F i))"
  by (auto simp: free_blocks_def)

lemma in_free_blocks_nth: "i < 9 \<Longrightarrow> (b, BLOCK_SIZES ! i) \<in> free_blocks F \<longleftrightarrow> b \<in> set (F i)"
  by (auto simp: in_free_blocks block_sizes_inj)

lemma in_live_blocks: "(a, s) \<in> live_blocks live \<longleftrightarrow> (\<exists>l. live a = Some l \<and> s = capacity l)"
  by (auto simp: live_blocks_def)

lemma free_blocks_append: "i < 9 \<Longrightarrow>
    free_blocks (F(i := bs @ F i)) = free_blocks F \<union> (\<lambda>b. (b, BLOCK_SIZES ! i)) ` set bs"
  by (auto simp: free_blocks_def)

lemma free_blocks_pop: "i < 9 \<Longrightarrow> F i = b # bs \<Longrightarrow> b \<notin> set bs \<Longrightarrow>
    free_blocks (F(i := bs)) = free_blocks F - {(b, BLOCK_SIZES ! i)}"
  unfolding set_eq_iff split_paired_All Diff_iff in_free_blocks by (auto simp: block_sizes_inj split: if_splits)

lemma live_blocks_insert: "live a = None \<Longrightarrow> live_blocks (live(a \<mapsto> l)) = insert (a, capacity l) (live_blocks live)"
  by (auto simp: live_blocks_def)

lemma live_blocks_remove: "live a = Some l \<Longrightarrow> live_blocks (live(a := None)) = live_blocks live - {(a, capacity l)}"
  unfolding set_eq_iff split_paired_All Diff_iff in_live_blocks by auto

lemma region_ok_subset: "region_ok mk mp R \<Longrightarrow> S \<subseteq> R \<Longrightarrow> region_ok mk mp S"
  unfolding region_ok_def by (blast intro: pairwise_subset)

lemma page_bytes_mono: "P \<subseteq> Q \<Longrightarrow> page_bytes P \<subseteq> page_bytes Q"
  by (auto simp: page_bytes_def)

lemma region_ok_mono: "region_ok mk mp R \<Longrightarrow> mk \<le> mk' \<Longrightarrow> mp \<subseteq> mp' \<Longrightarrow> region_ok mk' mp' R"
  unfolding region_ok_def using page_bytes_mono [of mp mp'] order_trans [of _ mk mk'] by blast

lemma region_ok_eq: "region_ok mk mp R \<Longrightarrow> (b, s) \<in> R \<Longrightarrow> (b, t) \<in> R \<Longrightarrow> s = t"
proof (rule ccontr)
  assume R: "region_ok mk mp R" "(b, s) \<in> R" "(b, t) \<in> R" "s \<noteq> t"
  then have "blk (b, s) \<inter> blk (b, t) = {}" "0 < s" "0 < t"
    by (auto simp: region_ok_def pairwise_def)
  then show False by (simp add: blk_disjoint_iff)
qed

lemma region_ok_disjoint:
  "region_ok mk mp R \<Longrightarrow> x \<in> R \<Longrightarrow> y \<in> R \<Longrightarrow> x \<noteq> y \<Longrightarrow> blk x \<inter> blk y = {}"
  by (auto simp: region_ok_def pairwise_def)

text \<open>Blocks above the mark may be added.\<close>

lemma region_ok_Un:
  assumes R: "region_ok mk mp R" and N: "region_ok mk' mp N" and above: "\<forall>(b, s)\<in>N. mk \<le> b" and "mk \<le> mk'"
  shows "region_ok mk' mp (R \<union> N)" and "R \<inter> N = {}"
proof -
  have lt: "b + s \<le> c \<and> 0 < s" if "(b, s) \<in> R" "(c, t) \<in> N" for b s c t
    using that R above by (fastforce simp: region_ok_def)
  show "R \<inter> N = {}" using lt by fastforce
  have "blk x \<inter> blk y = {}" if "x \<in> R" "y \<in> N" for x y
    using lt [of "fst x" "snd x" "fst y" "snd y"] that blk_disjointI by (metis prod.collapse)
  then have "pairwise (\<lambda>x y. blk x \<inter> blk y = {}) (R \<union> N)"
    using R N unfolding region_ok_def pairwise_def by blast
  moreover have "region_ok mk' mp R" by (rule region_ok_mono [OF R assms(4) order_refl])
  ultimately show "region_ok mk' mp (R \<union> N)" using N unfolding region_ok_def by blast
qed

lemma page_bytes_run: "blk (a, n * 4096) = page_bytes (page_run a n)"
proof -
  have "\<exists>j<n. a + j * 4096 \<le> x \<and> x < a + j * 4096 + 4096" if "a \<le> x" "x < a + n * 4096" for x
    using that by (intro exI [of _ "(x - a) div 4096"]) (auto simp: less_mult_imp_div_less algebra_simps)
  then have "blk (a, n * 4096) \<subseteq> page_bytes (page_run a n)"
    unfolding page_bytes_def page_run_def by (fastforce simp: blk_def)
  moreover have "page_bytes (page_run a n) \<subseteq> blk (a, n * 4096)"
  proof
    fix x assume "x \<in> page_bytes (page_run a n)"
    then obtain pg where "pg \<in> page_run a n" "pg \<le> x" "x < pg + 4096" by (auto simp: page_bytes_def)
    then show "x \<in> blk (a, n * 4096)" using page_run_bounds [of pg a n] by simp
  qed
  ultimately show ?thesis by blast
qed

section \<open>The slots of the large allocations\<close>

definition slot_addrs :: "(nat \<times> nat) option list \<Rightarrow> nat list" where
  "slot_addrs slots = map (fst \<circ> the) (filter (\<lambda>x. x \<noteq> None) slots)"

lemma slot_addrs_simps [simp]:
  "slot_addrs [] = []"
  "slot_addrs (None # xs) = slot_addrs xs"
  "slot_addrs (Some y # xs) = fst y # slot_addrs xs"
  "slot_addrs (xs @ ys) = slot_addrs xs @ slot_addrs ys"
  by (simp_all add: slot_addrs_def)

lemma in_slot_addrs: "a \<in> set (slot_addrs xs) \<longleftrightarrow> (\<exists>n. Some (a, n) \<in> set xs)"
  by (induction xs) (auto simp: slot_addrs_def)

lemma insert_slot_Some:
  "insert_slot a n xs = Some ys \<Longrightarrow>
     \<exists>us vs. xs = us @ None # vs \<and> None \<notin> set us \<and> ys = us @ Some (a, n) # vs"
proof (induction xs arbitrary: ys)
  case (Cons x xs)
  show ?case
  proof (cases x)
    case None
    then show ?thesis using Cons.prems by (auto intro: exI [of _ "[]"])
  next
    case (Some y)
    then obtain zs where "ys = x # zs" "insert_slot a n xs = Some zs" using Cons.prems by auto
    moreover from this(2) obtain us vs where "xs = us @ None # vs" "None \<notin> set us" "zs = us @ Some (a, n) # vs"
      using Cons.IH by blast
    ultimately show ?thesis using Some by (metis append_Cons option.discI set_ConsD)
  qed
qed simp

lemma insert_slot_None: "insert_slot a n xs = None \<longleftrightarrow> None \<notin> set xs"
  by (induction xs) auto

lemma dealloc_slots_other: "a \<notin> set (slot_addrs xs) \<Longrightarrow> dealloc_slots pd a xs h = Inr h"
  by (induction xs) (auto split: option.splits)

lemma dealloc_slots_append:
  "a \<notin> set (slot_addrs us) \<Longrightarrow> dealloc_slots pd a (us @ vs) h = dealloc_slots pd a vs h"
  by (induction us) (auto split: option.splits)

lemma dealloc_slots_one:
  assumes "Some (a, n) \<in> set xs" and "distinct (slot_addrs xs)" and "PAGE_ALLOCATOR h = Some pa"
    and "pd pa a n = Inr (Inr (), pa')"
  shows "dealloc_slots pd a xs h = Inr (h\<lparr>PAGE_ALLOCATOR := Some pa'\<rparr>)"
proof -
  obtain us vs where xs: "xs = us @ Some (a, n) # vs" using assms(1) by (auto dest: split_list)
  then have "a \<notin> set (slot_addrs us)" "a \<notin> set (slot_addrs vs)" using assms(2) by auto
  then show ?thesis using assms(3,4) by (simp add: xs dealloc_slots_append dealloc_slots_other)
qed


section \<open>The invariant of the heap\<close>

definition lists_ok :: "(nat \<Rightarrow> nat list) \<Rightarrow> 'pa kheap \<Rightarrow> bool" where
  "lists_ok F h \<longleftrightarrow> length (list_heads h) = 9 \<and> length (list_lengths h) = 9 \<and>
     (\<forall>n\<in>set (list_lengths h). n \<le> MAX_LIST_LENGTH) \<and>
     (\<forall>i<9. chain (node_next h) (list_heads h ! i) (F i) \<and> distinct (F i) \<and>
        (\<forall>b\<in>set (F i). BLOCK_SIZES ! i dvd b))"

definition blocks_ok :: "nat \<Rightarrow> nat set \<Rightarrow> (nat \<Rightarrow> nat list) \<Rightarrow> (nat \<rightharpoonup> layout) \<Rightarrow> bool" where
  "blocks_ok mk mp F live \<longleftrightarrow>
     free_blocks F \<inter> live_blocks live = {} \<and> region_ok mk mp (free_blocks F \<union> live_blocks live)"

definition live_ok :: "nat set \<Rightarrow> (nat \<times> nat) option list \<Rightarrow> (nat \<rightharpoonup> layout) \<Rightarrow> bool" where
  "live_ok mp slots live \<longleftrightarrow> (\<forall>a l. live a = Some l \<longrightarrow> layout_ok l \<and>
     (case list_index l of
        Some i \<Rightarrow> BLOCK_SIZES ! i dvd a
      | None \<Rightarrow> 4096 dvd a \<and> Some (a, num_pages_of l) \<in> set slots \<and> page_run a (num_pages_of l) \<subseteq> mp))"

definition slots_ok :: "nat \<Rightarrow> (nat \<times> nat) option list \<Rightarrow> bool" where
  "slots_ok mk slots \<longleftrightarrow> length slots = 512 \<and> distinct (slot_addrs slots) \<and> (\<forall>a\<in>set (slot_addrs slots). a < mk)"

definition heap_inv :: "('pa \<Rightarrow> bool) \<Rightarrow> ('pa \<Rightarrow> nat) \<Rightarrow> ('pa \<Rightarrow> nat set) \<Rightarrow> (nat \<Rightarrow> nat list) \<Rightarrow>
    'pa kheap \<Rightarrow> (nat \<rightharpoonup> layout) \<Rightarrow> bool" where
  "heap_inv pinv mark mapped F h live \<longleftrightarrow> (\<exists>pa. PAGE_ALLOCATOR h = Some pa \<and> pinv pa \<and> lists_ok F h \<and>
     blocks_ok (mark pa) (mapped pa) F live \<and> live_ok (mapped pa) (LARGE_ALLOCS h) live \<and>
     slots_ok (mark pa) (LARGE_ALLOCS h))"

lemma heap_invE:
  assumes "heap_inv pinv mark mapped F h live"
  obtains pa where "PAGE_ALLOCATOR h = Some pa" "pinv pa" "lists_ok F h" "blocks_ok (mark pa) (mapped pa) F live"
    "live_ok (mapped pa) (LARGE_ALLOCS h) live" "slots_ok (mark pa) (LARGE_ALLOCS h)"
  using assms by (auto simp: heap_inv_def)

lemma blocks_ok_mono: "blocks_ok mk mp F live \<Longrightarrow> mk \<le> mk' \<Longrightarrow> mp \<subseteq> mp' \<Longrightarrow> blocks_ok mk' mp' F live"
  by (auto simp: blocks_ok_def intro: region_ok_mono)

lemma live_ok_mono: "live_ok mp slots live \<Longrightarrow> mp \<subseteq> mp' \<Longrightarrow> set slots \<subseteq> insert None (set slots') \<Longrightarrow> live_ok mp' slots' live"
  unfolding live_ok_def by (fastforce split: option.splits)

lemma slots_ok_mono: "slots_ok mk slots \<Longrightarrow> mk \<le> mk' \<Longrightarrow> slots_ok mk' slots"
  by (auto simp: slots_ok_def)

lemma num_pages_bounds: "layout_ok l \<Longrightarrow> 0 < num_pages_of l \<and> num_pages_of l \<le> MAX_PAGES"
  by (auto simp: layout_ok_def num_pages_of_def MAX_PAGES_def)

lemma capacity_pos: "layout_ok l \<Longrightarrow> 0 < capacity l"
  using num_pages_bounds [of l] block_size_bounds list_index_less
  by (fastforce simp: capacity_def split: option.splits)

lemma capacity_ge: "layout_ok l \<Longrightarrow> max (l_size l) (l_align l) \<le> capacity l"
  by (auto simp: capacity_def num_pages_of_def list_index_Some_iff split: option.splits)

lemma lists_okD:
  assumes "lists_ok F h" and "i < 9"
  shows "chain (node_next h) (list_heads h ! i) (F i)" "distinct (F i)" "\<forall>b\<in>set (F i). BLOCK_SIZES ! i dvd b"
    "i < length (list_heads h)" "i < length (list_lengths h)" "list_lengths h ! i \<le> MAX_LIST_LENGTH"
  using assms by (auto simp: lists_ok_def)

text \<open>A block in use is on no free list, and a free block is not in use.\<close>

lemma live_not_free:
  assumes "blocks_ok mk mp F live" and "live a = Some l" and "i < 9"
  shows "a \<notin> set (F i)"
proof
  assume "a \<in> set (F i)"
  then have f: "(a, BLOCK_SIZES ! i) \<in> free_blocks F" using assms(3) by (simp add: in_free_blocks_nth)
  have l: "(a, capacity l) \<in> live_blocks live" using assms(2) by (auto simp: in_live_blocks)
  have "BLOCK_SIZES ! i = capacity l"
    using assms(1) f l region_ok_eq unfolding blocks_ok_def by blast
  then show False using assms(1) f l by (auto simp: blocks_ok_def)
qed

lemma free_not_elsewhere:
  assumes "blocks_ok mk mp F live" and "b \<in> set (F i)" and "i < 9" and "j < 9" and "j \<noteq> i"
  shows "b \<notin> set (F j)"
proof
  assume "b \<in> set (F j)"
  then have "BLOCK_SIZES ! i = BLOCK_SIZES ! j"
    using assms region_ok_eq [of mk mp "free_blocks F \<union> live_blocks live" b "BLOCK_SIZES ! i" "BLOCK_SIZES ! j"]
    by (auto simp: blocks_ok_def in_free_blocks_nth)
  then show False using assms(3-5) by (simp add: block_sizes_inj)
qed

section \<open>Allocation keeps the invariant\<close>

text \<open>The state of the lists after list \<open>i\<close> changed from \<open>F i\<close> to \<open>bs\<close>.\<close>

lemma lists_ok_upd:
  assumes "lists_ok F h" and "i < 9" and "chain nx r bs" and "distinct bs" and "\<forall>b\<in>set bs. BLOCK_SIZES ! i dvd b"
    and "\<And>j b. j < 9 \<Longrightarrow> j \<noteq> i \<Longrightarrow> b \<in> set (F j) \<Longrightarrow> nx b = node_next h b"
    and "list_heads h' = (list_heads h)[i := r]" and "node_next h' = nx" and "length (list_lengths h') = 9"
    and "\<forall>n\<in>set (list_lengths h'). n \<le> MAX_LIST_LENGTH"
  shows "lists_ok (F(i := bs)) h'"
proof -
  have "chain nx (list_heads h ! j) (F j)" if "j < 9" "j \<noteq> i" for j
    using lists_okD(1) [OF assms(1) that(1)] assms(6) [OF that] chain_cong [of "F j" nx "node_next h"] by blast
  then show ?thesis using assms by (auto simp: lists_ok_def nth_list_update)
qed

lemma capacity_small: "list_index l = Some i \<Longrightarrow> capacity l = BLOCK_SIZES ! i"
  by (simp add: capacity_def)

lemma capacity_large: "list_index l = None \<Longrightarrow> capacity l = num_pages_of l * 4096"
  by (simp add: capacity_def)

lemma heap_alloc_pop:
  assumes inv: "heap_inv pinv mark mapped F h live" and ok: "layout_ok l"
    and i: "list_index l = Some i" and b: "list_heads h ! i = Some b"
  shows "\<exists>h'. heap_alloc p palloc h l = Inr (b, h') \<and> 0 < b \<and> live b = None \<and>
    heap_inv pinv mark mapped (F(i := tl (F i))) h' (live(b \<mapsto> l)) \<and>
    LARGE_ALLOCS h' = LARGE_ALLOCS h \<and> PAGE_ALLOCATOR h' = PAGE_ALLOCATOR h"
proof -
  obtain pa where pa: "PAGE_ALLOCATOR h = Some pa" "pinv pa" and L: "lists_ok F h"
    and B: "blocks_ok (mark pa) (mapped pa) F live"
    and rest: "live_ok (mapped pa) (LARGE_ALLOCS h) live" "slots_ok (mark pa) (LARGE_ALLOCS h)"
    using inv by (rule heap_invE)
  note i9 = list_index_less [OF i] and D = lists_okD [OF L list_index_less [OF i]]
  obtain bs where bs: "F i = b # bs" "chain (node_next h) (node_next h b) bs" using D(1) b by (auto simp: chain_Some)
  let ?h = "h\<lparr>list_heads := (list_heads h)[i := node_next h b], node_next := (node_next h)(b := None)\<rparr>"
  have run: "heap_alloc p palloc h l = Inr (b, ?h)" using i b D(4) by (simp add: heap_alloc_def)
  have nb: "b \<notin> set bs" using D(2) bs(1) by simp
  have free: "(b, BLOCK_SIZES ! i) \<in> free_blocks F" using bs(1) i9 by (simp add: in_free_blocks_nth)
  then have "0 < b" using B unfolding blocks_ok_def region_ok_def by blast
  have none: "live b = None" using live_not_free [OF B _ i9, of b] bs(1) by (cases "live b") auto
  have "lists_ok (F(i := bs)) ?h"
    by (rule lists_ok_upd [OF L i9]) (use nb bs D L i9 free_not_elsewhere [OF B _ i9, of b] in \<open>auto simp: lists_ok_def\<close>)
  moreover have "free_blocks (F(i := bs)) = free_blocks F - {(b, BLOCK_SIZES ! i)}"
    by (rule free_blocks_pop) (use i9 bs(1) nb in auto)
  then have "blocks_ok (mark pa) (mapped pa) (F(i := bs)) (live(b \<mapsto> l))"
    unfolding blocks_ok_def live_blocks_insert [of live b, OF none] capacity_small [OF i]
    using B free by (auto simp: blocks_ok_def intro: region_ok_subset)
  moreover have "live_ok (mapped pa) (LARGE_ALLOCS h) (live(b \<mapsto> l))"
    using rest(1) ok i D(3) bs(1) by (auto simp: live_ok_def)
  ultimately have "heap_inv pinv mark mapped (F(i := bs)) ?h (live(b \<mapsto> l))"
    using pa rest(2) by (simp add: heap_inv_def)
  then show ?thesis using run none \<open>0 < b\<close> bs(1) by auto
qed

lemma blocks_from_Cons: "blocks_from a s (Suc n) = a # blocks_from (a + s) s n"
  by (rule nth_equalityI) (auto simp: blocks_from_def nth_Cons split: nat.splits simp del: upt_Suc)

lemma blocks_region_ok:
  assumes "0 < a" and "0 < s" and "a + n * s \<le> mk" and "blk (a, n * s) \<subseteq> page_bytes mp"
  shows "region_ok mk mp ((\<lambda>b. (b, s)) ` set (blocks_from a s n))"
proof -
  have "blk (b, s) \<subseteq> page_bytes mp \<and> 0 < b \<and> b + s \<le> mk" if "b \<in> set (blocks_from a s n)" for b
    using blocks_from_bounds [OF that] assms blk_mono [of a b s "n * s"] by auto
  moreover have "pairwise (\<lambda>x y. blk x \<inter> blk y = {}) ((\<lambda>b. (b, s)) ` set (blocks_from a s n))"
    unfolding pairwise_def using blocks_from_disjoint by auto
  ultimately show ?thesis using assms(2) by (auto simp: region_ok_def)
qed

text \<open>A size class divides the page evenly.\<close>

lemma class_blocks: "i < 9 \<Longrightarrow> \<exists>m. 4096 div BLOCK_SIZES ! i = Suc m \<and> Suc m * BLOCK_SIZES ! i = 4096 \<and> 0 < m"
proof -
  assume i: "i < 9"
  obtain k where k: "4096 = BLOCK_SIZES ! i * k" using block_size_dvd_page [OF i] by (rule dvdE)
  have b: "8 \<le> BLOCK_SIZES ! i" "BLOCK_SIZES ! i \<le> 2048" using block_size_bounds [OF i] by auto
  have "2 \<le> k"
  proof (rule ccontr)
    assume "\<not> 2 \<le> k"
    then have "BLOCK_SIZES ! i * k \<le> 2048 * 1" using b(2) by (intro mult_le_mono) auto
    then show False using k by simp
  qed
  then have "k = Suc (k - 1)" "0 < k - 1" by auto
  moreover have "4096 div BLOCK_SIZES ! i = k" unfolding k using b(1) by simp
  ultimately show ?thesis using k by (metis mult.commute)
qed

text \<open>Adding a fresh run of blocks above the mark, the first of them for the user.\<close>

lemma blocks_ok_fresh:
  assumes B: "blocks_ok mk mp F live" and i: "i < 9" and F: "F i = []"
    and a: "0 < a" "mk \<le> a" "a + Suc m * BLOCK_SIZES ! i \<le> mk'" "mp \<subseteq> mp'"
      "blk (a, Suc m * BLOCK_SIZES ! i) \<subseteq> page_bytes mp'"
    and l: "capacity l = BLOCK_SIZES ! i"
  shows "live a = None" and
    "blocks_ok mk' mp' (F(i := rev (blocks_from (a + BLOCK_SIZES ! i) (BLOCK_SIZES ! i) m))) (live(a \<mapsto> l))"
proof -
  let ?s = "BLOCK_SIZES ! i" and ?R = "free_blocks F \<union> live_blocks live"
  let ?N = "(\<lambda>b. (b, ?s)) ` set (blocks_from a ?s (Suc m))" and ?bs = "rev (blocks_from (a + ?s) ?s m)"
  have s: "0 < ?s" using block_size_bounds [OF i] by simp
  have R: "region_ok mk mp' ?R" using B a(4) by (auto simp: blocks_ok_def intro: region_ok_mono)
  have N: "region_ok mk' mp' ?N" by (rule blocks_region_ok [OF a(1) s a(3,5)])
  have above: "\<forall>(b, s)\<in>?N. mk \<le> b" using a(2) blocks_from_bounds by fastforce
  note un = region_ok_Un [OF R N above]
  have mk: "mk \<le> mk'" using a(2,3) by simp
  have N': "?N = insert (a, ?s) ((\<lambda>b. (b, ?s)) ` set ?bs)" by (simp add: blocks_from_Cons)
  have disj: "?R \<inter> ?N = {}" by (rule un(2) [OF mk])
  show none: "live a = None"
  proof (rule ccontr)
    assume "live a \<noteq> None"
    then obtain k where "(a, capacity k) \<in> ?R" by (auto simp: in_live_blocks)
    then have "a + capacity k \<le> mk" "0 < capacity k" using R unfolding region_ok_def by blast+
    then show False using a(2) by simp
  qed
  have "F(i := ?bs) = F(i := ?bs @ F i)" using F by simp
  then have free: "free_blocks (F(i := ?bs)) = free_blocks F \<union> (\<lambda>b. (b, ?s)) ` set ?bs"
    using free_blocks_append [OF i, of F ?bs] by simp
  have "a \<notin> set ?bs" using blocks_from_bounds [of a "a + ?s" ?s m] s by auto
  then have "free_blocks (F(i := ?bs)) \<inter> insert (a, ?s) (live_blocks live) = {}"
    unfolding free using disj N' B by (auto simp: blocks_ok_def)
  moreover have "free_blocks (F(i := ?bs)) \<union> insert (a, ?s) (live_blocks live) = ?R \<union> ?N"
    unfolding free N' by auto
  ultimately show "blocks_ok mk' mp' (F(i := ?bs)) (live(a \<mapsto> l))"
    unfolding blocks_ok_def live_blocks_insert [of live a, OF none] l using un(1) [OF mk] by simp
qed

lemma free_below_mark:
  assumes "blocks_ok mk mp F live" and "b \<in> set (F j)" and "j < 9"
  shows "b + LIST_NODE_SIZE \<le> mk"
proof -
  have "(b, BLOCK_SIZES ! j) \<in> free_blocks F" using assms(2,3) by (simp add: in_free_blocks_nth)
  then have "b + BLOCK_SIZES ! j \<le> mk" using assms(1) unfolding blocks_ok_def region_ok_def by blast
  then show ?thesis using block_size_bounds [OF assms(3)] by (simp add: LIST_NODE_SIZE_def)
qed

text \<open>Carving the page at \<open>a\<close>, but for its first block, onto an empty list.\<close>

lemma carve_page:
  fixes h :: "'pa kheap"
  assumes "i < 9" and "i < length (list_heads h)" and "list_heads h ! i = None" and "a + 4096 < 2 ^ 64"
  shows "\<exists>m nx t. 4096 div BLOCK_SIZES ! i = Suc m \<and> Suc m * BLOCK_SIZES ! i = 4096 \<and>
    u64_add p a (BLOCK_SIZES ! i) = Inr (a + BLOCK_SIZES ! i) \<and>
    for_each (\<lambda>_. push_block p i (BLOCK_SIZES ! i)) [1..<Suc m] (a + BLOCK_SIZES ! i, h) =
      Inr (a + 4096, h\<lparr>node_next := nx, list_heads := (list_heads h)[i := t]\<rparr>) \<and>
    chain nx t (rev (blocks_from (a + BLOCK_SIZES ! i) (BLOCK_SIZES ! i) m)) \<and>
    (\<forall>b<a. nx b = node_next h b)"
proof -
  let ?s = "BLOCK_SIZES ! i"
  obtain m where m: "4096 div ?s = Suc m" "Suc m * ?s = 4096" using class_blocks [OF assms(1)] by blast
  have s: "0 < ?s" using block_size_bounds [OF assms(1)] by simp
  have top: "a + ?s + m * ?s = a + 4096" using m(2) by simp
  have len: "length [1..<Suc m] = m" by simp
  have "chain (node_next h) (list_heads h ! i) []" "a + ?s + length [1..<Suc m] * ?s < 2 ^ 64"
    using assms(3,4) top len by simp_all
  from push_block_loop [OF assms(2) s this(2,1), of p]
  obtain nx t where "for_each (\<lambda>_. push_block p i ?s) [1..<Suc m] (a + ?s, h) =
        Inr (a + 4096, h\<lparr>node_next := nx, list_heads := (list_heads h)[i := t]\<rparr>)"
      and "chain nx t (rev (blocks_from (a + ?s) ?s m))"
      and same: "\<forall>b. b \<notin> set (blocks_from (a + ?s) ?s m) \<longrightarrow> nx b = node_next h b"
    unfolding len top by auto
  moreover have "u64_add p a ?s = Inr (a + ?s)" using assms(4) top by (intro u64_add_ok) simp
  moreover have "\<forall>b<a. nx b = node_next h b"
    using same blocks_from_bounds [of _ "a + ?s" ?s m] by fastforce
  ultimately show ?thesis using m by blast
qed

text \<open>The invariant after a fresh page was carved onto list \<open>i\<close>, its first block given to the user.\<close>

lemma heap_inv_refill:
  assumes inv: "heap_inv pinv mark mapped F h live" and pa: "PAGE_ALLOCATOR h = Some pa" and ok: "layout_ok l"
    and i: "list_index l = Some i" and F: "F i = []"
    and P: "pinv pa'" "mark pa \<le> mark pa'" "mapped pa \<subseteq> mapped pa'"
    and a: "4096 dvd a" "0 < a" "mark pa \<le> a" "a + 4096 \<le> mark pa'" "page_run a 1 \<subseteq> mapped pa'"
    and m: "Suc m * BLOCK_SIZES ! i = 4096"
    and chain: "chain nx t (rev (blocks_from (a + BLOCK_SIZES ! i) (BLOCK_SIZES ! i) m))" and same: "\<forall>b. b + LIST_NODE_SIZE \<le> a \<longrightarrow> nx b = node_next h b"
  shows "live a = None" and
    "heap_inv pinv mark mapped (F(i := rev (blocks_from (a + BLOCK_SIZES ! i) (BLOCK_SIZES ! i) m)))
      (h\<lparr>PAGE_ALLOCATOR := Some pa', node_next := nx, list_heads := (list_heads h)[i := t]\<rparr>) (live(a \<mapsto> l))"
proof -
  have L: "lists_ok F h" and B: "blocks_ok (mark pa) (mapped pa) F live"
    and rest: "live_ok (mapped pa) (LARGE_ALLOCS h) live" "slots_ok (mark pa) (LARGE_ALLOCS h)"
    using inv pa by (auto simp: heap_inv_def)
  note i9 = list_index_less [OF i]
  let ?s = "BLOCK_SIZES ! i" and ?h2 = "h\<lparr>PAGE_ALLOCATOR := Some pa', node_next := nx, list_heads := (list_heads h)[i := t]\<rparr>"
  let ?bs = "blocks_from (a + ?s) ?s m"
  have bytes: "blk (a, Suc m * ?s) \<subseteq> page_bytes (mapped pa')"
    using a(5) page_bytes_run [of a 1] page_bytes_mono unfolding m by simp
  have above: "a + Suc m * ?s \<le> mark pa'" using a(4) unfolding m .
  note fresh = blocks_ok_fresh [OF B i9 F a(2,3) above P(3) bytes capacity_small [OF i]]
  show "live a = None" by (rule fresh(1))
  have dvd: "?s dvd a" using block_size_dvd_page [OF i9] a(1) by (rule dvd_trans)
  have "lists_ok (F(i := rev ?bs)) ?h2"
  proof (rule lists_ok_upd [OF L i9 chain])
    show "distinct (rev ?bs)" using distinct_blocks_from block_size_bounds [OF i9] by simp
    show "\<forall>b\<in>set (rev ?bs). ?s dvd b" using dvd by (auto simp: set_blocks_from)
    show "nx b = node_next h b" if "j < 9" "j \<noteq> i" "b \<in> set (F j)" for j b
      using free_below_mark [OF B that(3,1)] same a(3) by simp
  qed (use L in \<open>auto simp: lists_ok_def\<close>)
  moreover have "live_ok (mapped pa') (LARGE_ALLOCS h) (live(a \<mapsto> l))"
    using live_ok_mono [OF rest(1) P(3)] ok i dvd by (auto simp: live_ok_def)
  ultimately show "heap_inv pinv mark mapped (F(i := rev ?bs)) ?h2 (live(a \<mapsto> l))"
    using P(1) slots_ok_mono [OF rest(2) P(2)] fresh(2) by (simp add: heap_inv_def)
qed

context page_source
begin

text \<open>A page allocation that fails changes nothing the heap relies on.\<close>

lemma heap_inv_palloc:
  assumes "heap_inv pinv mark mapped F h live" and "PAGE_ALLOCATOR h = Some pa" and "pinv pa'"
    and "mark pa \<le> mark pa'" and "mapped pa \<subseteq> mapped pa'"
  shows "heap_inv pinv mark mapped F (h\<lparr>PAGE_ALLOCATOR := Some pa'\<rparr>) live"
  using assms by (auto simp: heap_inv_def lists_ok_def intro: blocks_ok_mono slots_ok_mono live_ok_mono)

lemma heap_alloc_refill:
  assumes inv: "heap_inv pinv mark mapped F h live" and ok: "layout_ok l"
    and i: "list_index l = Some i" and head: "list_heads h ! i = None"
  shows "\<exists>b h' F'. heap_alloc p palloc h l = Inr (b, h') \<and> LARGE_ALLOCS h' = LARGE_ALLOCS h \<and>
    list_lengths h' = list_lengths h \<and>
    (if b = 0 then heap_inv pinv mark mapped F h' live
     else live b = None \<and> heap_inv pinv mark mapped F' h' (live(b \<mapsto> l)))"
proof -
  obtain pa where pa: "PAGE_ALLOCATOR h = Some pa" "pinv pa" and L: "lists_ok F h"
    using inv by (auto simp: heap_inv_def)
  note i9 = list_index_less [OF i] and D = lists_okD [OF L list_index_less [OF i]]
  let ?s = "BLOCK_SIZES ! i"
  have F: "F i = []" using D(1) head by simp
  obtain r pa' where P: "palloc pa 1 {PRESENT, WRITABLE} = Inr (r, pa')" "pinv pa'" "mark pa \<le> mark pa'"
    "mapped pa \<subseteq> mapped pa'"
    and r: "case r of Inl e \<Rightarrow> True | Inr a \<Rightarrow> 4096 dvd a \<and> 0 < a \<and> mark pa \<le> a \<and> a + 1 * 4096 \<le> mark pa' \<and>
       page_run a 1 \<subseteq> mapped pa'"
    using palloc_total [OF pa(2), of 1 "{PRESENT, WRITABLE}"] by (auto simp: MAX_PAGES_def)
  note inv' = heap_inv_palloc [OF inv pa(1) P(2-4)]
  show ?thesis
  proof (cases r)
    case (Inl e)
    then have "heap_alloc p palloc h l = Inr (0, h\<lparr>PAGE_ALLOCATOR := Some pa'\<rparr>)"
      using i head D(4) pa(1) P(1) by (simp add: heap_alloc_def refill_free_list_def)
    then show ?thesis using inv' by auto
  next
    case (Inr a)
    then have a: "4096 dvd a" "0 < a" "mark pa \<le> a" "a + 4096 \<le> mark pa'" "page_run a 1 \<subseteq> mapped pa'"
      using r by auto
    let ?h = "h\<lparr>PAGE_ALLOCATOR := Some pa'\<rparr>"
    have "i < length (list_heads ?h)" "list_heads ?h ! i = None" "a + 4096 < 2 ^ 64"
      using D(4) head a(4) mark_bound [OF P(2)] by simp_all
    from carve_page [OF i9 this, of p] obtain m nx t where m: "4096 div ?s = Suc m" "Suc m * ?s = 4096"
      and add: "u64_add p a ?s = Inr (a + ?s)"
      and loop: "for_each (\<lambda>_. push_block p i ?s) [1..<Suc m] (a + ?s, ?h) =
        Inr (a + 4096, ?h\<lparr>node_next := nx, list_heads := (list_heads ?h)[i := t]\<rparr>)"
      and chain: "chain nx t (rev (blocks_from (a + ?s) ?s m))" and same: "\<forall>b<a. nx b = node_next ?h b"
      by blast
    have run: "heap_alloc p palloc h l = Inr (a, ?h\<lparr>node_next := nx, list_heads := (list_heads h)[i := t]\<rparr>)"
      using i i9 head D(4) pa(1) P(1) Inr loop m(1) add by (simp add: heap_alloc_def refill_free_list_def)
    have "\<forall>b. b + LIST_NODE_SIZE \<le> a \<longrightarrow> nx b = node_next h b" using same by (simp add: LIST_NODE_SIZE_def)
    from heap_inv_refill [OF inv pa(1) ok i F P(2-4) a m(2) chain this] show ?thesis using run a(2) by auto
  qed
qed

end

lemma slots_ok_insert:
  assumes "slots_ok mk slots" and "insert_slot a n slots = Some slots'" and "mk \<le> a" and "a < mk'"
  shows "slots_ok mk' slots'" and "Some (a, n) \<in> set slots'" and "set slots \<subseteq> insert None (set slots')"
proof -
  obtain us vs where s: "slots = us @ None # vs" "slots' = us @ Some (a, n) # vs"
    using insert_slot_Some [OF assms(2)] by blast
  have "a \<notin> set (slot_addrs slots)" using assms(1,3) by (auto simp: slots_ok_def)
  moreover have "\<forall>x\<in>set (slot_addrs slots). x < mk'"
    using assms(1,3,4) unfolding slots_ok_def by (meson le_less_trans less_imp_le less_le_trans)
  ultimately show "slots_ok mk' slots'" using assms(1,4) s by (auto simp: slots_ok_def)
  show "Some (a, n) \<in> set slots'" "set slots \<subseteq> insert None (set slots')" using s by auto
qed

text \<open>Adding a single fresh block for the user.\<close>

lemma blocks_ok_fresh_large:
  assumes B: "blocks_ok mk mp F live" and a: "0 < a" "mk \<le> a" "0 < capacity l" "a + capacity l \<le> mk'" "mp \<subseteq> mp'"
      "blk (a, capacity l) \<subseteq> page_bytes mp'"
  shows "live a = None" and "blocks_ok mk' mp' F (live(a \<mapsto> l))"
proof -
  let ?R = "free_blocks F \<union> live_blocks live"
  have R: "region_ok mk mp' ?R" using B a(5) by (auto simp: blocks_ok_def intro: region_ok_mono)
  have N: "region_ok mk' mp' {(a, capacity l)}" using a by (simp add: region_ok_def)
  have "\<forall>(b, s)\<in>{(a, capacity l)}. mk \<le> b" "mk \<le> mk'" using a(2,4) by auto
  note un = region_ok_Un [OF R N this]
  show none: "live a = None"
  proof (rule ccontr)
    assume "live a \<noteq> None"
    then obtain k where "(a, capacity k) \<in> ?R" by (auto simp: in_live_blocks)
    then have "a + capacity k \<le> mk" "0 < capacity k" using R unfolding region_ok_def by blast+
    then show False using a(2) by simp
  qed
  show "blocks_ok mk' mp' F (live(a \<mapsto> l))"
    unfolding blocks_ok_def live_blocks_insert [of live a, OF none] using un B by (auto simp: blocks_ok_def)
qed

text \<open>The invariant after a fresh run of pages was entered into the table.\<close>

lemma heap_inv_large:
  assumes inv: "heap_inv pinv mark mapped F h live" and pa: "PAGE_ALLOCATOR h = Some pa" and ok: "layout_ok l"
    and i: "list_index l = None" and P: "pinv pa'" "mark pa \<le> mark pa'" "mapped pa \<subseteq> mapped pa'"
    and a: "4096 dvd a" "0 < a" "mark pa \<le> a" "a + num_pages_of l * 4096 \<le> mark pa'" "page_run a (num_pages_of l) \<subseteq> mapped pa'"
    and slot: "insert_slot a (num_pages_of l) (LARGE_ALLOCS h) = Some slots"
  shows "live a = None" and
    "heap_inv pinv mark mapped F (h\<lparr>PAGE_ALLOCATOR := Some pa', LARGE_ALLOCS := slots\<rparr>) (live(a \<mapsto> l))"
proof -
  have L: "lists_ok F h" and B: "blocks_ok (mark pa) (mapped pa) F live"
    and rest: "live_ok (mapped pa) (LARGE_ALLOCS h) live" "slots_ok (mark pa) (LARGE_ALLOCS h)"
    using inv pa by (auto simp: heap_inv_def)
  have cap: "0 < capacity l" "a + capacity l \<le> mark pa'" "blk (a, capacity l) \<subseteq> page_bytes (mapped pa')"
    unfolding capacity_large [OF i] page_bytes_run using num_pages_bounds [OF ok] a(4,5) page_bytes_mono by auto
  note fresh = blocks_ok_fresh_large [OF B a(2,3) cap(1,2) P(3) cap(3)]
  show "live a = None" by (rule fresh(1))
  have "a < mark pa'" using cap(1,2) by simp
  note slots = slots_ok_insert [OF rest(2) slot a(3) this]
  have "live_ok (mapped pa') slots (live(a \<mapsto> l))"
    using live_ok_mono [OF rest(1) P(3) slots(3)] ok i a(1,5) slots(2) by (auto simp: live_ok_def)
  then show "heap_inv pinv mark mapped F (h\<lparr>PAGE_ALLOCATOR := Some pa', LARGE_ALLOCS := slots\<rparr>) (live(a \<mapsto> l))"
    using P(1) L fresh(2) slots(1) by (simp add: heap_inv_def lists_ok_def)
qed

context page_source
begin

lemma heap_alloc_large:
  assumes inv: "heap_inv pinv mark mapped F h live" and ok: "layout_ok l" and i: "list_index l = None"
  shows "(\<exists>b h'. heap_alloc p palloc h l = Inr (b, h') \<and> list_lengths h' = list_lengths h \<and>
      (if b = 0 then LARGE_ALLOCS h' = LARGE_ALLOCS h \<and> heap_inv pinv mark mapped F h' live
       else live b = None \<and> insert_slot b (num_pages_of l) (LARGE_ALLOCS h) = Some (LARGE_ALLOCS h') \<and>
         heap_inv pinv mark mapped F h' (live(b \<mapsto> l)))) \<or>
    None \<notin> set (LARGE_ALLOCS h) \<and> heap_alloc p palloc h l = Inl (Panic ''LARGE_ALLOCS is full!'')"
proof -
  obtain pa where pa: "PAGE_ALLOCATOR h = Some pa" "pinv pa" using inv by (auto simp: heap_inv_def)
  let ?n = "num_pages_of l"
  have "max (l_size l) (l_align l) + 4095 < 2 ^ 64" using ok by (simp add: layout_ok_def MAX_PAGES_def)
  then have add: "u64_add p (max (l_size l) (l_align l)) 4095 = Inr (max (l_size l) (l_align l) + 4095)"
    by (rule u64_add_ok)
  note n = num_pages_bounds [OF ok]
  obtain r pa' where P: "palloc pa ?n {PRESENT, WRITABLE} = Inr (r, pa')" "pinv pa'" "mark pa \<le> mark pa'"
    "mapped pa \<subseteq> mapped pa'"
    and r: "case r of Inl e \<Rightarrow> True | Inr a \<Rightarrow> 4096 dvd a \<and> 0 < a \<and> mark pa \<le> a \<and> a + ?n * 4096 \<le> mark pa' \<and>
       page_run a ?n \<subseteq> mapped pa'"
    using palloc_total [OF pa(2) conjunct1 [OF n] conjunct2 [OF n], of "{PRESENT, WRITABLE}"] by blast
  let ?h = "h\<lparr>PAGE_ALLOCATOR := Some pa'\<rparr>"
  have run: "heap_alloc p palloc h l = (case r of Inr addr \<Rightarrow>
      and_then (large_alloc_insert addr ?n ?h) (\<lambda>h''. Inr (addr, h'')) | Inl _ \<Rightarrow> Inr (0, ?h))"
    using i pa(1) P(1) add by (cases r) (simp_all add: heap_alloc_def fallback_alloc_def num_pages_of_def [symmetric] Let_def)
  show ?thesis
  proof (cases r)
    case (Inl e)
    then show ?thesis using run heap_inv_palloc [OF inv pa(1) P(2-4)] by auto
  next
    case (Inr a)
    then have a: "4096 dvd a" "0 < a" "mark pa \<le> a" "a + ?n * 4096 \<le> mark pa'" "page_run a ?n \<subseteq> mapped pa'"
      using r by auto
    show ?thesis
    proof (cases "insert_slot a ?n (LARGE_ALLOCS h)")
      case None
      then have "heap_alloc p palloc h l = Inl (Panic ''LARGE_ALLOCS is full!'')"
        using run Inr by (simp add: large_alloc_insert_def)
      moreover have "None \<notin> set (LARGE_ALLOCS h)" by (rule insert_slot_None [THEN iffD1, OF None])
      ultimately show ?thesis by blast
    next
      case (Some slots)
      then have "heap_alloc p palloc h l = Inr (a, ?h\<lparr>LARGE_ALLOCS := slots\<rparr>)" using run Inr by (simp add: large_alloc_insert_def)
      then show ?thesis using heap_inv_large [OF inv pa(1) ok i P(2-4) a Some] a(2) Some by auto
    qed
  qed
qed

end

section \<open>Deallocation and writes keep the invariant\<close>

lemma blocks_ok_release:
  assumes B: "blocks_ok mk mp F live" and l: "live a = Some l"
  shows "blocks_ok mk mp F (live(a := None))"
  unfolding blocks_ok_def live_blocks_remove [of live a, OF l]
  using B by (auto simp: blocks_ok_def intro: region_ok_subset)

lemma blocks_ok_push:
  assumes B: "blocks_ok mk mp F live" and l: "live a = Some l" and i: "i < 9" "capacity l = BLOCK_SIZES ! i"
  shows "blocks_ok mk mp (F(i := a # F i)) (live(a := None))"
proof -
  have live: "(a, BLOCK_SIZES ! i) \<in> live_blocks live" using l i(2) by (auto simp: in_live_blocks)
  have "free_blocks (F(i := a # F i)) = insert (a, BLOCK_SIZES ! i) (free_blocks F)"
    using free_blocks_append [OF i(1), of F "[a]"] by simp
  then show ?thesis
    unfolding blocks_ok_def live_blocks_remove [of live a, OF l] i(2) using B live
    by (auto simp: blocks_ok_def intro: region_ok_subset)
qed

lemma live_okD:
  assumes "live_ok mp slots live" and "live a = Some l"
  shows "layout_ok l" and "list_index l = Some i \<Longrightarrow> BLOCK_SIZES ! i dvd a"
    and "list_index l = None \<Longrightarrow>
      4096 dvd a \<and> Some (a, num_pages_of l) \<in> set slots \<and> page_run a (num_pages_of l) \<subseteq> mp"
  using assms(1) [unfolded live_ok_def, rule_format, OF assms(2)] by auto

lemma live_ok_release: "live_ok mp slots live \<Longrightarrow> live_ok mp slots (live(a := None))"
  by (auto simp: live_ok_def)

text \<open>Unmapping the pages of a large block leaves the other blocks mapped.\<close>

lemma page_bytes_minus:
  assumes "blk x \<subseteq> page_bytes mp" and "blk x \<inter> page_bytes P = {}"
  shows "blk x \<subseteq> page_bytes (mp - P)"
  using assms unfolding page_bytes_def by blast

lemma region_ok_mapped: "region_ok mk mp R \<Longrightarrow> x \<in> R \<Longrightarrow> blk x \<subseteq> page_bytes mp"
  unfolding region_ok_def by (cases x) blast

lemma region_ok_remap:
  "region_ok mk mp R \<Longrightarrow> (\<And>x. x \<in> R \<Longrightarrow> blk x \<subseteq> page_bytes mp') \<Longrightarrow> region_ok mk mp' R"
  by (simp add: region_ok_def split_beta)

lemma blocks_ok_unmap:
  assumes B: "blocks_ok mk mp F live" and l: "live a = Some l" "list_index l = None"
  shows "blocks_ok mk (mp - page_run a (num_pages_of l)) F (live(a := None))"
proof -
  let ?R = "free_blocks F \<union> live_blocks live" and ?P = "page_run a (num_pages_of l)"
  let ?S = "free_blocks F \<union> live_blocks (live(a := None))"
  have a: "(a, capacity l) \<in> ?R" using l(1) by (auto simp: in_live_blocks)
  have free: "(a, capacity l) \<notin> free_blocks F" using B l(1) by (auto simp: blocks_ok_def in_live_blocks)
  have sub: "?S = ?R - {(a, capacity l)}"
    unfolding live_blocks_remove [of live a, OF l(1)] using free by auto
  have R: "region_ok mk mp ?R" using B by (simp add: blocks_ok_def)
  have bytes: "blk (a, capacity l) = page_bytes ?P" unfolding capacity_large [OF l(2)] by (rule page_bytes_run)
  have "blk x \<subseteq> page_bytes (mp - ?P)" if x: "x \<in> ?S" for x
  proof (rule page_bytes_minus)
    have x: "x \<in> ?R" "x \<noteq> (a, capacity l)" using x unfolding sub by auto
    show "blk x \<subseteq> page_bytes mp" by (rule region_ok_mapped [OF R x(1)])
    show "blk x \<inter> page_bytes ?P = {}" using region_ok_disjoint [OF R x(1) a x(2)] unfolding bytes .
  qed
  moreover have "region_ok mk mp ?S" by (rule region_ok_subset [OF R]) (simp add: sub)
  ultimately have "region_ok mk (mp - ?P) ?S" by (blast intro: region_ok_remap)
  then show ?thesis using blocks_ok_release [OF B l(1)] by (simp add: blocks_ok_def)
qed

lemma page_run_disjoint: "blk (a, n * 4096) \<inter> blk (b, m * 4096) = {} \<Longrightarrow> page_run a n \<inter> page_run b m = {}"
proof (rule ccontr)
  assume d: "blk (a, n * 4096) \<inter> blk (b, m * 4096) = {}" and "page_run a n \<inter> page_run b m \<noteq> {}"
  then obtain x where "x \<in> page_run a n" "x \<in> page_run b m" by blast
  then have "x \<in> blk (a, n * 4096)" "x \<in> blk (b, m * 4096)"
    using page_run_bounds [of x a n] page_run_bounds [of x b m] by auto
  then show False using d by blast
qed

lemma live_ok_unmap:
  assumes B: "blocks_ok mk mp F live" and L: "live_ok mp slots live" and l: "live a = Some l" "list_index l = None"
  shows "live_ok (mp - page_run a (num_pages_of l)) slots (live(a := None))"
proof -
  have disj: "page_run b (num_pages_of k) \<inter> page_run a (num_pages_of l) = {}"
    if "live b = Some k" "b \<noteq> a" "list_index k = None" for b k
  proof (rule page_run_disjoint)
    have "(b, capacity k) \<in> live_blocks live" "(a, capacity l) \<in> live_blocks live"
      using that l by (auto simp: in_live_blocks)
    then show "blk (b, num_pages_of k * 4096) \<inter> blk (a, num_pages_of l * 4096) = {}"
      using B that(2) region_ok_disjoint [of mk mp _ "(b, capacity k)" "(a, capacity l)"]
      unfolding blocks_ok_def capacity_large [OF that(3)] capacity_large [OF l(2)] by blast
  qed
  show ?thesis unfolding live_ok_def
  proof (intro allI impI)
    fix b k assume "(live(a := None)) b = Some k"
    then have b: "live b = Some k" "b \<noteq> a" by (auto split: if_splits)
    then show "layout_ok k \<and> (case list_index k of Some i \<Rightarrow> BLOCK_SIZES ! i dvd b
      | None \<Rightarrow> 4096 dvd b \<and> Some (b, num_pages_of k) \<in> set slots \<and>
          page_run b (num_pages_of k) \<subseteq> mp - page_run a (num_pages_of l))"
      using live_okD [OF L b(1)] disj [OF b] by (cases "list_index k") auto
  qed
qed

lemma heap_dealloc_small:
  assumes inv: "heap_inv pinv mark mapped F h live" and l: "live a = Some l" and i: "list_index l = Some i"
  shows "\<exists>h' F'. heap_dealloc p pdealloc h a l = Inr h' \<and> heap_inv pinv mark mapped F' h' (live(a := None)) \<and>
    (if list_lengths h ! i < MAX_LIST_LENGTH
     then list_heads h' = (list_heads h)[i := Some a] \<and> F' = F(i := a # F i) \<and>
       list_lengths h' = (list_lengths h)[i := list_lengths h ! i + 1]
     else h' = h \<and> F' = F)"
proof -
  obtain pa where pa: "PAGE_ALLOCATOR h = Some pa" "pinv pa" and L: "lists_ok F h"
    and B: "blocks_ok (mark pa) (mapped pa) F live"
    and rest: "live_ok (mapped pa) (LARGE_ALLOCS h) live" "slots_ok (mark pa) (LARGE_ALLOCS h)"
    using inv by (rule heap_invE)
  note i9 = list_index_less [OF i] and D = lists_okD [OF L list_index_less [OF i]]
  show ?thesis
  proof (cases "list_lengths h ! i < MAX_LIST_LENGTH")
    case True
    let ?n = "list_lengths h ! i + 1"
    let ?h = "h\<lparr>node_next := (node_next h)(a := list_heads h ! i), list_heads := (list_heads h)[i := Some a],
        list_lengths := (list_lengths h)[i := ?n]\<rparr>"
    have "u64_add p (list_lengths h ! i) 1 = Inr ?n" using True by (intro u64_add_ok) (simp add: MAX_LIST_LENGTH_def)
    then have run: "heap_dealloc p pdealloc h a l = Inr ?h"
      using i D(4,5) True block_size_bounds [OF i9]
      by (simp add: heap_dealloc_def LIST_NODE_SIZE_def LIST_NODE_ALIGN_def)
    have "BLOCK_SIZES ! i dvd a" by (rule live_okD(2) [OF rest(1) l i])
    then have "lists_ok (F(i := a # F i)) ?h"
      using D live_not_free [OF B l] L True
      by (intro lists_ok_upd [OF L i9]) (auto simp: lists_ok_def i9 dest!: set_update_subset_insert [THEN subsetD])
    then have "heap_inv pinv mark mapped (F(i := a # F i)) ?h (live(a := None))"
      using pa rest blocks_ok_push [OF B l i9 capacity_small [OF i]] live_ok_release by (auto simp: heap_inv_def)
    then show ?thesis using run True by auto
  next
    case False
    then have run: "heap_dealloc p pdealloc h a l = Inr h" using i D(5) by (simp add: heap_dealloc_def)
    have "heap_inv pinv mark mapped F h (live(a := None))"
      using pa L rest blocks_ok_release [OF B l] live_ok_release by (auto simp: heap_inv_def)
    then show ?thesis using run False by auto
  qed
qed

context page_source
begin

lemma heap_dealloc_large:
  assumes inv: "heap_inv pinv mark mapped F h live" and l: "live a = Some l" and i: "list_index l = None"
  shows "\<exists>h'. heap_dealloc p pdealloc h a l = Inr h' \<and> heap_inv pinv mark mapped F h' (live(a := None)) \<and>
    (\<exists>pa'. h' = h\<lparr>PAGE_ALLOCATOR := Some pa'\<rparr>)"
proof -
  obtain pa where pa: "PAGE_ALLOCATOR h = Some pa" "pinv pa" and L: "lists_ok F h"
    and B: "blocks_ok (mark pa) (mapped pa) F live"
    and rest: "live_ok (mapped pa) (LARGE_ALLOCS h) live" "slots_ok (mark pa) (LARGE_ALLOCS h)"
    using inv by (rule heap_invE)
  let ?n = "num_pages_of l"
  have a: "layout_ok l" "4096 dvd a" "Some (a, ?n) \<in> set (LARGE_ALLOCS h)" "page_run a ?n \<subseteq> mapped pa"
    using live_okD(1,3) [OF rest(1) l] i by auto
  obtain pa' where P: "pdealloc pa a ?n = Inr (Inr (), pa')" "pinv pa'" "mark pa' = mark pa"
    "mapped pa' = mapped pa - page_run a ?n"
    using pdealloc_total [OF pa(2) a(2) conjunct1 [OF num_pages_bounds [OF a(1)]] a(4)] by blast
  let ?h = "h\<lparr>PAGE_ALLOCATOR := Some pa'\<rparr>"
  have "distinct (slot_addrs (LARGE_ALLOCS h))" using rest(2) by (simp add: slots_ok_def)
  then have run: "heap_dealloc p pdealloc h a l = Inr ?h"
    using i dealloc_slots_one [where pd = pdealloc, OF a(3) _ pa(1) P(1)] by (simp add: heap_dealloc_def)
  have "heap_inv pinv mark mapped F ?h (live(a := None))"
    using P(2-4) L rest(2) blocks_ok_unmap [OF B l i] live_ok_unmap [OF B rest(1) l i]
    by (simp add: heap_inv_def lists_ok_def)
  then show ?thesis using run by blast
qed

end

section \<open>The heap and its users as a transition system\<close>

text \<open>
  The users hold the map \<open>live\<close> of the blocks in use. They allocate, they give a block back with
  the layout they asked for, and they write to their blocks: a write may change the \<open>next\<close> field
  the allocator would read at an address only if the 8 bytes there overlap a block in use.
\<close>

inductive heap_step :: "profile \<Rightarrow> 'pa palloc \<Rightarrow> 'pa pdealloc \<Rightarrow>
    'pa kheap \<times> (nat \<rightharpoonup> layout) \<Rightarrow> 'pa kheap \<times> (nat \<rightharpoonup> layout) \<Rightarrow> bool"
  for p palloc pdealloc where
  step_alloc: "layout_ok l \<Longrightarrow> heap_alloc p palloc h l = Inr (b, h') \<Longrightarrow>
    heap_step p palloc pdealloc (h, live) (h', if b = 0 then live else live(b \<mapsto> l))"
| step_dealloc: "live a = Some l \<Longrightarrow> heap_dealloc p pdealloc h a l = Inr h' \<Longrightarrow>
    heap_step p palloc pdealloc (h, live) (h', live(a := None))"
| step_write: "(\<And>x. nx x \<noteq> node_next h x \<Longrightarrow> \<exists>a l. live a = Some l \<and> blk (x, LIST_NODE_SIZE) \<inter> blk (a, l_size l) \<noteq> {}) \<Longrightarrow>
    heap_step p palloc pdealloc (h, live) (h\<lparr>node_next := nx\<rparr>, live)"

inductive_cases heap_stepE: "heap_step p palloc pdealloc (h, live) (h', live')"

lemma live_region: "blocks_ok mk mp F live \<Longrightarrow> region_ok mk mp (live_blocks live)"
  by (auto simp: blocks_ok_def intro: region_ok_subset)

lemma write_keeps_lists:
  assumes B: "blocks_ok mk mp F live" and L: "live_ok mp slots live" and b: "b \<in> set (F i)" "i < 9"
    and l: "live a = Some l"
  shows "blk (b, LIST_NODE_SIZE) \<inter> blk (a, l_size l) = {}"
proof -
  let ?R = "free_blocks F \<union> live_blocks live"
  have f: "(b, BLOCK_SIZES ! i) \<in> free_blocks F" using b by (simp add: in_free_blocks_nth)
  have v: "(a, capacity l) \<in> live_blocks live" using l by (auto simp: in_live_blocks)
  have "(b, BLOCK_SIZES ! i) \<noteq> (a, capacity l)" using B f v by (auto simp: blocks_ok_def)
  then have "blk (b, BLOCK_SIZES ! i) \<inter> blk (a, capacity l) = {}"
    using B f v region_ok_disjoint [of mk mp ?R] by (auto simp: blocks_ok_def)
  moreover have "blk (b, LIST_NODE_SIZE) \<subseteq> blk (b, BLOCK_SIZES ! i)"
    using block_size_bounds [OF b(2)] by (intro blk_mono) (simp_all add: LIST_NODE_SIZE_def)
  moreover have "blk (a, l_size l) \<subseteq> blk (a, capacity l)"
    using capacity_ge [OF live_okD(1) [OF L l]] by (intro blk_mono) simp_all
  ultimately show ?thesis by blast
qed

text \<open>Only the nodes of the free blocks matter.\<close>

lemma heap_inv_renode:
  assumes "heap_inv pinv mark mapped F h live" and "\<And>i b. i < 9 \<Longrightarrow> b \<in> set (F i) \<Longrightarrow> nx b = node_next h b"
  shows "heap_inv pinv mark mapped F (h\<lparr>node_next := nx\<rparr>) live"
proof -
  have L: "lists_ok F h" using assms(1) by (auto simp: heap_inv_def)
  have "chain nx (list_heads h ! i) (F i)" if "i < 9" for i
    using lists_okD(1) [OF L that] chain_cong [of "F i" nx "node_next h"] assms(2) that by blast
  then have "lists_ok F (h\<lparr>node_next := nx\<rparr>)" using L by (auto simp: lists_ok_def)
  then show ?thesis using assms(1) by (auto simp: heap_inv_def)
qed

context page_source
begin

lemma heap_alloc_total:
  assumes inv: "heap_inv pinv mark mapped F h live" and ok: "layout_ok l"
  shows "(\<exists>b h' F'. heap_alloc p palloc h l = Inr (b, h') \<and>
      (if b = 0 then heap_inv pinv mark mapped F' h' live
       else live b = None \<and> heap_inv pinv mark mapped F' h' (live(b \<mapsto> l)))) \<or>
    list_index l = None \<and> None \<notin> set (LARGE_ALLOCS h) \<and>
      heap_alloc p palloc h l = Inl (Panic ''LARGE_ALLOCS is full!'')"
proof (cases "list_index l")
  case None
  from heap_alloc_large [OF inv ok None, of p] None show ?thesis by (metis (full_types))
next
  case (Some i)
  show ?thesis
  proof (cases "list_heads h ! i")
    case None
    from heap_alloc_refill [OF inv ok Some None, of p] show ?thesis by metis
  next
    case (Some b)
    with heap_alloc_pop [OF inv ok \<open>list_index l = Some i\<close> Some, of p palloc] show ?thesis by (metis neq0_conv)
  qed
qed

lemma heap_dealloc_total:
  assumes inv: "heap_inv pinv mark mapped F h live" and l: "live a = Some l"
  shows "\<exists>h' F'. heap_dealloc p pdealloc h a l = Inr h' \<and> heap_inv pinv mark mapped F' h' (live(a := None))"
proof (cases "list_index l")
  case None
  from heap_dealloc_large [OF inv l None, of p] show ?thesis by blast
next
  case (Some i)
  from heap_dealloc_small [OF inv l Some, of p pdealloc] show ?thesis by blast
qed

lemma heap_step_inv:
  assumes "heap_step p palloc pdealloc s s'" and "\<exists>F. heap_inv pinv mark mapped F (fst s) (snd s)"
  shows "\<exists>F. heap_inv pinv mark mapped F (fst s') (snd s')"
  using assms
proof (induction rule: heap_step.induct)
  case (step_alloc l h b h' live)
  then obtain F where "heap_inv pinv mark mapped F h live" by auto
  from heap_alloc_total [OF this step_alloc(1), of p] step_alloc(2) show ?case by (auto split: if_splits)
next
  case (step_dealloc live a l h h')
  then obtain F where "heap_inv pinv mark mapped F h live" by auto
  from heap_dealloc_total [OF this step_dealloc(1), of p] step_dealloc(2) show ?case unfolding fst_conv snd_conv by (metis sum.inject(2))
next
  case (step_write nx h live)
  then obtain F where inv: "heap_inv pinv mark mapped F h live" by auto
  then obtain pa where B: "blocks_ok (mark pa) (mapped pa) F live" "live_ok (mapped pa) (LARGE_ALLOCS h) live"
    by (rule heap_invE)
  have "nx b = node_next h b" if "b \<in> set (F i)" "i < 9" for b i
    using step_write(1) [of b] write_keeps_lists [OF B that] by blast
  then have "heap_inv pinv mark mapped F (h\<lparr>node_next := nx\<rparr>) live" by (intro heap_inv_renode [OF inv]) auto
  then show ?case by auto
qed

lemma heap_steps_inv:
  assumes "(heap_step p palloc pdealloc)\<^sup>*\<^sup>* s s'" and "\<exists>F. heap_inv pinv mark mapped F (fst s) (snd s)"
  shows "\<exists>F. heap_inv pinv mark mapped F (fst s') (snd s')"
  using assms by (induction rule: rtranclp_induct) (auto dest: heap_step_inv)

end

section \<open>The initial heap\<close>

text \<open>The state before \<open>init\<close>: the static initialisers, over any content of memory.\<close>

definition heap_boot :: "(nat \<Rightarrow> nat option) \<Rightarrow> 'pa option \<Rightarrow> 'pa kheap" where
  "heap_boot nx g = \<lparr>list_heads = list_heads heap_new, list_lengths = list_lengths heap_new, node_next = nx,
     LARGE_ALLOCS = LARGE_ALLOCS_init, PAGE_ALLOCATOR = g\<rparr>"

lemma heap_boot_simps [simp]:
  "list_heads (heap_boot nx g) = replicate 9 None" "list_lengths (heap_boot nx g) = replicate 9 0"
  "node_next (heap_boot nx g) = nx" "LARGE_ALLOCS (heap_boot nx g) = replicate 512 None"
  "PAGE_ALLOCATOR (heap_boot nx g) = g"
  by (simp_all add: heap_boot_def heap_new_def LARGE_ALLOCS_init_def)

lemma slot_addrs_replicate [simp]: "slot_addrs (replicate n None) = []"
  by (simp add: slot_addrs_def)

lemma heap_boot_inv:
  assumes "pinv pa"
  shows "heap_inv pinv mark mapped (\<lambda>_. []) (heap_boot nx (Some pa)) (\<lambda>_. None)"
  using assms by (simp add: heap_inv_def lists_ok_def blocks_ok_def live_ok_def slots_ok_def free_blocks_def
      live_blocks_def region_ok_def)

lemma in_blocks_dvd: "s dvd a \<Longrightarrow> b \<in> set (blocks_from a s n) \<Longrightarrow> s dvd b"
  by (auto simp: set_blocks_from)

text \<open>The heap whose first page is carved into blocks of eight bytes.\<close>

lemma heap_inv_carved:
  assumes "pinv pa" and a: "4096 dvd a" "0 < a" "a + 4096 \<le> mark pa" "page_run a 1 \<subseteq> mapped pa"
    and chain: "chain nx t (rev (blocks_from a 8 512))"
  shows "heap_inv pinv mark mapped ((\<lambda>_. [])(0 := rev (blocks_from a 8 512)))
    ((heap_boot nx (Some pa))\<lparr>list_heads := (replicate 9 None)[0 := t]\<rparr>) (\<lambda>_. None)"
proof -
  let ?F = "(\<lambda>_. [])(0 := rev (blocks_from a 8 512))" and ?h = "(heap_boot nx (Some pa))\<lparr>list_heads := (replicate 9 None)[0 := t]\<rparr>"
  have s0: "BLOCK_SIZES ! 0 = 8" by (simp add: BLOCK_SIZES_def)
  have "8 dvd a" using a(1) by (auto elim!: dvdE)
  then have "lists_ok ?F ?h"
    using chain distinct_blocks_from [of 8 a 512] s0
    by (auto simp: lists_ok_def nth_list_update nth_Cons in_blocks_dvd split: nat.splits)
  moreover have "blocks_ok (mark pa) (mapped pa) ?F (\<lambda>_. None)"
  proof -
    have "blk (a, 512 * 8) \<subseteq> page_bytes (mapped pa)" using page_bytes_run [of a 1] page_bytes_mono [OF a(4)] by simp
    then have "region_ok (mark pa) (mapped pa) ((\<lambda>b. (b, 8)) ` set (blocks_from a 8 512))"
      using a(2,3) by (intro blocks_region_ok) simp_all
    moreover have "free_blocks ?F = (\<lambda>b. (b, 8)) ` set (blocks_from a 8 512)"
      using free_blocks_append [of 0 "\<lambda>_. []" "rev (blocks_from a 8 512)"] s0 by (simp add: free_blocks_def)
    ultimately show ?thesis by (simp add: blocks_ok_def live_blocks_def)
  qed
  ultimately show ?thesis using assms(1) by (simp add: heap_inv_def live_ok_def slots_ok_def)
qed

context page_source
begin

lemma heap_init_total:
  assumes "pinv pa"
  shows "\<exists>h pa' F. heap_init p palloc (heap_boot nx g) pa = Inr (h, pa') \<and> pinv pa' \<and>
    heap_inv pinv mark mapped F (h\<lparr>PAGE_ALLOCATOR := Some pa'\<rparr>) (\<lambda>_. None)"
proof -
  let ?boot = "heap_boot nx g"
  obtain r pa' where P: "palloc pa 1 {PRESENT, WRITABLE} = Inr (r, pa')" "pinv pa'"
    and r: "case r of Inl e \<Rightarrow> True | Inr a \<Rightarrow> 4096 dvd a \<and> 0 < a \<and> mark pa \<le> a \<and> a + 1 * 4096 \<le> mark pa' \<and>
       page_run a 1 \<subseteq> mapped pa'"
    using palloc_total [OF assms, of 1 "{PRESENT, WRITABLE}"] by (auto simp: MAX_PAGES_def)
  have boot: "heap_boot nx g\<lparr>PAGE_ALLOCATOR := Some pa'\<rparr> = heap_boot nx (Some pa')" by (simp add: heap_boot_def)
  show ?thesis
  proof (cases r)
    case (Inl e)
    then have "heap_init p palloc ?boot pa = Inr (?boot, pa')" using P(1) by (simp add: heap_init_def)
    then show ?thesis using P(2) heap_boot_inv [where pinv = pinv, OF P(2), of mark mapped nx] unfolding boot [symmetric] by blast
  next
    case (Inr a)
    then have a: "4096 dvd a" "0 < a" "a + 4096 \<le> mark pa'" "page_run a 1 \<subseteq> mapped pa'" using r by auto
    have lt: "a + length [0..<512] * 8 < 2 ^ 64" using a(3) mark_bound [OF P(2)] by simp
    have "\<exists>nx' t. for_each (\<lambda>_. push_block p 0 8) [0..<512] (a, ?boot) =
        Inr (a + 4096, ?boot\<lparr>node_next := nx', list_heads := (list_heads ?boot)[0 := t]\<rparr>) \<and>
      chain nx' t (rev (blocks_from a 8 512))"
      using push_block_loop [of 0 ?boot 8 a "[0..<512]" "[]" p] lt by auto
    then obtain nx' t where loop: "for_each (\<lambda>_. push_block p 0 8) [0..<512] (a, ?boot) =
        Inr (a + 4096, ?boot\<lparr>node_next := nx', list_heads := (list_heads ?boot)[0 := t]\<rparr>)"
      and chain: "chain nx' t (rev (blocks_from a 8 512))" by blast
    let ?h = "?boot\<lparr>node_next := nx', list_heads := (list_heads ?boot)[0 := t]\<rparr>"
    have run: "heap_init p palloc ?boot pa = Inr (?h, pa')" using P(1) Inr loop by (simp add: heap_init_def)
    have "?h\<lparr>PAGE_ALLOCATOR := Some pa'\<rparr> = (heap_boot nx' (Some pa'))\<lparr>list_heads := (replicate 9 None)[0 := t]\<rparr>"
      by (simp add: heap_boot_def heap_new_def)
    then show ?thesis using run P(2) heap_inv_carved [where pinv = pinv and mark = mark and mapped = mapped, OF P(2) a chain] by metis
  qed
qed

end

section \<open>What the users of the heap see\<close>

text \<open>
  The blocks in use are non-null, aligned as requested (up to the size of a page), in mapped memory
  and pairwise disjoint.
\<close>

definition heap_safe :: "nat set \<Rightarrow> (nat \<rightharpoonup> layout) \<Rightarrow> bool" where
  "heap_safe mp live \<longleftrightarrow> (\<forall>a l. live a = Some l \<longrightarrow> 0 < a \<and> (l_align l \<le> 4096 \<longrightarrow> l_align l dvd a) \<and>
     blk (a, l_size l) \<subseteq> page_bytes mp \<and>
     (\<forall>b k. live b = Some k \<and> b \<noteq> a \<longrightarrow> blk (a, l_size l) \<inter> blk (b, l_size k) = {}))"

lemma pow2_dvd_class: "i < 9 \<Longrightarrow> l = 2 ^ k \<Longrightarrow> l \<le> BLOCK_SIZES ! i \<Longrightarrow> l dvd BLOCK_SIZES ! i"
  by (auto simp: BLOCK_SIZES_nth intro!: le_imp_power_dvd)

lemma pow2_dvd_page: "l = 2 ^ k \<Longrightarrow> l \<le> 4096 \<Longrightarrow> l dvd (4096 :: nat)"
proof -
  assume l: "l = 2 ^ k" "l \<le> 4096"
  then have "(2::nat) ^ k \<le> 2 ^ 12" by simp
  then have "k \<le> 12" by (rule power_le_imp_le_exp [rotated]) simp
  then have "(2::nat) ^ k dvd 2 ^ 12" by (rule le_imp_power_dvd)
  then show ?thesis using l(1) by simp
qed

lemma heap_inv_safe:
  assumes "heap_inv pinv mark mapped F h live"
  shows "\<exists>pa. PAGE_ALLOCATOR h = Some pa \<and> heap_safe (mapped pa) live"
proof -
  obtain pa where pa: "PAGE_ALLOCATOR h = Some pa" and B: "blocks_ok (mark pa) (mapped pa) F live"
    and L: "live_ok (mapped pa) (LARGE_ALLOCS h) live"
    using assms by (rule heap_invE)
  note R = live_region [OF B]
  have block: "(a, capacity l) \<in> live_blocks live" "blk (a, l_size l) \<subseteq> blk (a, capacity l)" if "live a = Some l" for a l
    using that capacity_ge [OF live_okD(1) [OF L that]] by (auto simp: in_live_blocks intro: blk_mono)
  have "heap_safe (mapped pa) live" unfolding heap_safe_def
  proof (intro allI impI)
    fix a l assume l: "live a = Some l"
    have pos: "0 < a" using R block(1) [OF l] unfolding region_ok_def by blast
    have mapped: "blk (a, l_size l) \<subseteq> page_bytes (mapped pa)"
      using region_ok_mapped [OF R block(1) [OF l]] block(2) [OF l] by (rule order_trans [rotated])
    have align: "l_align l dvd a" if small: "l_align l \<le> 4096"
    proof -
      obtain k where k: "l_align l = 2 ^ k" using live_okD(1) [OF L l] by (auto simp: layout_ok_def)
      show ?thesis
      proof (cases "list_index l")
        case None
        then show ?thesis using pow2_dvd_page [OF k small] live_okD(3) [OF L l] by (blast intro: dvd_trans)
      next
        case (Some i)
        have "l_align l dvd BLOCK_SIZES ! i"
          using Some by (intro pow2_dvd_class [OF _ k]) (auto simp: list_index_Some_iff)
        then show ?thesis using live_okD(2) [OF L l Some] by (rule dvd_trans)
      qed
    qed
    have "blk (a, l_size l) \<inter> blk (b, l_size k) = {}" if "live b = Some k" "b \<noteq> a" for b k
      using region_ok_disjoint [OF R block(1) [OF l] block(1) [OF that(1)]] block(2) [OF l] block(2) [OF that(1)] that(2)
      by blast
    with pos mapped align
    show "0 < a \<and> (l_align l \<le> 4096 \<longrightarrow> l_align l dvd a) \<and> blk (a, l_size l) \<subseteq> page_bytes (mapped pa) \<and>
      (\<forall>b k. live b = Some k \<and> b \<noteq> a \<longrightarrow> blk (a, l_size l) \<inter> blk (b, l_size k) = {})" by blast
  qed
  with pa show ?thesis by blast
qed

text \<open>A heap over the example page allocator, for the witnesses.\<close>

abbreviation example_heap :: "(page_map, 8 word list bitmap_frame_allocator) page_allocator kheap" where
  "example_heap \<equiv> heap_boot (\<lambda>_. None) (Some example_pages)"

abbreviation kernel_pinv :: "(page_map, 8 word list bitmap_frame_allocator) page_allocator \<Rightarrow> bool" where
  "kernel_pinv \<equiv> pa_inv UNIV (free_frames lsb0) (bfa_inv lsb0) managed_frames id"

lemma example_heap_inv: "heap_inv kernel_pinv current_virt (heap_pages id) (\<lambda>_. []) example_heap (\<lambda>_. None)"
  by (rule heap_boot_inv) (rule example_pages_inv)

lemma kernel_page_source:
  "page_source (page_alloc p x86_std (kernel_traits p)) (page_dealloc p x86_std (kernel_traits p))
     kernel_pinv current_virt (heap_pages id)"
  by (rule kernel_paging.pages.page_source_axioms)

text \<open>
  C3. \<open>alloc\<close> of the global allocator, on every branch: for every layout of up to 16000 pages it
  returns, and keeps the invariant of the heap. The pointer is null, or it is a new block that is
  aligned as requested (up to a page) and overlaps no block in use. The only panic is that of the table of
  large allocations, when its 512 slots are full and the request is larger than 2048 bytes.
\<close>

theorem heap_alloc_fresh_block:
  assumes P: "page_source palloc pdealloc pinv mark mapped"
    and inv: "heap_inv pinv mark mapped F h live" and ok: "layout_ok l"
  shows "(\<exists>b h' F'. heap_alloc p palloc h l = Inr (b, h') \<and>
      (if b = 0 then heap_inv pinv mark mapped F' h' live
       else heap_inv pinv mark mapped F' h' (live(b \<mapsto> l)) \<and> live b = None \<and>
         (l_align l \<le> 4096 \<longrightarrow> l_align l dvd b) \<and>
         (\<forall>c k. live c = Some k \<longrightarrow> blk (b, l_size l) \<inter> blk (c, l_size k) = {}))) \<or>
    2048 < max (l_size l) (l_align l) \<and> None \<notin> set (LARGE_ALLOCS h) \<and>
      heap_alloc p palloc h l = Inl (Panic ''LARGE_ALLOCS is full!'')"
proof -
  have fresh: "(l_align l \<le> 4096 \<longrightarrow> l_align l dvd b) \<and>
      (\<forall>c k. live c = Some k \<longrightarrow> blk (b, l_size l) \<inter> blk (c, l_size k) = {})"
    if none: "live b = None" and inv': "heap_inv pinv mark mapped F' h' (live(b \<mapsto> l))" for b h' F'
  proof -
    obtain mp where "heap_safe mp (live(b \<mapsto> l))" using heap_inv_safe [OF inv'] by blast
    then show ?thesis using none unfolding heap_safe_def
      by (metis fun_upd_other fun_upd_same option.distinct(1))
  qed
  from page_source.heap_alloc_total [OF P inv ok, of p] show ?thesis
    unfolding list_index_None_iff using fresh by (metis (full_types))
qed

theorem heap_alloc_fresh_block_witness:
  "\<exists>b h' F'. heap_alloc Debug (page_alloc Debug x86_std (kernel_traits Debug)) example_heap \<lparr>l_size = 24, l_align = 8\<rparr> = Inr (b, h') \<and>
      (if b = 0 then heap_inv kernel_pinv current_virt (heap_pages id) F' h' (\<lambda>_. None)
       else heap_inv kernel_pinv current_virt (heap_pages id) F' h' ((\<lambda>_. None)(b \<mapsto> \<lparr>l_size = 24, l_align = 8\<rparr>)) \<and> 8 dvd b)"
proof -
  have "layout_ok \<lparr>l_size = 24, l_align = 8\<rparr>"
    by (auto simp: layout_ok_def MAX_PAGES_def intro: exI [of _ 3])
  from heap_alloc_fresh_block [OF kernel_page_source example_heap_inv this, of Debug] show ?thesis by (force split: if_splits)
qed

lemma example_pages_one:
  "\<exists>pa'. page_alloc p x86_std (kernel_traits p) example_pages 1 fl = Inr (Inr KERNEL_HEAP_START, pa')"
  by (simp add: example_pages_def page_exec upt_conv_Cons heap_bounds canonical_def align_down_def bit_simps)

lemma example_heap_alloc:
  "\<exists>h'. heap_alloc p (page_alloc p x86_std (kernel_traits p)) example_heap \<lparr>l_size = 2048, l_align = 8\<rparr> = Inr (KERNEL_HEAP_START, h') \<and>
     list_lengths h' = replicate 9 0"
proof -
  obtain pa' where pa': "page_alloc p x86_std (kernel_traits p) example_pages 1 {PRESENT, WRITABLE} = Inr (Inr KERNEL_HEAP_START, pa')"
    using example_pages_one by blast
  have "u64_add p KERNEL_HEAP_START 2048 = Inr (KERNEL_HEAP_START + 2048)"
    "u64_add p (KERNEL_HEAP_START + 2048) 2048 = Inr (KERNEL_HEAP_START + 4096)"
    by (simp_all add: u64_add_ok heap_bounds)
  then show ?thesis using pa'
    by (simp add: heap_alloc_def list_index_def BLOCK_SIZES_def refill_free_list_def push_block_def upt_conv_Cons)
qed

lemma example_heap_live:
  "\<exists>h' F'. heap_inv kernel_pinv current_virt (heap_pages id) F' h'
     ((\<lambda>_. None)(KERNEL_HEAP_START \<mapsto> \<lparr>l_size = 2048, l_align = 8\<rparr>)) \<and> list_lengths h' = replicate 9 0"
proof -
  obtain h' where h': "heap_alloc Debug (page_alloc Debug x86_std (kernel_traits Debug)) example_heap
      \<lparr>l_size = 2048, l_align = 8\<rparr> = Inr (KERNEL_HEAP_START, h')" "list_lengths h' = replicate 9 0"
    using example_heap_alloc by blast
  have "layout_ok \<lparr>l_size = 2048, l_align = 8\<rparr>" by (auto simp: layout_ok_def MAX_PAGES_def intro: exI [of _ 3])
  moreover have "KERNEL_HEAP_START \<noteq> 0" by (simp add: KERNEL_HEAP_START_def)
  ultimately show ?thesis
    using page_source.heap_alloc_total [OF kernel_page_source [of Debug] example_heap_inv, of "\<lparr>l_size = 2048, l_align = 8\<rparr>" Debug] h'
    by auto
qed

text \<open>
  C5. \<open>dealloc\<close> of a block in use, with the layout it was allocated with, always returns and keeps
  the invariant: the block leaves the map of blocks in use. A small block whose list has room becomes
  the head of its list, and the next allocation of its size class returns exactly this block and
  leaves the list as it was before.
\<close>

theorem heap_dealloc_then_alloc:
  assumes P: "page_source palloc pdealloc pinv mark mapped"
    and inv: "heap_inv pinv mark mapped F h live" and l: "live a = Some l"
  shows "\<exists>h' F'. heap_dealloc p pdealloc h a l = Inr h' \<and> heap_inv pinv mark mapped F' h' (live(a := None)) \<and>
    (\<forall>i l'. list_index l = Some i \<and> list_lengths h ! i < MAX_LIST_LENGTH \<and> list_index l' = Some i \<longrightarrow>
      (\<exists>h''. heap_alloc p palloc h' l' = Inr (a, h'') \<and> list_heads h'' = list_heads h))"
proof (cases "list_index l")
  case None
  with page_source.heap_dealloc_total [OF P inv l, of p] show ?thesis by auto
next
  case (Some i)
  note i9 = list_index_less [OF Some]
  obtain h' F' where D: "heap_dealloc p pdealloc h a l = Inr h'" "heap_inv pinv mark mapped F' h' (live(a := None))"
    and h': "list_lengths h ! i < MAX_LIST_LENGTH \<longrightarrow> list_heads h' = (list_heads h)[i := Some a]"
    using heap_dealloc_small [OF inv l Some, of p pdealloc] by (metis (full_types))
  have len: "i < length (list_heads h)" "i < length (list_lengths h)"
    using inv i9 by (auto simp: heap_inv_def lists_ok_def)
  have "\<exists>h''. heap_alloc p palloc h' l' = Inr (a, h'') \<and> list_heads h'' = list_heads h"
    if room: "list_lengths h ! i < MAX_LIST_LENGTH" and l': "list_index l' = Some i" for l'
  proof -
    have "u64_add p (list_lengths h ! i) 1 = Inr (list_lengths h ! i + 1)"
      using room by (intro u64_add_ok) (simp add: MAX_LIST_LENGTH_def)
    then have "node_next h' a = list_heads h ! i"
      using D(1) Some len room block_size_bounds [OF i9]
      by (auto simp: heap_dealloc_def LIST_NODE_SIZE_def LIST_NODE_ALIGN_def)
    then show ?thesis using h' room l' len by (simp add: heap_alloc_def)
  qed
  with D Some show ?thesis by (intro exI [of _ h'] exI [of _ F']) auto
qed

theorem heap_dealloc_then_alloc_witness:
  "\<exists>h h' h''. heap_dealloc Debug (page_dealloc Debug x86_std (kernel_traits Debug)) h KERNEL_HEAP_START
      \<lparr>l_size = 2048, l_align = 8\<rparr> = Inr h' \<and>
    heap_alloc Debug (page_alloc Debug x86_std (kernel_traits Debug)) h' \<lparr>l_size = 1500, l_align = 4\<rparr> =
      Inr (KERNEL_HEAP_START, h'') \<and> list_heads h'' = list_heads h"
proof -
  let ?l = "\<lparr>l_size = 2048, l_align = 8\<rparr>"
  obtain h F where h: "heap_inv kernel_pinv current_virt (heap_pages id) F h ((\<lambda>_. None)(KERNEL_HEAP_START \<mapsto> ?l))"
    "list_lengths h = replicate 9 0"
    using example_heap_live by blast
  have "list_index ?l = Some 8" "list_index \<lparr>l_size = 1500, l_align = 4\<rparr> = Some 8"
    by (simp_all add: list_index_def BLOCK_SIZES_def)
  moreover have "list_lengths h ! 8 < MAX_LIST_LENGTH" using h(2) by (simp add: MAX_LIST_LENGTH_def)
  ultimately show ?thesis
    using heap_dealloc_then_alloc [OF kernel_page_source [of Debug] h(1), of KERNEL_HEAP_START ?l Debug] by fastforce
qed

lemma push_blocks_keep:
  assumes "for_each (\<lambda>_. push_block p i s) xs (a, h) = Inr (a', h')"
  shows "LARGE_ALLOCS h' = LARGE_ALLOCS h \<and> list_lengths h' = list_lengths h \<and> PAGE_ALLOCATOR h' = PAGE_ALLOCATOR h"
proof -
  let ?I = "\<lambda>s. LARGE_ALLOCS (snd s) = LARGE_ALLOCS h \<and> list_lengths (snd s) = list_lengths h \<and>
      PAGE_ALLOCATOR (snd s) = PAGE_ALLOCATOR h"
  have "?I (a', h')"
    by (rule for_each_partial [OF assms]) (auto simp: push_block_def Let_def)
  then show ?thesis by simp
qed

definition slots_used :: "'pa kheap \<Rightarrow> nat" where
  "slots_used h = length (slot_addrs (LARGE_ALLOCS h))"

lemma slots_used_full: "length (LARGE_ALLOCS h) = n \<Longrightarrow> slots_used h = n \<Longrightarrow> None \<notin> set (LARGE_ALLOCS h)"
  using length_filter_less [of None "LARGE_ALLOCS h" "\<lambda>x. x \<noteq> None"] by (simp add: slots_used_def slot_addrs_def) blast

lemma large_alloc_insert_used:
  "large_alloc_insert a n h = Inr h' \<Longrightarrow> length (LARGE_ALLOCS h') = length (LARGE_ALLOCS h) \<and>
     slots_used h' = Suc (slots_used h) \<and> list_lengths h' = list_lengths h"
  by (auto simp: large_alloc_insert_def slots_used_def split: option.splits dest!: insert_slot_Some)

text \<open>How one step moves the counters: nothing ever decreases.\<close>

lemma heap_alloc_counters:
  assumes "heap_alloc p palloc h l = Inr (b, h')"
  shows "length (LARGE_ALLOCS h') = length (LARGE_ALLOCS h) \<and> slots_used h \<le> slots_used h' \<and> list_lengths h' = list_lengths h"
proof (cases "list_index l")
  case None
  then show ?thesis using assms
    by (auto simp: heap_alloc_def fallback_alloc_def Let_def slots_used_def split: option.splits sum.splits
        dest!: large_alloc_insert_used)
next
  case (Some i)
  then show ?thesis using assms
    by (auto simp: heap_alloc_def refill_free_list_def Let_def slots_used_def split: option.splits sum.splits
        dest!: push_blocks_keep)
qed

lemma dealloc_slots_counters:
  "dealloc_slots pd a xs h = Inr h' \<Longrightarrow> LARGE_ALLOCS h' = LARGE_ALLOCS h \<and> list_lengths h' = list_lengths h"
  by (induction xs arbitrary: h) (fastforce split: option.splits sum.splits if_splits)+

lemma heap_dealloc_counters:
  assumes "heap_dealloc p pdealloc h a l = Inr h'" and "j < length (list_lengths h)"
  shows "LARGE_ALLOCS h' = LARGE_ALLOCS h \<and> length (list_lengths h') = length (list_lengths h) \<and>
    list_lengths h ! j \<le> list_lengths h' ! j"
proof (cases "list_index l")
  case None
  then show ?thesis using assms dealloc_slots_counters by (fastforce simp: heap_dealloc_def)
next
  case (Some i)
  have "u64_add p n 1 = Inr (n + 1)" if "n < MAX_LIST_LENGTH" for n
    using that by (intro u64_add_ok) (simp add: MAX_LIST_LENGTH_def)
  then show ?thesis using assms Some
    by (auto simp: heap_dealloc_def nth_res_def nth_list_update split: if_splits)
qed

lemma heap_steps_counters:
  assumes "(heap_step p palloc pdealloc)\<^sup>*\<^sup>* s s'" and "j < length (list_lengths (fst s))"
  shows "length (LARGE_ALLOCS (fst s')) = length (LARGE_ALLOCS (fst s)) \<and> slots_used (fst s) \<le> slots_used (fst s') \<and>
    length (list_lengths (fst s')) = length (list_lengths (fst s)) \<and>
    list_lengths (fst s) ! j \<le> list_lengths (fst s') ! j"
  using assms
proof (induction rule: rtranclp_induct)
  case (step s1 s2)
  have "length (LARGE_ALLOCS (fst s2)) = length (LARGE_ALLOCS (fst s1)) \<and> slots_used (fst s1) \<le> slots_used (fst s2) \<and>
    length (list_lengths (fst s2)) = length (list_lengths (fst s1)) \<and> list_lengths (fst s1) ! j \<le> list_lengths (fst s2) ! j"
    using step.hyps(2)
  proof cases
    case (step_alloc l h b h' live)
    then show ?thesis using heap_alloc_counters [OF step_alloc(4)] by simp
  next
    case (step_dealloc live a l h h')
    then show ?thesis using heap_dealloc_counters [OF step_dealloc(4), of j] step.IH step.prems
      by (simp add: slots_used_def)
  next
    case (step_write nx h live)
    then show ?thesis by (simp add: slots_used_def)
  qed
  then show ?case using step.IH [OF step.prems] by linarith
qed simp

text \<open>
  C37. The table of large allocations only fills up: no step of the heap, deallocation included, ever
  frees one of its 512 slots. Once they are all used, every request of more than 2048 bytes that the
  page allocator could satisfy panics, whatever was given back in the meantime.
\<close>

theorem large_allocs_exhausted:
  assumes "(heap_step p palloc pdealloc)\<^sup>*\<^sup>* (h, live) (h', live')" and "length (LARGE_ALLOCS h) = 512"
    and "slots_used h = 512" and "length (list_lengths h) = 9"
    and "2048 < max (l_size l) (l_align l)" and "max (l_size l) (l_align l) + 4095 < 2 ^ 64"
    and "PAGE_ALLOCATOR h' = Some pa" and "palloc pa (num_pages_of l) {PRESENT, WRITABLE} = Inr (Inr a, pa')"
  shows "heap_alloc p palloc h' l = Inl (Panic ''LARGE_ALLOCS is full!'')"
proof -
  have c: "length (LARGE_ALLOCS h') = 512" "512 \<le> slots_used h'"
    using heap_steps_counters [OF assms(1), of 0] assms(2-4) by simp_all
  have "slots_used h' \<le> length (LARGE_ALLOCS h')" by (simp add: slots_used_def slot_addrs_def)
  with c have "None \<notin> set (LARGE_ALLOCS h')" by (intro slots_used_full) auto
  then have full: "insert_slot a n (LARGE_ALLOCS h') = None" for n by (simp add: insert_slot_None)
  have "list_index l = None" using assms(5) by (simp only: list_index_None_iff)
  moreover have "u64_add p (max (l_size l) (l_align l)) 4095 = Inr (max (l_size l) (l_align l) + 4095)"
    by (rule u64_add_ok [OF assms(6)])
  ultimately show ?thesis using assms(7,8) full
    by (simp add: heap_alloc_def fallback_alloc_def num_pages_of_def [symmetric] large_alloc_insert_def)
qed

theorem large_allocs_exhausted_witness:
  "heap_alloc Debug (page_alloc Debug x86_std (kernel_traits Debug))
     (example_heap\<lparr>LARGE_ALLOCS := replicate 512 (Some (0x1000, 1))\<rparr>) \<lparr>l_size = 4000, l_align = 8\<rparr> =
   Inl (Panic ''LARGE_ALLOCS is full!'')"
proof -
  let ?h = "example_heap\<lparr>LARGE_ALLOCS := replicate 512 (Some (0x1000, 1))\<rparr>" and ?l = "\<lparr>l_size = 4000, l_align = 8\<rparr>"
  have n: "num_pages_of ?l = 1" by (simp add: num_pages_of_def)
  obtain pa' where "page_alloc Debug x86_std (kernel_traits Debug) example_pages (num_pages_of ?l) {PRESENT, WRITABLE} =
      Inr (Inr KERNEL_HEAP_START, pa')"
    using example_pages_one unfolding n by blast
  then show ?thesis
    by (intro large_allocs_exhausted [where h = ?h and live = "\<lambda>_. None" and live' = "\<lambda>_. None" and pa = example_pages
          and pdealloc = "page_dealloc Debug x86_std (kernel_traits Debug)"])
      (simp_all add: slots_used_def slot_addrs_def)
qed

text \<open>
  C38. The length counter of a free list counts the deallocations and never goes down, since allocation
  does not decrement it. Once it is at 4096, every later deallocation of the size class drops the block:
  the heap is left unchanged and the block is lost.
\<close>

theorem free_list_counter_saturates:
  assumes "(heap_step p palloc pdealloc)\<^sup>*\<^sup>* (h, live) (h', live')" and "length (list_lengths h) = 9"
    and "list_index l = Some i" and "list_lengths h ! i = MAX_LIST_LENGTH"
  shows "heap_dealloc p pdealloc h' a l = Inr h'"
proof -
  have "i < length (list_lengths h)" using list_index_less [OF assms(3)] assms(2) by simp
  then have "i < length (list_lengths h')" "MAX_LIST_LENGTH \<le> list_lengths h' ! i"
    using heap_steps_counters [OF assms(1), of i] assms(4) by simp_all
  then show ?thesis using assms(3) by (simp add: heap_dealloc_def)
qed

theorem free_list_counter_saturates_witness:
  "heap_dealloc Release (page_dealloc Release x86_std (kernel_traits Release))
     (example_heap\<lparr>list_lengths := [0, 4096, 0, 0, 0, 0, 0, 0, 0]\<rparr>) 0x5000 \<lparr>l_size = 16, l_align = 8\<rparr> =
   Inr (example_heap\<lparr>list_lengths := [0, 4096, 0, 0, 0, 0, 0, 0, 0]\<rparr>)"
  by (rule free_list_counter_saturates [where i = 1 and h = "example_heap\<lparr>list_lengths := [0, 4096, 0, 0, 0, 0, 0, 0, 0]\<rparr>"
        and live = "\<lambda>_. None" and live' = "\<lambda>_. None" and palloc = "page_alloc Release x86_std (kernel_traits Release)"])
    (simp_all add: list_index_def BLOCK_SIZES_def MAX_LIST_LENGTH_def)

text \<open>
  An alignment beyond the page size is not honoured: the fallback rounds the size up to the
  alignment but takes the next run of pages, whatever its address. Here a request for alignment 8192
  is answered with an address that is not a multiple of 8192.
\<close>

lemma overaligned_alloc_misaligned:
  "\<exists>b h'. heap_alloc p (page_alloc p x86_std (kernel_traits p))
      (heap_boot (\<lambda>_. None) (Some (page_allocator_new (\<lambda>_. None) example_alloc (KERNEL_HEAP_START + 4096) KERNEL_HEAP_END)))
      \<lparr>l_size = 64, l_align = 8192\<rparr> = Inr (b, h') \<and> b \<noteq> 0 \<and> \<not> 8192 dvd b"
proof -
  have "\<exists>pa'. page_alloc p x86_std (kernel_traits p)
      (page_allocator_new (\<lambda>_. None) example_alloc (KERNEL_HEAP_START + 4096) KERNEL_HEAP_END) 2 {PRESENT, WRITABLE} =
      Inr (Inr (KERNEL_HEAP_START + 4096), pa')"
    by (simp add: page_exec upt_conv_Cons heap_bounds canonical_def align_down_def bit_simps)
  then obtain pa' where pa': "page_alloc p x86_std (kernel_traits p)
      (page_allocator_new (\<lambda>_. None) example_alloc (KERNEL_HEAP_START + 4096) KERNEL_HEAP_END) 2 {PRESENT, WRITABLE} =
      Inr (Inr (KERNEL_HEAP_START + 4096), pa')" by blast
  have "\<exists>s. insert_slot a n (replicate 512 None) = Some s" for a n
    by (cases "insert_slot a n (replicate 512 None)") (auto simp: insert_slot_None)
  then obtain s where "insert_slot (KERNEL_HEAP_START + 4096) 2 (replicate 512 None) = Some s" by blast
  then show ?thesis using pa'
    by (simp add: heap_alloc_def fallback_alloc_def list_index_def BLOCK_SIZES_def u64_add_ok large_alloc_insert_def)
      (simp add: heap_bounds)
qed

end
