(* ===== verification/Byte_Memory.thy ===== *)
theory Byte_Memory
  imports Kernel_Prelude
begin

text \<open>
  Memory as a map from addresses to bytes: writes of little-endian values, as the kernel does them through raw
  pointers, and what is read back.
\<close>

unbundle bit_operations_syntax

section \<open>Writing\<close>

definition write_u64 :: "nat \<Rightarrow> u64 \<Rightarrow> (nat \<Rightarrow> u8) \<Rightarrow> nat \<Rightarrow> u8" where
  "write_u64 a v mem = (\<lambda>b. if a \<le> b \<and> b < a + 8 then ucast (drop_bit (8 * (b - a)) v) else mem b)"

definition write_u32 :: "nat \<Rightarrow> u32 \<Rightarrow> (nat \<Rightarrow> u8) \<Rightarrow> nat \<Rightarrow> u8" where
  "write_u32 a v mem = (\<lambda>b. if a \<le> b \<and> b < a + 4 then ucast (drop_bit (8 * (b - a)) v) else mem b)"

definition write_bytes :: "nat \<Rightarrow> u8 list \<Rightarrow> (nat \<Rightarrow> u8) \<Rightarrow> nat \<Rightarrow> u8" where
  "write_bytes a bs mem = (\<lambda>b. if a \<le> b \<and> b < a + length bs then bs ! (b - a) else mem b)"

section \<open>Reading\<close>

text \<open>The \<open>n\<close> bytes at an address, and the bytes of a value with the least significant first.\<close>

definition bytes_at :: "nat \<Rightarrow> nat \<Rightarrow> (nat \<Rightarrow> u8) \<Rightarrow> u8 list" where
  "bytes_at a n mem = map (\<lambda>i. mem (a + i)) [0..<n]"

definition le_bytes :: "nat \<Rightarrow> 'a::len word \<Rightarrow> u8 list" where
  "le_bytes n v = map (\<lambda>i. ucast (drop_bit (8 * i) v)) [0..<n]"

primrec le_read :: "u8 list \<Rightarrow> 'a::len word" where
  "le_read [] = 0"
| "le_read (b # bs) = (ucast b OR push_bit 8 (le_read bs))"

lemma bit_le_read:
  "bit (le_read bs :: 'a::len word) n \<longleftrightarrow> n < LENGTH('a) \<and> n < 8 * length bs \<and> bit (bs ! (n div 8)) (n mod 8)"
proof (induction bs arbitrary: n)
  case (Cons b bs)
  show ?case
  proof (cases "n < 8")
    case True
    then show ?thesis by (auto simp: bit_simps)
  next
    case False
    then have "n div 8 = Suc ((n - 8) div 8)" "(n - 8) mod 8 = n mod 8" by (simp_all add: le_div_geq le_mod_geq)
    then show ?thesis using False Cons.IH [of "n - 8"] by (auto simp: bit_simps dest: bit_imp_le_length)
  qed
qed simp

lemma le_read_bytes:
  "le_read (le_bytes 8 (v :: u64)) = v" "le_read (le_bytes 4 (w :: u32)) = w"
  by (rule bit_word_eqI; simp add: bit_le_read le_bytes_def bit_simps div_less_iff_less_mult)+

lemma bytes_at_cong: "(\<And>b. a \<le> b \<Longrightarrow> b < a + n \<Longrightarrow> m b = m' b) \<Longrightarrow> bytes_at a n m = bytes_at a n m'"
  by (simp add: bytes_at_def)

lemma bytes_at_write_u64 [simp]: "bytes_at a 8 (write_u64 a v m) = le_bytes 8 v"
  by (rule nth_equalityI) (simp_all add: bytes_at_def le_bytes_def write_u64_def)

lemma bytes_at_write_u32 [simp]: "bytes_at a 4 (write_u32 a v m) = le_bytes 4 v"
  by (rule nth_equalityI) (simp_all add: bytes_at_def le_bytes_def write_u32_def)

lemma bytes_at_write_other:
  "a + n \<le> b \<or> b + 8 \<le> a \<Longrightarrow> bytes_at a n (write_u64 b v m) = bytes_at a n m"
  "a + n \<le> b \<or> b + 4 \<le> a \<Longrightarrow> bytes_at a n (write_u32 b w m) = bytes_at a n m"
  by (rule bytes_at_cong; auto simp: write_u64_def write_u32_def)+

text \<open>A 64-bit value is determined by its eight bytes.\<close>

lemma le_bytes_inj: "le_bytes 8 (v :: u64) = le_bytes 8 w \<Longrightarrow> v = w"
proof (rule bit_word_eqI)
  fix n assume eq: "le_bytes 8 v = le_bytes 8 w" and "n < LENGTH(64)"
  then have n: "n div 8 < 8" by simp
  have "le_bytes 8 v ! (n div 8) = le_bytes 8 w ! (n div 8)" using eq by simp
  then have "(ucast (drop_bit (8 * (n div 8)) v) :: u8) = ucast (drop_bit (8 * (n div 8)) w)"
    using n by (simp add: le_bytes_def)
  then have "bit (ucast (drop_bit (8 * (n div 8)) v) :: u8) (n mod 8) = bit (ucast (drop_bit (8 * (n div 8)) w) :: u8) (n mod 8)"
    by simp
  then show "bit v n = bit w n" by (simp add: bit_simps)
qed

lemma bytes_at_append: "bytes_at a (m + n) mem = bytes_at a m mem @ bytes_at (a + m) n mem"
  by (simp add: bytes_at_def list_eq_iff_nth_eq nth_append less_diff_conv2)

lemma length_bytes [simp]: "length (bytes_at a n mem) = n" "length (le_bytes n v) = n"
  by (simp_all add: bytes_at_def le_bytes_def)

lemma le_read_bytes_u16: "le_read (le_bytes 2 (v :: u16)) = v"
  by (rule bit_word_eqI) (simp add: bit_le_read le_bytes_def bit_simps div_less_iff_less_mult)

lemma write_u_bytes: "write_u64 a v m = write_bytes a (le_bytes 8 v) m" "write_u32 a w m = write_bytes a (le_bytes 4 w) m"
  by (rule ext; auto simp: write_u64_def write_u32_def write_bytes_def le_bytes_def)+

lemma bytes_at_write_bytes [simp]: "bytes_at a (length bs) (write_bytes a bs m) = bs"
  by (rule nth_equalityI) (simp_all add: bytes_at_def write_bytes_def)

lemma bytes_at_write_inside:
  "i + length ws \<le> n \<Longrightarrow> bytes_at a n (write_bytes (a + i) ws m) =
    take i (bytes_at a n m) @ ws @ drop (i + length ws) (bytes_at a n m)"
  by (rule nth_equalityI) (auto simp: bytes_at_def write_bytes_def nth_append)

text \<open>A copy.\<close>

lemma bytes_at_copy: "i + n \<le> k \<Longrightarrow> bytes_at (a' + i) n (write_bytes a' (bytes_at a k m) m') = bytes_at (a + i) n m"
  by (rule nth_equalityI) (auto simp: bytes_at_def write_bytes_def add.assoc)

text \<open>A write outside a range leaves its bytes alone.\<close>

lemma write_outside:
  "b \<notin> blk (a, 8) \<Longrightarrow> write_u64 a v m b = m b"
  "b \<notin> blk (a, 4) \<Longrightarrow> write_u32 a w m b = m b"
  "b \<notin> blk (a, length bs) \<Longrightarrow> write_bytes a bs m b = m b"
  by (auto simp: write_u64_def write_u32_def write_bytes_def)

end
