(* ===== verification/Heap_Bytes.thy ===== *)
theory Heap_Bytes
  imports Kernel_Heap Byte_Memory
begin

text \<open>
  The heap in memory. \<open>Kernel_Heap\<close> keeps the \<open>next\<close> field of each \<^verbatim>\<open>ListNode\<close> apart from the bytes of the
  blocks; here the nodes are where \<^verbatim>\<open>allocator/fixed_size_block.rs\<close> puts them, in the first eight bytes of the
  free blocks, and a block in use has contents. The operations are those of the same file, on bytes.

  The theorems relate the two: the operations on bytes simulate those on nodes, keep their invariant, and leave the contents of all
  blocks in use alone. A page that the page allocator maps comes with the bytes that memory already has at its address; the bump pointer never
  returns to an address, so the contents of unmapped pages do not matter.
\<close>

section \<open>List nodes in memory\<close>

text \<open>
  A \<^verbatim>\<open>ListNode\<close> is one \<^verbatim>\<open>Option<&'static mut ListNode>\<close>: eight bytes, all zero for \<open>None\<close>, because a
  reference is never null.
\<close>

definition node_word :: "nat option \<Rightarrow> u64" where
  "node_word n = (case n of None \<Rightarrow> 0 | Some a \<Rightarrow> of_nat a)"

definition read_node :: "(nat \<Rightarrow> u8) \<Rightarrow> nat \<Rightarrow> nat option" where
  "read_node m a = (let v = le_read (bytes_at a 8 m) :: u64 in if v = 0 then None else Some (unat v))"

definition write_node :: "nat \<Rightarrow> nat option \<Rightarrow> (nat \<Rightarrow> u8) \<Rightarrow> nat \<Rightarrow> u8" where
  "write_node a n m = write_u64 a (node_word n) m"

record 'pa byte_heap = fixed_size_block_allocator +
  heap_bytes :: "nat \<Rightarrow> u8"
  large_slots :: "(nat \<times> nat) option list"
  page_cell :: "'pa option"

text \<open>The heap of \<open>Kernel_Heap\<close> that the bytes stand for, and a heap of that kind over given bytes.\<close>

definition node_view :: "'pa byte_heap \<Rightarrow> 'pa kheap" where
  "node_view b = \<lparr>list_heads = list_heads b, list_lengths = list_lengths b, node_next = read_node (heap_bytes b),
     LARGE_ALLOCS = large_slots b, PAGE_ALLOCATOR = page_cell b\<rparr>"

definition with_bytes :: "(nat \<Rightarrow> u8) \<Rightarrow> 'pa kheap \<Rightarrow> 'pa byte_heap" where
  "with_bytes m h = \<lparr>list_heads = list_heads h, list_lengths = list_lengths h, heap_bytes = m,
     large_slots = LARGE_ALLOCS h, page_cell = PAGE_ALLOCATOR h\<rparr>"


section \<open>The operations on bytes\<close>

definition byte_push :: "profile \<Rightarrow> nat \<Rightarrow> nat \<Rightarrow> nat \<times> 'pa byte_heap \<Rightarrow> (nat \<times> 'pa byte_heap) res" where
  "byte_push p index block_size = (\<lambda>(current_addr, b).
     and_then (nth_res (list_heads b) index) (\<lambda>hd.
     let b' = b\<lparr>heap_bytes := write_node current_addr hd (heap_bytes b), list_heads := (list_heads b)[index := Some current_addr]\<rparr> in
     and_then (u64_add p current_addr block_size) (\<lambda>a. Inr (a, b'))))"

definition byte_heap_init :: "profile \<Rightarrow> 'pa palloc \<Rightarrow> 'pa byte_heap \<Rightarrow> 'pa \<Rightarrow> ('pa byte_heap \<times> 'pa) res" where
  "byte_heap_init p palloc b pa =
     and_then (palloc pa 1 {PRESENT, WRITABLE}) (\<lambda>(r, pa').
       case r of
         Inr start_addr \<Rightarrow>
           (let page_size = 4096; block_size = 8; num_blocks = page_size div block_size in
            and_then (for_each (\<lambda>_. byte_push p 0 block_size) [0..<num_blocks] (start_addr, b)) (\<lambda>(_, b').
              Inr (b', pa')))
       | Inl _ \<Rightarrow> Inr (b, pa'))"

definition byte_refill :: "profile \<Rightarrow> 'pa palloc \<Rightarrow> 'pa byte_heap \<Rightarrow> nat \<Rightarrow> (nat option \<times> 'pa byte_heap) res" where
  "byte_refill p palloc b index =
     (case page_cell b of
        None \<Rightarrow> Inr (None, b)
      | Some pa \<Rightarrow>
          and_then (palloc pa 1 {PRESENT, WRITABLE}) (\<lambda>(r, pa').
            let b' = b\<lparr>page_cell := Some pa'\<rparr> in
            case r of
              Inl _ \<Rightarrow> Inr (None, b')
            | Inr page \<Rightarrow>
                and_then (nth_res BLOCK_SIZES index) (\<lambda>block_size.
                let num_blocks = PAGE_SIZE div block_size; user_block = page in
                and_then (u64_add p page block_size) (\<lambda>current_addr.
                and_then (for_each (\<lambda>_. byte_push p index block_size) [1..<num_blocks] (current_addr, b')) (\<lambda>(_, b'').
                  Inr (Some user_block, b''))))))"

text \<open>The branches for large blocks do not touch the nodes.\<close>

definition byte_alloc :: "profile \<Rightarrow> 'pa palloc \<Rightarrow> 'pa byte_heap \<Rightarrow> layout \<Rightarrow> (nat \<times> 'pa byte_heap) res" where
  "byte_alloc p palloc b l =
     (case list_index l of
        Some index \<Rightarrow>
          and_then (nth_res (list_heads b) index) (\<lambda>hd.
            case hd of
              Some node \<Rightarrow>
                Inr (node, b\<lparr>list_heads := (list_heads b)[index := read_node (heap_bytes b) node],
                             heap_bytes := write_node node None (heap_bytes b)\<rparr>)
            | None \<Rightarrow>
                and_then (byte_refill p palloc b index) (\<lambda>(block, b').
                  Inr (case block of Some a \<Rightarrow> a | None \<Rightarrow> 0, b')))
      | None \<Rightarrow> and_then (fallback_alloc p palloc (node_view b) l) (\<lambda>(a, h). Inr (a, with_bytes (heap_bytes b) h)))"

definition byte_dealloc :: "profile \<Rightarrow> 'pa pdealloc \<Rightarrow> 'pa byte_heap \<Rightarrow> nat \<Rightarrow> layout \<Rightarrow> 'pa byte_heap res" where
  "byte_dealloc p pdealloc b ptr l =
     (case list_index l of
        Some index \<Rightarrow>
          and_then (nth_res (list_lengths b) index) (\<lambda>len.
          if len < MAX_LIST_LENGTH then
            and_then (nth_res (list_heads b) index) (\<lambda>next.
            if \<not> LIST_NODE_SIZE \<le> BLOCK_SIZES ! index then Inl (Panic ''assertion failed'')
            else if \<not> LIST_NODE_ALIGN \<le> BLOCK_SIZES ! index then Inl (Panic ''assertion failed'')
            else and_then (u64_add p len 1) (\<lambda>len'.
              Inr (b\<lparr>heap_bytes := write_node ptr next (heap_bytes b), list_heads := (list_heads b)[index := Some ptr],
                     list_lengths := (list_lengths b)[index := len']\<rparr>)))
          else Inr b)
      | None \<Rightarrow> and_then (dealloc_slots pdealloc ptr (large_slots b) (node_view b)) (\<lambda>h. Inr (with_bytes (heap_bytes b) h)))"


section \<open>Simulation\<close>

text \<open>The two heaps agree on everything but the nodes; what an operation does depends on the nodes of the list heads only.\<close>

definition same_lists :: "'pa kheap \<Rightarrow> 'pa byte_heap \<Rightarrow> bool" where
  "same_lists h b \<longleftrightarrow> with_bytes (heap_bytes b) h = b"

lemma node_view_simps [simp]:
  "list_heads (node_view b) = list_heads b" "list_lengths (node_view b) = list_lengths b"
  "node_next (node_view b) = read_node (heap_bytes b)" "LARGE_ALLOCS (node_view b) = large_slots b" "PAGE_ALLOCATOR (node_view b) = page_cell b"
  by (simp_all add: node_view_def)

lemma node_view_page: "node_view (b\<lparr>page_cell := c\<rparr>) = (node_view b)\<lparr>PAGE_ALLOCATOR := c\<rparr>"
  by (simp add: node_view_def)

lemma with_bytes_simps [simp]:
  "list_heads (with_bytes m h) = list_heads h" "list_lengths (with_bytes m h) = list_lengths h" "heap_bytes (with_bytes m h) = m"
  "large_slots (with_bytes m h) = LARGE_ALLOCS h" "page_cell (with_bytes m h) = PAGE_ALLOCATOR h"
  by (simp_all add: with_bytes_def)

lemma same_lists_iff:
  "same_lists h b \<longleftrightarrow> list_heads h = list_heads b \<and> list_lengths h = list_lengths b \<and> LARGE_ALLOCS h = large_slots b \<and> PAGE_ALLOCATOR h = page_cell b"
  by (cases h; cases b) (auto simp: same_lists_def with_bytes_def)

lemma node_view_same: "same_lists h b \<Longrightarrow> node_view b = h\<lparr>node_next := read_node (heap_bytes b)\<rparr>"
  by (cases h) (auto simp: same_lists_iff node_view_def)

lemma same_lists_view [simp]: "same_lists (node_view b) b" "same_lists h (with_bytes m h)"
  by (simp_all add: same_lists_iff)

abbreviation rel_res :: "('a \<Rightarrow> 'b \<Rightarrow> bool) \<Rightarrow> 'a res \<Rightarrow> 'b res \<Rightarrow> bool" where
  "rel_res \<equiv> rel_sum (=)"

lemma rel_res_and_then:
  "rel_res R m n \<Longrightarrow> (\<And>x y. R x y \<Longrightarrow> rel_res S (k x) (l y)) \<Longrightarrow> rel_res S (and_then m k) (and_then n l)"
  by (auto simp: and_then_def rel_sum.simps split: sum.splits)

lemma rel_res_refl: "rel_res (=) m m"
  by (simp add: sum.rel_eq)

lemma push_sim: "same_lists h b \<Longrightarrow> rel_res (rel_prod (=) same_lists) (push_block p i s (a, h)) (byte_push p i s (a, b))"
  by (cases "nth_res (list_heads b) i"; cases "u64_add p a s") (auto simp: push_block_def byte_push_def Let_def same_lists_iff)

lemma push_loop_sim:
  "same_lists h b \<Longrightarrow>
    rel_res (rel_prod (=) same_lists) (for_each (\<lambda>_. push_block p i s) xs (a, h)) (for_each (\<lambda>_. byte_push p i s) xs (a, b))"
proof (induction xs arbitrary: a h b)
  case (Cons x xs)
  show ?case unfolding for_each.simps
    by (rule rel_res_and_then [OF push_sim [OF Cons.prems]]) (use Cons.IH in auto)
qed simp

lemma refill_sim:
  assumes "same_lists h b"
  shows "rel_res (rel_prod (=) same_lists) (refill_free_list p palloc h i) (byte_refill p palloc b i)"
proof (cases "page_cell b")
  case None
  then show ?thesis using assms by (simp add: refill_free_list_def byte_refill_def same_lists_iff)
next
  case (Some pa)
  have carve: "rel_res (rel_prod (=) same_lists)
      (and_then (nth_res BLOCK_SIZES i) (\<lambda>s. and_then (u64_add p u s) (\<lambda>a.
        and_then (for_each (\<lambda>_. push_block p i s) [1..<PAGE_SIZE div s] (a, h\<lparr>PAGE_ALLOCATOR := c\<rparr>)) (\<lambda>(_, h'). Inr (Some u, h')))))
      (and_then (nth_res BLOCK_SIZES i) (\<lambda>s. and_then (u64_add p u s) (\<lambda>a.
        and_then (for_each (\<lambda>_. byte_push p i s) [1..<PAGE_SIZE div s] (a, b\<lparr>page_cell := c\<rparr>)) (\<lambda>(_, b'). Inr (Some u, b')))))" for c u
  proof (rule rel_res_and_then [OF rel_res_refl], clarify, rule rel_res_and_then [OF rel_res_refl], clarify)
    fix s a
    show "rel_res (rel_prod (=) same_lists)
        (and_then (for_each (\<lambda>_. push_block p i s) [1..<PAGE_SIZE div s] (a, h\<lparr>PAGE_ALLOCATOR := c\<rparr>)) (\<lambda>(_, h'). Inr (Some u, h')))
        (and_then (for_each (\<lambda>_. byte_push p i s) [1..<PAGE_SIZE div s] (a, b\<lparr>page_cell := c\<rparr>)) (\<lambda>(_, b'). Inr (Some u, b')))"
      by (rule rel_res_and_then [OF push_loop_sim]) (use assms in \<open>auto simp: same_lists_iff\<close>)
  qed
  have pa: "PAGE_ALLOCATOR h = Some pa" using assms Some by (simp add: same_lists_iff)
  show ?thesis unfolding refill_free_list_def byte_refill_def Some pa option.case
    by (rule rel_res_and_then [OF rel_res_refl])
      (use assms carve in \<open>auto simp: same_lists_iff Let_def simp del: One_nat_def PAGE_SIZE_val split: sum.split\<close>)
qed

lemma alloc_sim: "rel_res (rel_prod (=) same_lists) (heap_alloc p palloc (node_view b) l) (byte_alloc p palloc b l)"
proof (cases "list_index l")
  case None
  then show ?thesis by (cases "fallback_alloc p palloc (node_view b) l") (auto simp: heap_alloc_def byte_alloc_def)
next
  case (Some i)
  have "rel_res (rel_prod (=) same_lists)
      (and_then (refill_free_list p palloc (node_view b) i) (\<lambda>(block, h'). Inr (case block of Some a \<Rightarrow> a | None \<Rightarrow> 0, h')))
      (and_then (byte_refill p palloc b i) (\<lambda>(block, b'). Inr (case block of Some a \<Rightarrow> a | None \<Rightarrow> 0, b')))"
    by (rule rel_res_and_then [OF refill_sim]) auto
  then show ?thesis using Some
    by (cases "nth_res (list_heads b) i") (auto simp: heap_alloc_def byte_alloc_def same_lists_iff split: option.split)
qed

lemma dealloc_sim: "rel_res same_lists (heap_dealloc p pdealloc (node_view b) a l) (byte_dealloc p pdealloc b a l)"
proof (cases "list_index l")
  case None
  then show ?thesis
    by (cases "dealloc_slots pdealloc a (large_slots b) (node_view b)") (auto simp: heap_dealloc_def byte_dealloc_def)
next
  case (Some i)
  then show ?thesis
    by (cases "nth_res (list_lengths b) i"; cases "nth_res (list_heads b) i"; cases "u64_add p (list_lengths b ! i) 1")
      (auto simp: heap_dealloc_def byte_dealloc_def same_lists_iff nth_res_def and_then_def split: sum.splits if_splits)
qed

section \<open>The invariant on bytes\<close>

abbreviation byte_inv :: "('pa \<Rightarrow> bool) \<Rightarrow> ('pa \<Rightarrow> nat) \<Rightarrow> ('pa \<Rightarrow> nat set) \<Rightarrow> (nat \<Rightarrow> nat list) \<Rightarrow>
    'pa byte_heap \<Rightarrow> (nat \<rightharpoonup> layout) \<Rightarrow> bool" where
  "byte_inv pinv mark mapped F b \<equiv> heap_inv pinv mark mapped F (node_view b)"

text \<open>The contents of the blocks in use are the same.\<close>

definition keeps :: "(nat \<rightharpoonup> layout) \<Rightarrow> 'pa byte_heap \<Rightarrow> 'pa byte_heap \<Rightarrow> bool" where
  "keeps live b b' \<longleftrightarrow> (\<forall>c k x. live c = Some k \<longrightarrow> x \<in> blk (c, l_size k) \<longrightarrow> heap_bytes b' x = heap_bytes b x)"

lemma keeps_refl [simp]: "keeps live b b"
  by (simp add: keeps_def)

lemma keeps_trans: "keeps live b b' \<Longrightarrow> keeps live' b' b'' \<Longrightarrow> live \<subseteq>\<^sub>m live' \<Longrightarrow> keeps live b b''"
  unfolding keeps_def map_le_def dom_def by (metis (mono_tags, lifting) mem_Collect_eq option.distinct(1))

lemma keeps_bytes_at: "keeps live b b' \<Longrightarrow> live c = Some k \<Longrightarrow> i + n \<le> l_size k \<Longrightarrow>
    bytes_at (c + i) n (heap_bytes b') = bytes_at (c + i) n (heap_bytes b)"
  by (rule bytes_at_cong) (force simp: keeps_def)

lemma read_node_write:
  assumes "\<And>y. n = Some y \<Longrightarrow> 0 < y \<and> y < 2 ^ 64"
  shows "read_node (write_node a n m) a = n"
proof (cases n)
  case (Some y)
  then have "unat (of_nat y :: u64) = y" using assms by (simp add: unsigned_of_nat take_bit_nat_eq_self_iff)
  moreover from this have "(of_nat y :: u64) \<noteq> 0" using assms [OF Some] by (metis less_irrefl unsigned_0)
  ultimately show ?thesis using Some by (simp add: read_node_def write_node_def node_word_def le_read_bytes)
qed (simp add: read_node_def write_node_def node_word_def le_read_bytes)

lemma read_node_None [simp]: "read_node (write_node a None m) a = None"
  by (rule read_node_write) simp

lemma read_node_cong: "(\<And>y. y \<in> blk (x, 8) \<Longrightarrow> m y = m' y) \<Longrightarrow> read_node m x = read_node m' x"
  using bytes_at_cong [of x 8 m m'] by (simp add: read_node_def)

lemma write_node_outside: "y \<notin> blk (a, 8) \<Longrightarrow> write_node a n m y = m y"
  unfolding write_node_def by (rule write_outside)

lemma read_node_apart: "blk (x, 8) \<inter> blk (a, 8) = {} \<Longrightarrow> read_node (write_node a n m) x = read_node m x"
  by (rule read_node_cong) (rule write_node_outside, blast)

lemma nodes_apart:
  assumes "blocks_ok mk mp F live" and "(y, s) \<in> free_blocks F \<union> live_blocks live" and "8 \<le> s"
    and "x \<in> set (F i)" and "i < 9" and "x \<noteq> y"
  shows "blk (x, 8) \<inter> blk (y, 8) = {}"
proof -
  have "(x, BLOCK_SIZES ! i) \<in> free_blocks F \<union> live_blocks live" using assms(4,5) by (simp add: in_free_blocks_nth)
  then have "blk (x, BLOCK_SIZES ! i) \<inter> blk (y, s) = {}"
    using region_ok_disjoint assms(1,2,6) unfolding blocks_ok_def by blast
  moreover have "blk (x, 8) \<subseteq> blk (x, BLOCK_SIZES ! i)" "blk (y, 8) \<subseteq> blk (y, s)"
    using assms(3) block_size_bounds [OF assms(5)] by (auto intro!: blk_mono)
  ultimately show ?thesis by blast
qed

text \<open>Taking the first block of a list.\<close>

lemma byte_alloc_pop:
  assumes inv: "byte_inv pinv mark mapped F b live" and ok: "layout_ok l"
    and i: "list_index l = Some i" and a: "list_heads b ! i = Some a"
  shows "\<exists>b'. byte_alloc p palloc b l = Inr (a, b') \<and> 0 < a \<and> live a = None \<and>
    byte_inv pinv mark mapped (F(i := tl (F i))) b' (live(a \<mapsto> l)) \<and> keeps live b b' \<and> list_lengths b' = list_lengths b"
proof -
  obtain h where h: "heap_alloc p palloc (node_view b) l = Inr (a, h)" "0 < a" "live a = None"
      "heap_inv pinv mark mapped (F(i := tl (F i))) h (live(a \<mapsto> l))"
    using heap_alloc_pop [OF inv ok i, of a p palloc] a by auto
  obtain pa where B: "blocks_ok (mark pa) (mapped pa) F live" "live_ok (mapped pa) (large_slots b) live" and L: "lists_ok F (node_view b)"
    using inv by (auto elim!: heap_invE)
  obtain pa' where B': "blocks_ok (mark pa') (mapped pa') (F(i := tl (F i))) (live(a \<mapsto> l))"
    using h(4) by (auto elim!: heap_invE)
  note i9 = list_index_less [OF i] and D = lists_okD [OF L list_index_less [OF i]]
  let ?m = "write_node a None (heap_bytes b)"
  let ?b = "b\<lparr>list_heads := (list_heads b)[i := read_node (heap_bytes b) a], heap_bytes := ?m\<rparr>"
  have run: "byte_alloc p palloc b l = Inr (a, ?b)" using i a D(4) by (simp add: byte_alloc_def)
  have "same_lists h ?b" using alloc_sim [of p palloc b l] h(1) run by simp
  moreover have nx: "node_next h = (read_node (heap_bytes b))(a := None)"
    using h(1) i a D(4) by (auto simp: heap_alloc_def)
  have "read_node ?m x = node_next h x" if "j < 9" "x \<in> set ((F(i := tl (F i))) j)" for j x
  proof (cases "x = a")
    case False
    have "blk (x, 8) \<inter> blk (a, 8) = {}"
      using nodes_apart [OF B' _ _ that(2,1) False, of "capacity l"] block_size_bounds [OF i9] capacity_small [OF i]
      by (simp add: in_live_blocks)
    then show ?thesis using False nx by (simp add: read_node_apart)
  qed (simp add: nx)
  then have "heap_inv pinv mark mapped (F(i := tl (F i))) (h\<lparr>node_next := read_node ?m\<rparr>) (live(a \<mapsto> l))"
    by (rule heap_inv_renode [OF h(4)])
  ultimately have "byte_inv pinv mark mapped (F(i := tl (F i))) ?b (live(a \<mapsto> l))" by (simp add: node_view_same)
  moreover have "a \<in> set (F i)" using D(1) a by (auto simp: chain_Some)
  then have "keeps live b ?b"
    using write_keeps_lists [OF B _ i9] by (fastforce simp: keeps_def LIST_NODE_SIZE_def intro!: write_node_outside)
  ultimately show ?thesis using run h(2,3) by auto
qed

text \<open>Carving a page: the nodes of the new blocks form the list, and no other byte changes.\<close>

lemma byte_push_loop:
  assumes "i < length (list_heads b)" and "8 \<le> s" and "0 < a" and "a + length xs * s < 2 ^ 64" and "list_heads b ! i = None"
  shows "\<exists>m r. for_each (\<lambda>_. byte_push p i s) xs (a, b) =
      Inr (a + length xs * s, b\<lparr>heap_bytes := m, list_heads := (list_heads b)[i := r]\<rparr>) \<and>
    chain (read_node m) r (rev (blocks_from a s (length xs))) \<and> (\<forall>x. x \<notin> blk (a, length xs * s) \<longrightarrow> m x = heap_bytes b x)"
  using assms(4)
proof (induction xs rule: rev_induct)
  case Nil
  have "(list_heads b)[i := None] = list_heads b" using assms(5) by (metis list_update_id)
  then show ?case by (intro exI [of _ "heap_bytes b"] exI [of _ None]) (simp add: blocks_from_def)
next
  case (snoc x xs)
  let ?n = "length xs" and ?a = "a + length xs * s"
  have lt: "?a + s < 2 ^ 64" using snoc.prems by simp
  then obtain m r where IH: "for_each (\<lambda>_. byte_push p i s) xs (a, b) =
      Inr (?a, b\<lparr>heap_bytes := m, list_heads := (list_heads b)[i := r]\<rparr>)"
    "chain (read_node m) r (rev (blocks_from a s ?n))" "\<forall>x. x \<notin> blk (a, ?n * s) \<longrightarrow> m x = heap_bytes b x"
    using snoc.IH by auto
  have old: "a \<le> y \<and> y + s \<le> ?a" if "y \<in> set (blocks_from a s ?n)" for y using blocks_from_bounds that by blast
  let ?m = "write_node ?a r m"
  have push: "byte_push p i s (?a, b\<lparr>heap_bytes := m, list_heads := (list_heads b)[i := r]\<rparr>) =
      Inr (a + Suc ?n * s, b\<lparr>heap_bytes := ?m, list_heads := (list_heads b)[i := Some ?a]\<rparr>)"
    using assms(1) lt by (simp add: byte_push_def u64_add_ok add.commute)
  have "0 < y \<and> y < 2 ^ 64" if "r = Some y" for y
  proof -
    have "y \<in> set (rev (blocks_from a s ?n))" using IH(2) unfolding that chain_Some by force
    then show ?thesis using old [of y] assms(2,3) lt by simp
  qed
  then have "read_node ?m ?a = r" by (rule read_node_write)
  moreover have "read_node ?m y = read_node m y" if "y \<in> set (blocks_from a s ?n)" for y
    using old [OF that] assms(2) by (intro read_node_apart blk_disjointI) simp
  then have "chain (read_node ?m) r (rev (blocks_from a s ?n))" by (intro chain_cong [THEN iffD2, OF _ IH(2)]) simp
  ultimately have "chain (read_node ?m) (Some ?a) (rev (blocks_from a s (Suc ?n)))" by (simp add: blocks_from_Suc)
  moreover have "\<forall>x. x \<notin> blk (a, Suc ?n * s) \<longrightarrow> ?m x = heap_bytes b x"
    using IH(3) assms(2) by (auto simp: write_node_outside)
  ultimately show ?case unfolding for_each_append IH(1) by (intro exI [of _ ?m] exI [of _ "Some ?a"]) (simp add: push)
qed

lemma live_below_mark:
  assumes "blocks_ok mk mp F live" and "live_ok mp slots live" and "live c = Some k"
  shows "c + l_size k \<le> mk"
proof -
  have "(c, capacity k) \<in> free_blocks F \<union> live_blocks live" using assms(3) by (auto simp: in_live_blocks)
  then have "c + capacity k \<le> mk" using assms(1) unfolding blocks_ok_def region_ok_def by blast
  then show ?thesis using capacity_ge [OF live_okD(1) [OF assms(2,3)]] by simp
qed

context page_source
begin

lemma byte_alloc_refill:
  assumes inv: "byte_inv pinv mark mapped F b live" and ok: "layout_ok l"
    and i: "list_index l = Some i" and head: "list_heads b ! i = None"
  shows "\<exists>a b' bs. byte_alloc p palloc b l = Inr (a, b') \<and> keeps live b b' \<and> list_lengths b' = list_lengths b \<and>
    (if a = 0 then byte_inv pinv mark mapped F b' live
     else live a = None \<and> byte_inv pinv mark mapped (F(i := bs)) b' (live(a \<mapsto> l)))"
proof -
  obtain pa where pa: "page_cell b = Some pa" "pinv pa" and L: "lists_ok F (node_view b)"
    and B: "blocks_ok (mark pa) (mapped pa) F live" "live_ok (mapped pa) (large_slots b) live"
    using inv by (auto elim!: heap_invE)
  note i9 = list_index_less [OF i] and D = lists_okD [OF L list_index_less [OF i]]
  let ?s = "BLOCK_SIZES ! i"
  have F: "F i = []" using D(1) head by simp
  obtain r pa' where P: "palloc pa 1 {PRESENT, WRITABLE} = Inr (r, pa')" "pinv pa'" "mark pa \<le> mark pa'"
    "mapped pa \<subseteq> mapped pa'"
    and r: "case r of Inl e \<Rightarrow> True | Inr a \<Rightarrow> 4096 dvd a \<and> 0 < a \<and> mark pa \<le> a \<and> a + 1 * 4096 \<le> mark pa' \<and>
       page_run a 1 \<subseteq> mapped pa'"
    using palloc_total [OF pa(2), of 1 "{PRESENT, WRITABLE}"] by (auto simp: MAX_PAGES_def)
  show ?thesis
  proof (cases r)
    case (Inl e)
    then have "byte_alloc p palloc b l = Inr (0, b\<lparr>page_cell := Some pa'\<rparr>)"
      using i head D(4) pa(1) P(1) by (simp add: byte_alloc_def byte_refill_def)
    then show ?thesis using heap_inv_palloc [OF inv _ P(2-4)] pa(1) by (simp add: keeps_def node_view_page)
  next
    case (Inr a)
    then have a: "4096 dvd a" "0 < a" "mark pa \<le> a" "a + 4096 \<le> mark pa'" "page_run a 1 \<subseteq> mapped pa'"
      using r by auto
    obtain m where m: "4096 div ?s = Suc m" "Suc m * ?s = 4096" using class_blocks [OF i9] by blast
    have len: "length [1..<Suc m] = m" by simp
    have top: "a + ?s + m * ?s = a + 4096" using m(2) by simp
    have lt: "a + 4096 < 2 ^ 64" using a(4) mark_bound [OF P(2)] by simp
    let ?b = "b\<lparr>page_cell := Some pa'\<rparr>"
    obtain mm t where loop: "for_each (\<lambda>_. byte_push p i ?s) [1..<Suc m] (a + ?s, ?b) =
        Inr (a + 4096, ?b\<lparr>heap_bytes := mm, list_heads := (list_heads b)[i := t]\<rparr>)"
      and chain: "chain (read_node mm) t (rev (blocks_from (a + ?s) ?s m))"
      and out: "\<forall>x. x \<notin> blk (a + ?s, m * ?s) \<longrightarrow> mm x = heap_bytes b x"
      using byte_push_loop [of i ?b ?s "a + ?s" "[1..<Suc m]" p] lt D(4) head block_size_bounds [OF i9] unfolding len top by auto
    let ?b2 = "?b\<lparr>heap_bytes := mm, list_heads := (list_heads b)[i := t]\<rparr>"
    have add: "u64_add p a ?s = Inr (a + ?s)" using lt m(2) by (intro u64_add_ok) simp
    have run: "byte_alloc p palloc b l = Inr (a, ?b2)"
      using i i9 head D(4) pa(1) P(1) Inr loop m(1) add by (simp add: byte_alloc_def byte_refill_def)
    have same: "\<forall>x. x + LIST_NODE_SIZE \<le> a \<longrightarrow> read_node mm x = node_next (node_view b) x"
      using out by (auto simp: LIST_NODE_SIZE_def intro!: read_node_cong)
    have view: "node_view ?b2 = (node_view b)\<lparr>PAGE_ALLOCATOR := Some pa', node_next := read_node mm,
        list_heads := (list_heads (node_view b))[i := t]\<rparr>" by (simp add: node_view_def)
    have "keeps live b ?b2" using live_below_mark [OF B] a(3) out by (fastforce simp: keeps_def)
    then show ?thesis
      using heap_inv_refill [OF inv _ ok i F P(2-4) a m(2) chain same] pa(1) run a(2) unfolding view [symmetric] by auto
  qed
qed

end

text \<open>Large blocks: no byte of the heap changes.\<close>

lemma fallback_alloc_nodes: "fallback_alloc p palloc h l = Inr (a, h') \<Longrightarrow> node_next h' = node_next h"
  by (auto simp: fallback_alloc_def large_alloc_insert_def Let_def split: option.splits sum.splits)

lemma dealloc_slots_nodes: "dealloc_slots pdealloc a slots h = Inr h' \<Longrightarrow> node_next h' = node_next h"
  by (induction pdealloc a slots h rule: dealloc_slots.induct) (fastforce split: option.splits prod.splits if_splits sum.splits)+

lemma node_view_with: "node_next h = read_node m \<Longrightarrow> node_view (with_bytes m h) = h"
  by (cases h) (simp add: node_view_def with_bytes_def)

lemma byte_alloc_large_eq:
  assumes "list_index l = None"
  shows "byte_alloc p palloc b l = and_then (heap_alloc p palloc (node_view b) l) (\<lambda>(a, h). Inr (a, with_bytes (heap_bytes b) h))"
    and "heap_alloc p palloc (node_view b) l = Inr (a, h) \<Longrightarrow> node_view (with_bytes (heap_bytes b) h) = h"
  using assms by (auto simp: byte_alloc_def heap_alloc_def intro!: node_view_with dest: fallback_alloc_nodes)

lemma byte_dealloc_large_eq:
  assumes "list_index l = None"
  shows "byte_dealloc p pdealloc b a l = and_then (heap_dealloc p pdealloc (node_view b) a l) (\<lambda>h. Inr (with_bytes (heap_bytes b) h))"
    and "heap_dealloc p pdealloc (node_view b) a l = Inr h \<Longrightarrow> node_view (with_bytes (heap_bytes b) h) = h"
  using assms by (auto simp: byte_dealloc_def heap_dealloc_def intro!: node_view_with dest: dealloc_slots_nodes)

lemma byte_dealloc_small:
  assumes inv: "byte_inv pinv mark mapped F b live" and l: "live a = Some l" and i: "list_index l = Some i"
    and bound: "\<And>pa. pinv pa \<Longrightarrow> mark pa < 2 ^ 64"
  shows "\<exists>b' F'. byte_dealloc p pdealloc b a l = Inr b' \<and> byte_inv pinv mark mapped F' b' (live(a := None)) \<and> keeps (live(a := None)) b b' \<and>
    (if list_lengths b ! i < MAX_LIST_LENGTH
     then list_heads b' = (list_heads b)[i := Some a] \<and> F' = F(i := a # F i) \<and> list_lengths b' = (list_lengths b)[i := list_lengths b ! i + 1]
     else b' = b \<and> F' = F)"
proof -
  obtain h F' where h: "heap_dealloc p pdealloc (node_view b) a l = Inr h" "heap_inv pinv mark mapped F' h (live(a := None))"
    and cases: "if list_lengths b ! i < MAX_LIST_LENGTH
      then list_heads h = (list_heads b)[i := Some a] \<and> F' = F(i := a # F i) \<and> list_lengths h = (list_lengths b)[i := list_lengths b ! i + 1]
      else h = node_view b \<and> F' = F"
    using heap_dealloc_small [OF inv l i, of p pdealloc] by auto
  obtain b' where b': "byte_dealloc p pdealloc b a l = Inr b'" "same_lists h b'"
    using dealloc_sim [of p pdealloc b a l] h(1) by (cases "byte_dealloc p pdealloc b a l") auto
  obtain pa where pa: "pinv pa" and L: "lists_ok F (node_view b)" and B: "blocks_ok (mark pa) (mapped pa) F live" "live_ok (mapped pa) (large_slots b) live"
    using inv by (auto elim!: heap_invE)
  note i9 = list_index_less [OF i] and D = lists_okD [OF L list_index_less [OF i]]
  show ?thesis
  proof (cases "list_lengths b ! i < MAX_LIST_LENGTH")
    case False
    then have "b' = b" using b'(1) i D(5) by (simp add: byte_dealloc_def)
    then show ?thesis using False b'(1) h(2) cases by auto
  next
    case True
    let ?m = "write_node a (list_heads b ! i) (heap_bytes b)"
    have bytes: "heap_bytes b' = ?m" using b'(1) i D(4,5) True by (auto simp: byte_dealloc_def split: if_splits)
    have nx: "node_next h = (read_node (heap_bytes b))(a := list_heads b ! i)"
      using h(1) i D(4,5) True by (auto simp: heap_dealloc_def split: if_splits)
    have "0 < y \<and> y < 2 ^ 64" if "list_heads b ! i = Some y" for y
    proof -
      have "(y, BLOCK_SIZES ! i) \<in> free_blocks F" using D(1) that i9 by (auto simp: chain_Some in_free_blocks_nth)
      then have "0 < y" "y + BLOCK_SIZES ! i \<le> mark pa" using B(1) unfolding blocks_ok_def region_ok_def by blast+
      then show ?thesis using bound [OF pa] by simp
    qed
    then have own: "read_node ?m a = list_heads b ! i" by (rule read_node_write)
    have F': "F' = F(i := a # F i)" using cases True by simp
    obtain pa' where B': "blocks_ok (mark pa') (mapped pa') F' (live(a := None))" "live_ok (mapped pa') (LARGE_ALLOCS h) (live(a := None))"
      using h(2) by (rule heap_invE)
    have "(a, BLOCK_SIZES ! i) \<in> free_blocks F'" using F' i9 by (simp add: in_free_blocks_nth)
    then have "blk (x, 8) \<inter> blk (a, 8) = {}" if "j < 9" "x \<in> set (F' j)" "x \<noteq> a" for j x
      using nodes_apart [OF B'(1) _ _ that(2,1,3)] block_size_bounds [OF i9] by blast
    then have "read_node ?m x = node_next h x" if "j < 9" "x \<in> set (F' j)" for j x
      using that own nx by (cases "x = a") (auto simp: read_node_apart)
    then have "byte_inv pinv mark mapped F' b' (live(a := None))"
      using heap_inv_renode [OF h(2), of "read_node ?m"] node_view_same [OF b'(2)] bytes by simp
    moreover have "keeps (live(a := None)) b b'"
    proof -
      have "blk (a, 8) \<inter> blk (c, l_size k) = {}" if "live c = Some k" "c \<noteq> a" for c k
        using write_keeps_lists [OF B', of a i c k] F' i9 that by (simp add: LIST_NODE_SIZE_def)
      then show ?thesis unfolding keeps_def bytes by (fastforce intro!: write_node_outside split: if_splits)
    qed
    ultimately show ?thesis using True b' cases by (auto simp: same_lists_iff)
  qed
qed

text \<open>A user writes into its block.\<close>

lemma byte_inv_write:
  assumes inv: "byte_inv pinv mark mapped F b live" and l: "live a = Some l" and out: "\<And>x. x \<notin> blk (a, l_size l) \<Longrightarrow> m x = heap_bytes b x"
  shows "byte_inv pinv mark mapped F (b\<lparr>heap_bytes := m\<rparr>) live" and "keeps (live(a := None)) b (b\<lparr>heap_bytes := m\<rparr>)"
proof -
  obtain pa where B: "blocks_ok (mark pa) (mapped pa) F live" "live_ok (mapped pa) (large_slots b) live"
    using inv by (auto elim!: heap_invE)
  have "read_node m x = read_node (heap_bytes b) x" if "i < 9" "x \<in> set (F i)" for i x
    using write_keeps_lists [OF B that(2,1) l] by (intro read_node_cong out) (auto simp: LIST_NODE_SIZE_def)
  then have "heap_inv pinv mark mapped F ((node_view b)\<lparr>node_next := read_node m\<rparr>) live" by (intro heap_inv_renode [OF inv]) simp
  then show "byte_inv pinv mark mapped F (b\<lparr>heap_bytes := m\<rparr>) live" by (simp add: node_view_def)
  have "blk (a, l_size l) \<inter> blk (c, l_size k) = {}" if "live c = Some k" "c \<noteq> a" for c k
    using heap_inv_safe [OF inv] l that unfolding heap_safe_def by metis
  then have "x \<notin> blk (a, l_size l)" if "live c = Some k" "c \<noteq> a" "x \<in> blk (c, l_size k)" for c k x using that by blast
  then show "keeps (live(a := None)) b (b\<lparr>heap_bytes := m\<rparr>)"
    by (simp add: keeps_def out del: in_blk_iff split: if_split)
qed

context page_source
begin

lemma byte_alloc_total:
  assumes inv: "byte_inv pinv mark mapped F b live" and ok: "layout_ok l"
  shows "(\<exists>a b' F'. byte_alloc p palloc b l = Inr (a, b') \<and> keeps live b b' \<and> list_lengths b' = list_lengths b \<and>
      (\<forall>j. list_index l \<noteq> Some j \<longrightarrow> F' j = F j) \<and>
      (if a = 0 then byte_inv pinv mark mapped F' b' live
       else live a = None \<and> byte_inv pinv mark mapped F' b' (live(a \<mapsto> l)))) \<or>
    list_index l = None \<and> None \<notin> set (large_slots b) \<and> byte_alloc p palloc b l = Inl (Panic ''LARGE_ALLOCS is full!'')"
proof (cases "list_index l")
  case None
  note eq = byte_alloc_large_eq [OF None]
  from heap_alloc_large [OF inv ok None, of p] show ?thesis
  proof (elim disjE exE conjE)
    fix a h assume h: "heap_alloc p palloc (node_view b) l = Inr (a, h)" "list_lengths h = list_lengths (node_view b)"
      "if a = 0 then LARGE_ALLOCS h = LARGE_ALLOCS (node_view b) \<and> heap_inv pinv mark mapped F h live
       else live a = None \<and> insert_slot a (num_pages_of l) (LARGE_ALLOCS (node_view b)) = Some (LARGE_ALLOCS h) \<and>
         heap_inv pinv mark mapped F h (live(a \<mapsto> l))"
    then show ?thesis using eq(1) [of p palloc b] eq(2) [OF h(1)]
      by (intro disjI1 exI [of _ a] exI [of _ "with_bytes (heap_bytes b) h"] exI [of _ F]) (simp add: keeps_def)
  qed (simp add: eq(1) None)
next
  case (Some i)
  show ?thesis
  proof (cases "list_heads b ! i")
    case None
    obtain a b' bs where r: "byte_alloc p palloc b l = Inr (a, b')" "keeps live b b'" "list_lengths b' = list_lengths b"
      "if a = 0 then byte_inv pinv mark mapped F b' live
       else live a = None \<and> byte_inv pinv mark mapped (F(i := bs)) b' (live(a \<mapsto> l))"
      using byte_alloc_refill [OF inv ok Some None, of p] by blast
    then show ?thesis using Some
      by (intro disjI1 exI [of _ a] exI [of _ b'] exI [of _ "if a = 0 then F else F(i := bs)"]) auto
  next
    case (Some a)
    obtain b' where "byte_alloc p palloc b l = Inr (a, b')" "0 < a" "live a = None" "keeps live b b'" "list_lengths b' = list_lengths b"
      "byte_inv pinv mark mapped (F(i := tl (F i))) b' (live(a \<mapsto> l))"
      using byte_alloc_pop [OF inv ok \<open>list_index l = Some i\<close> Some, of p palloc] by blast
    then show ?thesis using \<open>list_index l = Some i\<close>
      by (intro disjI1 exI [of _ a] exI [of _ b'] exI [of _ "F(i := tl (F i))"]) auto
  qed
qed

lemma byte_dealloc_total:
  assumes inv: "byte_inv pinv mark mapped F b live" and l: "live a = Some l"
  shows "\<exists>b' F'. byte_dealloc p pdealloc b a l = Inr b' \<and> byte_inv pinv mark mapped F' b' (live(a := None)) \<and> keeps (live(a := None)) b b' \<and>
    (\<forall>j. list_index l \<noteq> Some j \<longrightarrow> F' j = F j \<and> list_lengths b' ! j = list_lengths b ! j)"
proof (cases "list_index l")
  case None
  obtain h pa' where h: "heap_dealloc p pdealloc (node_view b) a l = Inr h" "heap_inv pinv mark mapped F h (live(a := None))"
      "h = (node_view b)\<lparr>PAGE_ALLOCATOR := Some pa'\<rparr>"
    using heap_dealloc_large [OF inv l None] by blast
  have "list_lengths h = list_lengths b" using h(3) by simp
  then show ?thesis
    using h(1,2) byte_dealloc_large_eq(1) [OF None, of p pdealloc b a] byte_dealloc_large_eq(2) [OF None h(1)]
    by (intro exI [of _ "with_bytes (heap_bytes b) h"] exI [of _ F]) (simp add: keeps_def)
next
  case (Some i)
  obtain b' F' where "byte_dealloc p pdealloc b a l = Inr b'" "byte_inv pinv mark mapped F' b' (live(a := None))"
      "keeps (live(a := None)) b b'" "if list_lengths b ! i < MAX_LIST_LENGTH
     then list_heads b' = (list_heads b)[i := Some a] \<and> F' = F(i := a # F i) \<and> list_lengths b' = (list_lengths b)[i := list_lengths b ! i + 1]
     else b' = b \<and> F' = F"
    using byte_dealloc_small [OF inv l Some mark_bound, of p pdealloc] by blast
  then show ?thesis using Some by (intro exI [of _ b'] exI [of _ F']) (auto split: if_splits)
qed

end

text \<open>The table of the large allocations: \<open>alloc\<close> of a large block takes at most one entry, and \<open>dealloc\<close> gives none back.\<close>

definition free_slots :: "(nat \<times> nat) option list \<Rightarrow> nat" where
  "free_slots xs = length (filter (\<lambda>s. s = None) xs)"

lemma free_slots_pos: "0 < free_slots xs \<longleftrightarrow> None \<in> set xs"
  by (induction xs) (auto simp: free_slots_def)

lemma insert_slot_free: "insert_slot a n xs = Some ys \<Longrightarrow> free_slots xs = Suc (free_slots ys)"
  using insert_slot_Some by (fastforce simp: free_slots_def)

lemma byte_push_loop_slots: "for_each (\<lambda>_. byte_push p i s) xs st = Inr st' \<Longrightarrow> large_slots (snd st') = large_slots (snd st)"
proof (induction xs arbitrary: st)
  case (Cons x xs)
  obtain st1 where "byte_push p i s st = Inr st1" "for_each (\<lambda>_. byte_push p i s) xs st1 = Inr st'"
    using Cons.prems by (auto simp: and_then_Inr_iff)
  then show ?case using Cons.IH [of st1] by (cases st) (auto simp: byte_push_def Let_def)
qed simp

lemma byte_alloc_slots:
  assumes "byte_alloc p palloc b l = Inr (a, b')"
  shows "free_slots (large_slots b) \<le> free_slots (large_slots b') + (if list_index l = None then 1 else 0)"
proof (cases "list_index l")
  case None
  then show ?thesis using assms
    by (auto simp: byte_alloc_def fallback_alloc_def large_alloc_insert_def Let_def insert_slot_free
        split: option.splits sum.splits)
next
  case (Some i)
  then show ?thesis using assms
    by (auto simp: byte_alloc_def byte_refill_def Let_def dest!: byte_push_loop_slots
        split: option.splits sum.splits)
qed

lemma dealloc_slots_keep: "dealloc_slots pdealloc a slots h = Inr h' \<Longrightarrow> LARGE_ALLOCS h' = LARGE_ALLOCS h"
  by (induction pdealloc a slots h rule: dealloc_slots.induct) (fastforce split: option.splits prod.splits if_splits sum.splits)+

lemma byte_dealloc_slots: "byte_dealloc p pdealloc b a l = Inr b' \<Longrightarrow> large_slots b' = large_slots b"
  by (auto simp: byte_dealloc_def dest!: dealloc_slots_keep split: option.splits if_splits)

lemma free_slots_replicate [simp]: "free_slots (replicate n None) = n"
  by (simp add: free_slots_def)


section \<open>The initial heap\<close>

definition byte_boot :: "(nat \<Rightarrow> u8) \<Rightarrow> 'pa option \<Rightarrow> 'pa byte_heap" where
  "byte_boot m g = with_bytes m (heap_boot (read_node m) g)"

lemma node_view_boot: "node_view (byte_boot m g) = heap_boot (read_node m) g"
  by (simp add: byte_boot_def node_view_with)

context page_source
begin

lemma byte_heap_init_total:
  assumes "pinv pa"
  shows "\<exists>b pa' F. byte_heap_init p palloc (byte_boot m g) pa = Inr (b, pa') \<and> pinv pa' \<and>
    byte_inv pinv mark mapped F (b\<lparr>page_cell := Some pa'\<rparr>) (\<lambda>_. None) \<and> list_lengths b = replicate 9 0 \<and>
    large_slots b = replicate 512 None \<and> (list_heads b ! 0 = None \<or> length (F 0) = 512)"
proof -
  obtain r pa' where P: "palloc pa 1 {PRESENT, WRITABLE} = Inr (r, pa')" "pinv pa'"
    and r: "case r of Inl e \<Rightarrow> True | Inr a \<Rightarrow> 4096 dvd a \<and> 0 < a \<and> mark pa \<le> a \<and> a + 1 * 4096 \<le> mark pa' \<and>
       page_run a 1 \<subseteq> mapped pa'"
    using palloc_total [OF assms, of 1 "{PRESENT, WRITABLE}"] by (auto simp: MAX_PAGES_def)
  show ?thesis
  proof (cases r)
    case (Inl e)
    have "node_view (byte_boot m g\<lparr>page_cell := Some pa'\<rparr>) = heap_boot (read_node m) (Some pa')"
      by (simp add: node_view_page node_view_boot heap_boot_def)
    then have "byte_inv pinv mark mapped (\<lambda>_. []) (byte_boot m g\<lparr>page_cell := Some pa'\<rparr>) (\<lambda>_. None)"
      using heap_boot_inv [where pinv = pinv and mark = mark and mapped = mapped, OF P(2)] by metis
    moreover have "byte_heap_init p palloc (byte_boot m g) pa = Inr (byte_boot m g, pa')" using P(1) Inl by (simp add: byte_heap_init_def)
    ultimately show ?thesis using P Inl by (intro exI [of _ "byte_boot m g"] exI [of _ pa'] exI [of _ "\<lambda>_. []"]) (simp add: byte_boot_def)
  next
    case (Inr a)
    then have a: "4096 dvd a" "0 < a" "a + 4096 \<le> mark pa'" "page_run a 1 \<subseteq> mapped pa'" using r by auto
    have lt: "a + length [0..<512] * 8 < 2 ^ 64" using a(3) mark_bound [OF P(2)] by simp
    obtain m' t where loop: "for_each (\<lambda>_. byte_push p 0 8) [0..<512] (a, byte_boot m g) =
        Inr (a + 4096, byte_boot m g\<lparr>heap_bytes := m', list_heads := (list_heads (byte_boot m g))[0 := t]\<rparr>)"
      and chain: "chain (read_node m') t (rev (blocks_from a 8 512))"
      using byte_push_loop [of 0 "byte_boot m g" 8 a "[0..<512]" p] lt a(2) by (auto simp: byte_boot_def)
    let ?b = "byte_boot m g\<lparr>heap_bytes := m', list_heads := (list_heads (byte_boot m g))[0 := t]\<rparr>"
    have "node_view (?b\<lparr>page_cell := Some pa'\<rparr>) = (heap_boot (read_node m') (Some pa'))\<lparr>list_heads := (replicate 9 None)[0 := t]\<rparr>"
      by (simp add: node_view_def byte_boot_def heap_boot_def heap_new_def)
    then have "byte_inv pinv mark mapped ((\<lambda>_. [])(0 := rev (blocks_from a 8 512))) (?b\<lparr>page_cell := Some pa'\<rparr>) (\<lambda>_. None)"
      using heap_inv_carved [where pinv = pinv and mark = mark and mapped = mapped, OF P(2) a chain] by metis
    moreover have "byte_heap_init p palloc (byte_boot m g) pa = Inr (?b, pa')" using P(1) Inr loop by (simp add: byte_heap_init_def)
    moreover have "length (rev (blocks_from a 8 512)) = 512" by (simp add: blocks_from_def)
    ultimately show ?thesis using P(2)
      by (intro exI [of _ ?b] exI [of _ pa'] exI [of _ "(\<lambda>_. [])(0 := rev (blocks_from a 8 512))"]) (simp add: byte_boot_def)
  qed
qed

end

section \<open>What the users of the heap see\<close>

text \<open>
  The abstract heap: separate blocks, each with its layout and its contents. A user allocates, gives back a
  block it owns, and overwrites a part of a block it owns.
\<close>

inductive owner_step :: "profile \<Rightarrow> 'pa palloc \<Rightarrow> 'pa pdealloc \<Rightarrow>
    'pa byte_heap \<times> (nat \<rightharpoonup> layout \<times> u8 list) \<Rightarrow> 'pa byte_heap \<times> (nat \<rightharpoonup> layout \<times> u8 list) \<Rightarrow> bool"
  for p palloc pdealloc where
  owner_alloc: "layout_ok l \<Longrightarrow> byte_alloc p palloc b l = Inr (a, b') \<Longrightarrow> a \<noteq> 0 \<Longrightarrow>
    owner_step p palloc pdealloc (b, owned) (b', owned(a \<mapsto> (l, bytes_at a (l_size l) (heap_bytes b'))))"
| owner_null: "layout_ok l \<Longrightarrow> byte_alloc p palloc b l = Inr (0, b') \<Longrightarrow> owner_step p palloc pdealloc (b, owned) (b', owned)"
| owner_dealloc: "owned a = Some (l, bs) \<Longrightarrow> byte_dealloc p pdealloc b a l = Inr b' \<Longrightarrow>
    owner_step p palloc pdealloc (b, owned) (b', owned(a := None))"
| owner_write: "owned a = Some (l, bs) \<Longrightarrow> i + length ws \<le> l_size l \<Longrightarrow>
    owner_step p palloc pdealloc (b, owned)
      (b\<lparr>heap_bytes := write_bytes (a + i) ws (heap_bytes b)\<rparr>, owned(a \<mapsto> (l, take i bs @ ws @ drop (i + length ws) bs)))"

definition layouts :: "(nat \<rightharpoonup> layout \<times> u8 list) \<Rightarrow> nat \<rightharpoonup> layout" where
  "layouts owned a = map_option fst (owned a)"

definition contents_ok :: "(nat \<rightharpoonup> layout \<times> u8 list) \<Rightarrow> 'pa byte_heap \<Rightarrow> bool" where
  "contents_ok owned b \<longleftrightarrow> (\<forall>a l bs. owned a = Some (l, bs) \<longrightarrow> bytes_at a (l_size l) (heap_bytes b) = bs)"

lemma layouts_upd [simp]:
  "layouts (owned(a \<mapsto> (l, bs))) = (layouts owned)(a \<mapsto> l)" "layouts (owned(a := None)) = (layouts owned)(a := None)"
  by (auto simp: layouts_def)

lemma contents_ok_keeps:
  assumes "contents_ok owned b" and "keeps ((layouts owned)(a := None)) b b'" and "c \<noteq> a" and "owned c = Some (l, bs)"
  shows "bytes_at c (l_size l) (heap_bytes b') = bs"
  using keeps_bytes_at [OF assms(2), of c l 0 "l_size l"] assms by (simp add: layouts_def contents_ok_def)

context page_source
begin

lemma owner_step_inv:
  assumes "owner_step p palloc pdealloc s s'" and "\<exists>F. byte_inv pinv mark mapped F (fst s) (layouts (snd s))" and "contents_ok (snd s) (fst s)"
  shows "(\<exists>F. byte_inv pinv mark mapped F (fst s') (layouts (snd s'))) \<and> contents_ok (snd s') (fst s')"
  using assms
proof (induction rule: owner_step.induct)
  case (owner_alloc l b a b' owned)
  then obtain F where inv: "byte_inv pinv mark mapped F b (layouts owned)" by auto
  obtain F' where "keeps (layouts owned) b b'" "byte_inv pinv mark mapped F' b' ((layouts owned)(a \<mapsto> l))" "layouts owned a = None"
    using byte_alloc_total [OF inv owner_alloc(1), of p] owner_alloc(2,3) by auto
  moreover from this have "contents_ok (owned(a \<mapsto> (l, bytes_at a (l_size l) (heap_bytes b')))) b'"
    using contents_ok_keeps [of owned b a b'] owner_alloc(5) by (auto simp: contents_ok_def fun_upd_idem)
  ultimately show ?case unfolding fst_conv snd_conv layouts_upd by blast
next
  case (owner_null l b b' owned)
  then obtain F where inv: "byte_inv pinv mark mapped F b (layouts owned)" by auto
  obtain F' where "keeps (layouts owned) b b'" "byte_inv pinv mark mapped F' b' (layouts owned)"
    using byte_alloc_total [OF inv owner_null(1), of p] owner_null(2) by auto
  moreover from this have "contents_ok owned b'"
    using keeps_bytes_at [of "layouts owned" b b' _ _ 0] owner_null(4) by (auto simp: contents_ok_def layouts_def)
  ultimately show ?case unfolding fst_conv snd_conv layouts_upd by blast
next
  case (owner_dealloc owned a l bs b b')
  then obtain F where inv: "byte_inv pinv mark mapped F b (layouts owned)" by auto
  obtain F' where "keeps ((layouts owned)(a := None)) b b'" "byte_inv pinv mark mapped F' b' ((layouts owned)(a := None))"
    using byte_dealloc_total [OF inv, of a l p] owner_dealloc(1,2) by (auto simp: layouts_def)
  moreover from this have "contents_ok (owned(a := None)) b'"
    using contents_ok_keeps [of owned b a b'] owner_dealloc(4) by (auto simp: contents_ok_def)
  ultimately show ?case unfolding fst_conv snd_conv layouts_upd by blast
next
  case (owner_write owned a l bs i ws b)
  then obtain F where inv: "byte_inv pinv mark mapped F b (layouts owned)" by auto
  let ?m = "write_bytes (a + i) ws (heap_bytes b)"
  have l: "layouts owned a = Some l" using owner_write(1) by (simp add: layouts_def)
  have "?m x = heap_bytes b x" if "x \<notin> blk (a, l_size l)" for x
    using that owner_write(2) by (intro write_outside) auto
  note w = byte_inv_write [OF inv l this]
  have "contents_ok (owned(a \<mapsto> (l, take i bs @ ws @ drop (i + length ws) bs))) (b\<lparr>heap_bytes := ?m\<rparr>)"
    using contents_ok_keeps [OF _ w(2)] owner_write(1,2,4) bytes_at_write_inside [OF owner_write(2), of a "heap_bytes b"]
    by (auto simp: contents_ok_def)
  moreover have "byte_inv pinv mark mapped F (b\<lparr>heap_bytes := ?m\<rparr>) ((layouts owned)(a \<mapsto> l))" using w(1) l by (simp add: fun_upd_idem)
  ultimately show ?case unfolding fst_conv snd_conv layouts_upd by blast
qed

end

section \<open>Properties\<close>


text \<open>
  C2. Blocks are separate. However its users allocate, give back and write, in every reachable state every
  block in use holds the bytes its owner last wrote: neither the allocator, which keeps its lists inside the free blocks, nor
  another user has changed them. And the heap never gets stuck: \<open>dealloc\<close> of a block in use returns, and
  \<open>alloc\<close> returns but for a full table of large allocations.
\<close>

theorem heap_blocks_separate:
  assumes P: "page_source palloc pdealloc pinv mark mapped" and "pinv pa"
  shows "\<exists>b0 pa0. byte_heap_init p palloc (byte_boot m g) pa = Inr (b0, pa0) \<and>
    (\<forall>b owned. (owner_step p palloc pdealloc)\<^sup>*\<^sup>* (b0\<lparr>page_cell := Some pa0\<rparr>, \<lambda>_. None) (b, owned) \<longrightarrow>
      (\<forall>a l bs. owned a = Some (l, bs) \<longrightarrow> bytes_at a (l_size l) (heap_bytes b) = bs \<and> (\<exists>b'. byte_dealloc p pdealloc b a l = Inr b')) \<and>
      (\<forall>l. layout_ok l \<longrightarrow> (\<exists>a b'. byte_alloc p palloc b l = Inr (a, b')) \<or>
        2048 < max (l_size l) (l_align l) \<and> None \<notin> set (large_slots b)))"
proof -
  obtain b0 pa0 F where b0: "byte_heap_init p palloc (byte_boot m g) pa = Inr (b0, pa0)"
      "byte_inv pinv mark mapped F (b0\<lparr>page_cell := Some pa0\<rparr>) (\<lambda>_. None)"
    using page_source.byte_heap_init_total [OF assms] by blast
  have "(\<forall>a l bs. owned a = Some (l, bs) \<longrightarrow> bytes_at a (l_size l) (heap_bytes b) = bs \<and> (\<exists>b'. byte_dealloc p pdealloc b a l = Inr b')) \<and>
      (\<forall>l. layout_ok l \<longrightarrow> (\<exists>a b'. byte_alloc p palloc b l = Inr (a, b')) \<or> 2048 < max (l_size l) (l_align l) \<and> None \<notin> set (large_slots b))"
    if "(owner_step p palloc pdealloc)\<^sup>*\<^sup>* (b0\<lparr>page_cell := Some pa0\<rparr>, \<lambda>_. None) (b, owned)" for b owned
  proof -
    have "(\<exists>F. byte_inv pinv mark mapped F (fst (b, owned)) (layouts (snd (b, owned)))) \<and> contents_ok (snd (b, owned)) (fst (b, owned))"
      using that
    proof (induction rule: rtranclp_induct)
      case base
      then show ?case using b0(2) by (auto simp: layouts_def contents_ok_def)
    qed (use page_source.owner_step_inv [OF P] in blast)
    then obtain F where inv: "byte_inv pinv mark mapped F b (layouts owned)" and c: "contents_ok owned b" by auto
    have "\<exists>b'. byte_dealloc p pdealloc b a l = Inr b'" if "owned a = Some (l, bs)" for a l bs
      using page_source.byte_dealloc_total [OF P inv, of a l p] that by (auto simp: layouts_def)
    moreover have "(\<exists>a b'. byte_alloc p palloc b l = Inr (a, b')) \<or> 2048 < max (l_size l) (l_align l) \<and> None \<notin> set (large_slots b)"
      if "layout_ok l" for l
      using page_source.byte_alloc_total [OF P inv that, of p] unfolding list_index_None_iff by blast
    ultimately show ?thesis using c unfolding contents_ok_def by blast
  qed
  then show ?thesis using b0(1) by blast
qed

theorem heap_blocks_separate_witness:
  "\<exists>b0 pa0. byte_heap_init Debug (page_alloc Debug x86_std (kernel_traits Debug)) (byte_boot (\<lambda>_. 0) None) example_pages = Inr (b0, pa0) \<and>
    (\<forall>b owned. (owner_step Debug (page_alloc Debug x86_std (kernel_traits Debug)) (page_dealloc Debug x86_std (kernel_traits Debug)))\<^sup>*\<^sup>*
        (b0\<lparr>page_cell := Some pa0\<rparr>, \<lambda>_. None) (b, owned) \<longrightarrow>
      (\<forall>a l bs. owned a = Some (l, bs) \<longrightarrow> bytes_at a (l_size l) (heap_bytes b) = bs \<and>
        (\<exists>b'. byte_dealloc Debug (page_dealloc Debug x86_std (kernel_traits Debug)) b a l = Inr b')) \<and>
      (\<forall>l. layout_ok l \<longrightarrow> (\<exists>a b'. byte_alloc Debug (page_alloc Debug x86_std (kernel_traits Debug)) b l = Inr (a, b')) \<or>
        2048 < max (l_size l) (l_align l) \<and> None \<notin> set (large_slots b)))"
  by (rule heap_blocks_separate [OF kernel_page_source example_pages_inv])

end
