(* ===== verification/Memory_Init.thy ===== *)
theory Memory_Init
  imports Kernel_Heap
begin

text \<open>
  The bring-up of memory (\<^verbatim>\<open>kernel/src/init/memory_init.rs\<close>): \<open>init_memory\<close> puts the
  frame allocator, the page allocator and the heap together. The theorem at the end follows a byte of
  the heap down to physical memory: from the boot memory map to any state of the running heap.

  The state has the statics the code writes: the write-once \<^verbatim>\<open>PHYSICAL_MEMORY_OFFSET\<close> (a \<^verbatim>\<open>spin::Once\<close>,
  here an option), the table \<^verbatim>\<open>ILLEGAL_REGIONS\<close> of \<^verbatim>\<open>memory.rs\<close>, and the heap with the
  page allocator. \<^verbatim>\<open>memory::init\<close> reads the page-table register CR3; the constructor
  \<^verbatim>\<open>OffsetPageTable::new\<close> it calls is the argument \<open>opt\<close>, a function of the table's address and the offset.
\<close>

unbundle bit_operations_syntax

record 'pa memory_state =
  PHYSICAL_MEMORY_OFFSET :: "nat option"
  ILLEGAL_REGIONS :: "AddressRange list"
  heap :: "'pa kheap"

text \<open>
  \<open>call_once\<close> stores the value only the first time; \<open>init_offset\<close> returns its argument in every case.
\<close>

definition init_offset :: "nat \<Rightarrow> 'pa memory_state \<Rightarrow> nat \<times> 'pa memory_state" where
  "init_offset offset ms =
     (offset, case PHYSICAL_MEMORY_OFFSET ms of None \<Rightarrow> ms\<lparr>PHYSICAL_MEMORY_OFFSET := Some offset\<rparr> | Some _ \<Rightarrow> ms)"

text \<open>\<open>wait\<close> spins until the cell is set: \<open>None\<close> is a call that does not return.\<close>

definition get_offset_u64 :: "'pa memory_state \<Rightarrow> nat option" where
  "get_offset_u64 ms = PHYSICAL_MEMORY_OFFSET ms"

text \<open>The frame in CR3 is in bits 12 to 51; the others are flags.\<close>

definition cr3_frame :: "u64 \<Rightarrow> nat" where
  "cr3_frame cr3 = unat (cr3 AND 0x000FFFFFFFFFF000)"

definition active_level_4_table :: "x86_addr_ops \<Rightarrow> u64 \<Rightarrow> nat \<Rightarrow> nat res" where
  "active_level_4_table X cr3 physical_memory_offset = virt_addr_add X physical_memory_offset (cr3_frame cr3)"

definition memory_init :: "x86_addr_ops \<Rightarrow> (nat \<Rightarrow> nat \<Rightarrow> 'm) \<Rightarrow> u64 \<Rightarrow> nat \<Rightarrow> 'm res" where
  "memory_init X opt cr3 physical_memory_offset =
     and_then (active_level_4_table X cr3 physical_memory_offset) (\<lambda>level_4_table.
     Inr (opt level_4_table physical_memory_offset))"

text \<open>The mapping of a page to the frame of the VGA text buffer.\<close>

definition create_example_mapping :: "x86_addr_ops \<Rightarrow> ('m, 'f) paging_traits \<Rightarrow> nat \<Rightarrow> 'm \<Rightarrow> 'f \<Rightarrow> ('m \<times> 'f) res" where
  "create_example_mapping X T page m0 f0 =
     and_then (phys_addr_new X 0xb8000) (\<lambda>a.
     and_then (map_to T m0 page (phys_frame_containing X a) {PRESENT, WRITABLE} f0) (\<lambda>(map_result, m, f).
     case map_result of
       Inr _ \<Rightarrow> Inr (m, f)
     | Inl _ \<Rightarrow> Inl (Panic ''map_to failed'')))"

lemma create_example_mapping_cases:
  assumes "paging X T free finv owned mapping" and "finv f"
  shows "create_example_mapping X T page m f = Inl (Panic ''map_to failed'') \<or>
    (\<exists>m' f'. create_example_mapping X T page m f = Inr (m', f') \<and> finv f' \<and> free f' \<subseteq> free f \<and> mapping m page = None \<and>
      mapping m' = (mapping m)(page \<mapsto> (0xb8000, {PRESENT, WRITABLE})))"
proof -
  have x: "x86_addr X" using assms(1) by (rule paging.axioms(1))
  have "phys_addr_new X 0xb8000 = Inr 0xb8000" "phys_frame_containing X 0xb8000 = 0xb8000"
    using x86_addr.phys_new_ok [OF x] x86_addr.frame_containing [OF x] by (simp_all add: align_down_def)
  moreover obtain r m' f' where "map_to T m page 0xb8000 {PRESENT, WRITABLE} f = Inr (r, m', f')" "finv f'" "free f' \<subseteq> free f"
      "case r of Inl e \<Rightarrow> mapping m' = mapping m
       | Inr _ \<Rightarrow> mapping m page = None \<and> mapping m' = (mapping m)(page \<mapsto> (0xb8000, {PRESENT, WRITABLE}))"
    using paging.map_to_total [OF assms, of m page "0xb8000" "{PRESENT, WRITABLE}"] by blast
  ultimately show ?thesis by (cases r) (simp_all add: create_example_mapping_def)
qed

text \<open>The part of the boot information that \<open>init_memory\<close> reads.\<close>

record boot_memory =
  physical_memory_offset :: "nat option"
  memory_regions :: "memory_region list"

definition init_memory ::
    "profile \<Rightarrow> x86_addr_ops \<Rightarrow> 'b bit_slice_ops \<Rightarrow> ('m, 'b bitmap_frame_allocator) paging_traits \<Rightarrow> (nat \<Rightarrow> nat \<Rightarrow> 'm) \<Rightarrow> u64 \<Rightarrow>
     (nat \<Rightarrow> u8) \<Rightarrow> boot_memory \<Rightarrow> ('m, 'b bitmap_frame_allocator) page_allocator memory_state \<Rightarrow>
     ('m, 'b bitmap_frame_allocator) page_allocator memory_state res" where
  "init_memory p X B T opt cr3 mem boot_info ms =
     (case physical_memory_offset boot_info of
        None \<Rightarrow> Inl (Panic ''Physical memory offset not provided by bootloader'')
      | Some off \<Rightarrow>
          and_then (virt_addr_new X off) (\<lambda>va.
          let (offset, ms1) = init_offset va ms in
          and_then (virt_addr_new X offset) (\<lambda>va1.
          and_then (memory_init X opt cr3 va1) (\<lambda>mapper.
          and_then (bitmap_init p B mem (ILLEGAL_REGIONS ms1) (memory_regions boot_info) offset) (\<lambda>(alloc, illegal).
          let g = init_page_allocator mapper alloc (PAGE_ALLOCATOR (heap ms1)) in
          and_then (expect g ''PAGE_ALLOCATOR not initialized'') (\<lambda>pa.
          and_then (init_heap_experimental p (page_alloc p X T) ((heap ms1)\<lparr>PAGE_ALLOCATOR := g\<rparr>) pa) (\<lambda>(r, h, pa').
            case r of
              Inl _ \<Rightarrow> Inl (Panic ''heap initialization failed'')
            | Inr _ \<Rightarrow> Inr (ms1\<lparr>ILLEGAL_REGIONS := illegal, heap := h\<lparr>PAGE_ALLOCATOR := Some pa'\<rparr>\<rparr>))))))))"

text \<open>The traits of the kernel's page allocator: the bitmap frame allocator and a mapper.\<close>

definition bitmap_paging where
  "bitmap_paging p X B mt um = \<lparr>fa_allocate = allocate_frame p X B, fa_deallocate = deallocate_frame p B,
     map_to = mt, unmap = um\<rparr>"


section \<open>From the boot memory map to the running heap\<close>

text \<open>What the heap may rely on in every state: see the theorem below.\<close>

definition heap_sound ::
    "('m \<Rightarrow> page_map) \<Rightarrow> nat set \<Rightarrow> ('m, 'f) page_allocator kheap \<Rightarrow> (nat \<rightharpoonup> layout) \<Rightarrow> bool" where
  "heap_sound mapping G h live \<longleftrightarrow> (\<exists>pa. PAGE_ALLOCATOR h = Some pa \<and> heap_safe (heap_pages mapping pa) live \<and>
     frames_of (mapping (pa_mapper pa)) (heap_pages mapping pa) \<subseteq> G \<and>
     (\<forall>pg\<in>heap_pages mapping pa. \<forall>pg'\<in>heap_pages mapping pa. \<forall>x fl fl'.
        mapping (pa_mapper pa) pg = Some (x, fl) \<and> mapping (pa_mapper pa) pg' = Some (x, fl') \<longrightarrow> pg = pg'))"

lemma heap_inv_sound:
  assumes "heap_inv (pa_inv G free finv owned mapping) current_virt (heap_pages mapping) F h live"
  shows "heap_sound mapping G h live"
proof -
  obtain pa where "PAGE_ALLOCATOR h = Some pa" "pa_inv G free finv owned mapping pa"
    using assms by (rule heap_invE)
  moreover have "\<exists>pa. PAGE_ALLOCATOR h = Some pa \<and> heap_safe (heap_pages mapping pa) live"
    by (rule heap_inv_safe [OF assms])
  ultimately show ?thesis by (auto simp: heap_sound_def pa_inv_def frames_private_def)
qed

context paging
begin

lemma pages_page_source:
  "page_source (page_alloc p X T) (page_dealloc p X T) (pa_inv G free inv owned mapping) current_virt (heap_pages mapping)"
  by (rule pages.page_source_axioms)

end

lemma heap_boot_install [simp]: "heap_boot nx g\<lparr>PAGE_ALLOCATOR := v\<rparr> = heap_boot nx v"
  by (simp add: heap_boot_def)

lemma init_memory_total:
  assumes P: "paging X T (free_frames B) (bfa_inv B) managed_frames mapping" and "canonical offset"
    and boot: "physical_memory_offset bi = Some offset" and "canonical (offset + cr3_frame cr3)"
    and init: "bitmap_init p B mem (ILLEGAL_REGIONS ms) (memory_regions bi) offset = Inr (a, ill)" "bfa_inv B a"
    and unmapped: "\<forall>pg\<ge>KERNEL_HEAP_START. mapping (opt (offset + cr3_frame cr3) offset) pg = None"
    and h0: "heap ms = heap_boot nx g"
  shows "\<exists>ms' F. init_memory p X B T opt cr3 mem bi ms = Inr ms' \<and>
    PHYSICAL_MEMORY_OFFSET ms' = (case PHYSICAL_MEMORY_OFFSET ms of None \<Rightarrow> Some offset | Some x \<Rightarrow> Some x) \<and>
    heap_inv (pa_inv (free_frames B a) (free_frames B) (bfa_inv B) managed_frames mapping) current_virt
      (heap_pages mapping) F (heap ms') (\<lambda>_. None)"
proof -
  let ?inv = "pa_inv (free_frames B a) (free_frames B) (bfa_inv B) managed_frames mapping"
  let ?pa = "page_allocator_new (opt (offset + cr3_frame cr3) offset) a KERNEL_HEAP_START KERNEL_HEAP_END"
  have pa: "?inv ?pa" by (rule page_allocator_new_inv) (use init(2) unmapped in auto)
  have v: "virt_addr_new X offset = Inr offset"
    using x86_addr.virt_new_ok [OF paging.axioms(1) [OF P] assms(2)] .
  have m: "memory_init X opt cr3 offset = Inr (opt (offset + cr3_frame cr3) offset)"
    using x86_addr.virt_add_ok [OF paging.axioms(1) [OF P] assms(4)] by (simp add: memory_init_def active_level_4_table_def)
  have src: "page_source (page_alloc p X T) (page_dealloc p X T) ?inv current_virt (heap_pages mapping)"
    by (rule paging.pages_page_source [OF P])
  obtain h pa' F where H: "heap_init p (page_alloc p X T) (heap_boot nx (Some ?pa)) ?pa = Inr (h, pa')"
    "heap_inv ?inv current_virt (heap_pages mapping) F (h\<lparr>PAGE_ALLOCATOR := Some pa'\<rparr>) (\<lambda>_. None)"
    using page_source.heap_init_total [OF src pa, of p nx "Some ?pa"] by blast
  have hp: "heap (snd (init_offset offset ms)) = heap_boot nx g"
    and ill: "ILLEGAL_REGIONS (snd (init_offset offset ms)) = ILLEGAL_REGIONS ms"
    using h0 by (auto simp: init_offset_def split: option.splits)
  let ?ms = "(snd (init_offset offset ms))\<lparr>ILLEGAL_REGIONS := ill, heap := h\<lparr>PAGE_ALLOCATOR := Some pa'\<rparr>\<rparr>"
  have "init_memory p X B T opt cr3 mem bi ms = Inr ?ms"
    using boot v m init(1) hp ill H(1)
    by (simp add: init_memory_def init_offset_def init_page_allocator_def init_heap_experimental_def Let_def split: prod.splits)
  moreover have "PHYSICAL_MEMORY_OFFSET ?ms = (case PHYSICAL_MEMORY_OFFSET ms of None \<Rightarrow> Some offset | Some x \<Rightarrow> Some x)"
    by (simp add: init_offset_def split: option.splits)
  ultimately show ?thesis using H(2) by (intro exI [of _ ?ms] exI [of _ F]) simp
qed


text \<open>
  C1. From the boot memory map to the running heap. When the bootloader gives an offset and a valid
  memory map with room for the bitmap, and nothing is mapped in the heap area, \<open>init_memory\<close> returns.
  From then on, whatever the users of the heap allocate, give back and write, in any order: every block
  in use is non-null, aligned (up to a page), in mapped memory and disjoint from every other block in
  use; no two pages of the heap share a frame; and every frame behind the heap overlaps a usable region
  of the memory map and neither the bitmap, nor the range from 1 MiB to 16 MiB, nor a region that is not usable.
\<close>

theorem init_memory_heap_sound:
  assumes "bit_slice B"
    and P: "paging X (bitmap_paging p X B mt um) (free_frames B) (bfa_inv B) managed_frames mapping"
    and boot: "physical_memory_offset bi = Some offset" "canonical offset" "canonical (offset + cr3_frame cr3)"
    and map: "valid_memory_map (memory_regions bi) offset" "length (ILLEGAL_REGIONS ms) = MAX_ILLEGAL"
      "length (filter (\<lambda>r. r_kind r \<noteq> Usable) (memory_regions bi)) < MAX_ILLEGAL"
      "\<exists>r\<in>set (memory_regions bi).
         holds_bitmap (fill_illegal (memory_regions bi) (ILLEGAL_REGIONS ms)) (map_bytes_needed (memory_regions bi)) r"
    and unmapped: "\<forall>pg\<ge>KERNEL_HEAP_START. mapping (opt (offset + cr3_frame cr3) offset) pg = None"
    and h0: "heap ms = heap_boot nx g"
  shows "\<exists>ms' bm. init_memory p X B (bitmap_paging p X B mt um) opt cr3 mem bi ms = Inr ms' \<and>
    find_region_base p (fill_illegal (memory_regions bi) (ILLEGAL_REGIONS ms)) (map_bytes_needed (memory_regions bi))
      (memory_regions bi) = Inr (Some bm) \<and>
    (\<forall>h live. (heap_step p (page_alloc p X (bitmap_paging p X B mt um)) (page_dealloc p X (bitmap_paging p X B mt um)))\<^sup>*\<^sup>*
        (heap ms', \<lambda>_. None) (h, live) \<longrightarrow>
      heap_sound mapping {f. harmless_frame (memory_regions bi) bm f} h live)"
proof -
  let ?T = "bitmap_paging p X B mt um"
  obtain a bm where init: "bitmap_init p B mem (ILLEGAL_REGIONS ms) (memory_regions bi) offset =
      Inr (a, fill_illegal (memory_regions bi) (ILLEGAL_REGIONS ms))" "bfa_inv B a"
    and bm: "find_region_base p (fill_illegal (memory_regions bi) (ILLEGAL_REGIONS ms)) (map_bytes_needed (memory_regions bi))
      (memory_regions bi) = Inr (Some bm)" "\<forall>f\<in>free_frames B a. harmless_frame (memory_regions bi) bm f"
    using bitmap_init_safe [OF assms(1) map, of p mem] by blast
  let ?inv = "pa_inv (free_frames B a) (free_frames B) (bfa_inv B) managed_frames mapping"
  obtain ms' F where M: "init_memory p X B ?T opt cr3 mem bi ms = Inr ms'"
    "heap_inv ?inv current_virt (heap_pages mapping) F (heap ms') (\<lambda>_. None)"
    using init_memory_total [where opt = opt, OF P boot(2,1,3) init unmapped h0] by blast
  have "heap_sound mapping {f. harmless_frame (memory_regions bi) bm f} h live"
    if steps: "(heap_step p (page_alloc p X ?T) (page_dealloc p X ?T))\<^sup>*\<^sup>* (heap ms', \<lambda>_. None) (h, live)" for h live
  proof -
    have src: "page_source (page_alloc p X ?T) (page_dealloc p X ?T) ?inv current_virt (heap_pages mapping)"
      by (rule paging.pages_page_source [OF P])
    have "\<exists>F. heap_inv ?inv current_virt (heap_pages mapping) F h live"
      using page_source.heap_steps_inv [OF src steps] M(2) by auto
    then have "heap_sound mapping (free_frames B a) h live" using heap_inv_sound by blast
    then show ?thesis using bm(2) by (fastforce simp: heap_sound_def)
  qed
  with M(1) bm(1) show ?thesis by blast
qed

lemma kernel_traits_bitmap: "kernel_traits p = bitmap_paging p x86_std lsb0 flat_map_to flat_unmap"
  by (simp add: kernel_traits_def bitmap_paging_def)

theorem init_memory_heap_sound_witness:
  "\<exists>ms' bm. init_memory Debug x86_std lsb0 (bitmap_paging Debug x86_std lsb0 flat_map_to flat_unmap) (\<lambda>_ _ _. None) 0x101000 (\<lambda>_. 0)
      \<lparr>physical_memory_offset = Some example_offset, memory_regions = example_map\<rparr>
      \<lparr>PHYSICAL_MEMORY_OFFSET = None, ILLEGAL_REGIONS = ILLEGAL_REGIONS_init, heap = heap_boot (\<lambda>_. None) None\<rparr> = Inr ms' \<and>
    (\<forall>h live. (heap_step Debug (page_alloc Debug x86_std (kernel_traits Debug)) (page_dealloc Debug x86_std (kernel_traits Debug)))\<^sup>*\<^sup>*
        (heap ms', \<lambda>_. None) (h, live) \<longrightarrow>
      heap_sound id {f. harmless_frame example_map bm f} h live)"
proof -
  let ?bi = "\<lparr>physical_memory_offset = Some example_offset, memory_regions = example_map\<rparr>"
  let ?ms = "\<lparr>PHYSICAL_MEMORY_OFFSET = None, ILLEGAL_REGIONS = ILLEGAL_REGIONS_init, heap = heap_boot (\<lambda>_. None) None\<rparr>"
  note P = kernel_paging.paging_axioms [of Debug, unfolded kernel_traits_bitmap]
  have "canonical example_offset" "canonical (example_offset + cr3_frame 0x101000)"
    by (simp_all add: canonical_def example_offset_def cr3_frame_def)
  then show ?thesis
    using init_memory_heap_sound [OF lsb0.bit_slice_axioms P, of ?bi example_offset "0x101000" ?ms "\<lambda>_ _ _. None" "\<lambda>_. None" None "\<lambda>_. 0"]
      example_map_valid example_illegal_fits example_holds_bitmap
    unfolding kernel_traits_bitmap by simp blast
qed

end
