(* ===== verification/Segment_Tables.thy ===== *)
theory Segment_Tables
  imports Frame_Memory
begin

text \<open>
  The segment descriptors (\<^verbatim>\<open>kernel/src/gdt.rs\<close>): the task state segment with the stack of the
  double fault handler, the descriptor table and the registers \<open>init\<close> loads; and \<open>ap_startup\<close>
  (\<^verbatim>\<open>init/multicore.rs\<close>), which loads them on another processor.

  The tables are those of the crate \<^verbatim>\<open>x86_64\<close>: a record of its operations and, as the locale \<open>gdt_crate\<close>, what it
  documents of them. The statics are lazy, without arguments and never written, so they are values.
  Loading a register from the table faults unless the table has a descriptor of the right kind there.
  \<open>load_tss\<close> marks the descriptor as busy, in the table, which all processors share, and faults if it
  is busy already; \<open>busy\<close> is the set of selectors so marked.
\<close>

datatype segment_kind = Code_Segment | Data_Segment | Task_Segment

record tss =
  interrupt_stack_table :: "nat list"

record ('g, 'd) gdt_ops =
  gdt_new :: 'g
  gdt_append :: "'g \<Rightarrow> 'd \<Rightarrow> (u16 \<times> 'g) res"
  gdt_lookup :: "'g \<Rightarrow> u16 \<rightharpoonup> 'd"
  segment_kind :: "'d \<Rightarrow> segment_kind"
  kernel_code_segment :: 'd
  kernel_data_segment :: 'd
  tss_segment :: "tss \<Rightarrow> 'd"
  tss_new :: tss

definition DOUBLE_FAULT_IST_INDEX :: nat where "DOUBLE_FAULT_IST_INDEX = 0"
definition STACK_SIZE :: nat where "STACK_SIZE = 4096 * 5"

text \<open>\<open>STACK\<close> is the address of the static of this name, which the linker chooses.\<close>

definition TSS :: "x86_addr_ops \<Rightarrow> ('g, 'd) gdt_ops \<Rightarrow> nat \<Rightarrow> tss res" where
  "TSS X G STACK =
     (let t = tss_new G in
      and_then (virt_addr_new X STACK) (\<lambda>stack_start.
      and_then (virt_addr_add X stack_start STACK_SIZE) (\<lambda>stack_end.
      if DOUBLE_FAULT_IST_INDEX < length (interrupt_stack_table t)
      then Inr (t\<lparr>interrupt_stack_table := (interrupt_stack_table t)[DOUBLE_FAULT_IST_INDEX := stack_end]\<rparr>)
      else Inl Index_Out_Of_Bounds)))"

record Selectors =
  code_selector :: u16
  data_selector :: u16
  tss_selector :: u16

definition GDT :: "x86_addr_ops \<Rightarrow> ('g, 'd) gdt_ops \<Rightarrow> nat \<Rightarrow> ('g \<times> Selectors) res" where
  "GDT X G STACK =
     and_then (gdt_append G (gdt_new G) (kernel_code_segment G)) (\<lambda>(code, g1).
     and_then (gdt_append G g1 (kernel_data_segment G)) (\<lambda>(data, g2).
     and_then (TSS X G STACK) (\<lambda>t.
     and_then (gdt_append G g2 (tss_segment G t)) (\<lambda>(tss, g3).
     Inr (g3, \<lparr>code_selector = code, data_selector = data, tss_selector = tss\<rparr>)))))"


section \<open>Loading the registers\<close>

datatype segment_register = Reg_CS | Reg_DS | Reg_ES | Reg_FS | Reg_GS | Reg_SS | Reg_TR

record 'g segment_cpu =
  gdtr :: "'g option"
  segment_regs :: "segment_register \<Rightarrow> u16"

definition descriptor_at :: "('g, 'd) gdt_ops \<Rightarrow> 'g segment_cpu \<Rightarrow> u16 \<Rightarrow> 'd option" where
  "descriptor_at G c sel = (case gdtr c of None \<Rightarrow> None | Some g \<Rightarrow> gdt_lookup G g sel)"

definition set_reg :: "('g, 'd) gdt_ops \<Rightarrow> segment_register \<Rightarrow> u16 \<Rightarrow> 'g segment_cpu \<Rightarrow> 'g segment_cpu res" where
  "set_reg G r sel c =
     (case descriptor_at G c sel of
        None \<Rightarrow> Inl Cpu_Fault
      | Some d \<Rightarrow>
          if segment_kind G d = (if r = Reg_CS then Code_Segment else Data_Segment)
          then Inr (c\<lparr>segment_regs := (segment_regs c)(r := sel)\<rparr>) else Inl Cpu_Fault)"

definition load_tss :: "('g, 'd) gdt_ops \<Rightarrow> u16 \<Rightarrow> u16 set \<times> 'g segment_cpu \<Rightarrow> (u16 set \<times> 'g segment_cpu) res" where
  "load_tss G sel = (\<lambda>(busy, c).
     case descriptor_at G c sel of
       None \<Rightarrow> Inl Cpu_Fault
     | Some d \<Rightarrow>
         if segment_kind G d = Task_Segment \<and> sel \<notin> busy
         then Inr (insert sel busy, c\<lparr>segment_regs := (segment_regs c)(Reg_TR := sel)\<rparr>) else Inl Cpu_Fault)"

definition gdt_init :: "x86_addr_ops \<Rightarrow> ('g, 'd) gdt_ops \<Rightarrow> nat \<Rightarrow> u16 set \<times> 'g segment_cpu \<Rightarrow>
    (u16 set \<times> 'g segment_cpu) res" where
  "gdt_init X G STACK = (\<lambda>(busy, c).
     and_then (GDT X G STACK) (\<lambda>(g, s).
     let c0 = c\<lparr>gdtr := Some g\<rparr> in
     and_then (set_reg G Reg_CS (code_selector s) c0) (\<lambda>c1.
     and_then (set_reg G Reg_DS (data_selector s) c1) (\<lambda>c2.
     and_then (set_reg G Reg_ES (data_selector s) c2) (\<lambda>c3.
     and_then (set_reg G Reg_FS (data_selector s) c3) (\<lambda>c4.
     and_then (set_reg G Reg_GS (data_selector s) c4) (\<lambda>c5.
     and_then (set_reg G Reg_SS (data_selector s) c5) (\<lambda>c6.
     load_tss G (tss_selector s) (busy, c6)))))))))"

text \<open>What the other processors run: it loads the tables and then loops forever.\<close>

definition ap_startup :: "x86_addr_ops \<Rightarrow> ('g, 'd) gdt_ops \<Rightarrow> nat \<Rightarrow> u16 set \<times> 'g segment_cpu \<Rightarrow> unit res option" where
  "ap_startup X G STACK s = o_then (Some (gdt_init X G STACK s)) (\<lambda>_. None)"


section \<open>What the crate promises\<close>

text \<open>
  The table has eight entries, the first of which is never used; a code or data segment takes one, a task state
  segment two. A descriptor that fits is entered under a new selector. The interrupt stack table has
  seven entries.
\<close>

locale gdt_crate =
  fixes G :: "('g, 'd) gdt_ops" and room :: "'g \<Rightarrow> nat" and slots :: "'d \<Rightarrow> nat"
  assumes new_room: "room (gdt_new G) = 7"
    and append_ok: "slots d \<le> room g \<Longrightarrow> \<exists>sel g'. gdt_append G g d = Inr (sel, g') \<and> gdt_lookup G g sel = None \<and>
      gdt_lookup G g' = (gdt_lookup G g)(sel \<mapsto> d) \<and> room g' = room g - slots d"
    and kinds: "segment_kind G (kernel_code_segment G) = Code_Segment" "segment_kind G (kernel_data_segment G) = Data_Segment"
      "segment_kind G (tss_segment G t) = Task_Segment"
    and slots: "slots (kernel_code_segment G) = 1" "slots (kernel_data_segment G) = 1" "slots (tss_segment G t) = 2"
    and tss_len: "length (interrupt_stack_table (tss_new G)) = 7"
begin

lemma TSS_ok:
  assumes "x86_addr X" and "canonical STACK" and "canonical (STACK + STACK_SIZE)"
  shows "\<exists>t. TSS X G STACK = Inr t \<and>
    interrupt_stack_table t = (interrupt_stack_table (tss_new G))[0 := STACK + STACK_SIZE]"
  using x86_addr.virt_new_ok [OF assms(1,2)] x86_addr.virt_add_ok [OF assms(1,3)] tss_len
  by (auto simp: TSS_def DOUBLE_FAULT_IST_INDEX_def Let_def)

lemma GDT_ok:
  assumes "TSS X G STACK = Inr t"
  shows "\<exists>g s. GDT X G STACK = Inr (g, s) \<and> gdt_lookup G g (code_selector s) = Some (kernel_code_segment G) \<and>
    gdt_lookup G g (data_selector s) = Some (kernel_data_segment G) \<and> gdt_lookup G g (tss_selector s) = Some (tss_segment G t)"
proof -
  obtain code g1 where 1: "gdt_append G (gdt_new G) (kernel_code_segment G) = Inr (code, g1)" "room g1 = 6"
      "gdt_lookup G g1 = (gdt_lookup G (gdt_new G))(code \<mapsto> kernel_code_segment G)"
    using append_ok [of "kernel_code_segment G" "gdt_new G"] by (auto simp: slots new_room)
  obtain data g2 where 2: "gdt_append G g1 (kernel_data_segment G) = Inr (data, g2)" "room g2 = 5" "gdt_lookup G g1 data = None"
      "gdt_lookup G g2 = (gdt_lookup G g1)(data \<mapsto> kernel_data_segment G)"
    using append_ok [of "kernel_data_segment G" g1] 1(2) by (auto simp: slots)
  obtain tss g3 where 3: "gdt_append G g2 (tss_segment G t) = Inr (tss, g3)" "gdt_lookup G g2 tss = None"
      "gdt_lookup G g3 = (gdt_lookup G g2)(tss \<mapsto> tss_segment G t)"
    using append_ok [of "tss_segment G t" g2] 2(2) by (auto simp: slots)
  show ?thesis using assms 1 2 3 by (auto simp: GDT_def split: if_splits)
qed

lemma gdt_init_eq:
  assumes "TSS X G STACK = Inr t"
  shows "\<exists>g s. GDT X G STACK = Inr (g, s) \<and> gdt_lookup G g (code_selector s) = Some (kernel_code_segment G) \<and>
    gdt_lookup G g (data_selector s) = Some (kernel_data_segment G) \<and> gdt_lookup G g (tss_selector s) = Some (tss_segment G t) \<and>
    (\<forall>busy c. gdt_init X G STACK (busy, c) =
      (if tss_selector s \<in> busy then Inl Cpu_Fault
       else Inr (insert (tss_selector s) busy, c\<lparr>gdtr := Some g, segment_regs := (\<lambda>r. case r of
         Reg_CS \<Rightarrow> code_selector s | Reg_TR \<Rightarrow> tss_selector s | _ \<Rightarrow> data_selector s)\<rparr>)))"
proof -
  obtain g s where g: "GDT X G STACK = Inr (g, s)" "gdt_lookup G g (code_selector s) = Some (kernel_code_segment G)"
      "gdt_lookup G g (data_selector s) = Some (kernel_data_segment G)" "gdt_lookup G g (tss_selector s) = Some (tss_segment G t)"
    using GDT_ok [OF assms] by blast
  have regs: "(segment_regs c)(Reg_CS := x, Reg_DS := y, Reg_ES := y, Reg_FS := y, Reg_GS := y, Reg_SS := y, Reg_TR := z) =
      (\<lambda>r. case r of Reg_CS \<Rightarrow> x | Reg_TR \<Rightarrow> z | _ \<Rightarrow> y)" for c :: "'g segment_cpu" and x y z
    by (rule ext) (simp split: segment_register.split)
  show ?thesis using g by (auto simp: gdt_init_def set_reg_def load_tss_def descriptor_at_def kinds Let_def regs)
qed

end

text \<open>A table as the crate has it; the first entry and the second half of a task state segment hold no descriptor.\<close>

datatype gdt_descriptor = Kernel_Code | Kernel_Data | Tss_At tss

definition descriptor_entries :: "gdt_descriptor \<Rightarrow> gdt_descriptor option list" where
  "descriptor_entries d = (case d of Tss_At _ \<Rightarrow> [Some d, None] | _ \<Rightarrow> [Some d])"

definition list_gdt :: "(gdt_descriptor option list, gdt_descriptor) gdt_ops" where
  "list_gdt = \<lparr>gdt_new = [None],
     gdt_append = (\<lambda>g d. if length g + length (descriptor_entries d) \<le> 8
       then Inr (of_nat (8 * length g), g @ descriptor_entries d) else Inl (Panic ''GDT full'')),
     gdt_lookup = (\<lambda>g sel. let i = unat sel div 8 in if unat sel mod 8 = 0 \<and> i < length g then g ! i else None),
     segment_kind = (\<lambda>d. case d of Kernel_Code \<Rightarrow> Code_Segment | Kernel_Data \<Rightarrow> Data_Segment | Tss_At _ \<Rightarrow> Task_Segment),
     kernel_code_segment = Kernel_Code, kernel_data_segment = Kernel_Data, tss_segment = Tss_At,
     tss_new = \<lparr>interrupt_stack_table = replicate 7 0\<rparr>\<rparr>"

lemma list_gdt_append:
  assumes "length g < 8"
  shows "gdt_lookup list_gdt (g @ descriptor_entries d) = (gdt_lookup list_gdt g)(of_nat (8 * length g) \<mapsto> d)"
proof (rule ext)
  fix sel :: u16
  have u: "unat (of_nat (8 * length g) :: u16) = 8 * length g" using assms by (subst unat_of_nat) simp
  show "gdt_lookup list_gdt (g @ descriptor_entries d) sel = ((gdt_lookup list_gdt g)(of_nat (8 * length g) \<mapsto> d)) sel"
  proof (cases "sel = of_nat (8 * length g)")
    case True
    then show ?thesis using u by (simp add: list_gdt_def descriptor_entries_def Let_def nth_append split: gdt_descriptor.split)
  next
    case False
    then have "unat sel \<noteq> 8 * length g" using u by (metis word_eq_iff_unsigned)
    then have "unat sel mod 8 = 0 \<Longrightarrow> unat sel div 8 \<noteq> length g" by (metis mult_div_mod_eq add_0_right)
    then show ?thesis using False
      by (auto simp: list_gdt_def descriptor_entries_def Let_def nth_append nth_Cons' split: gdt_descriptor.splits)
  qed
qed

interpretation list_gdt: gdt_crate list_gdt "\<lambda>g. 8 - length g" "\<lambda>d. length (descriptor_entries d)"
proof unfold_locales
  fix d and g :: "gdt_descriptor option list"
  assume fits: "length (descriptor_entries d) \<le> 8 - length g"
  then have g: "length g < 8" by (auto simp: descriptor_entries_def split: gdt_descriptor.splits)
  then have "unat (of_nat (8 * length g) :: u16) = 8 * length g" by (subst unat_of_nat) simp
  then have "gdt_lookup list_gdt g (of_nat (8 * length g)) = None" by (simp add: list_gdt_def)
  then show "\<exists>sel g'. gdt_append list_gdt g d = Inr (sel, g') \<and> gdt_lookup list_gdt g sel = None \<and>
      gdt_lookup list_gdt g' = (gdt_lookup list_gdt g)(sel \<mapsto> d) \<and> 8 - length g' = 8 - length g - length (descriptor_entries d)"
    using list_gdt_append [OF g] fits g
    by (intro exI [of _ "of_nat (8 * length g)"] exI [of _ "g @ descriptor_entries d"]) (simp add: list_gdt_def)
qed (simp_all add: list_gdt_def descriptor_entries_def)


text \<open>The first time, the registers are loaded and the task register gives the stack of the double fault.\<close>

lemma gdt_init_tss:
  assumes "gdt_crate G room slots" and "x86_addr X" and "canonical STACK" and "canonical (STACK + STACK_SIZE)" and "fst s = {}"
  shows "\<exists>busy c' t. gdt_init X G STACK s = Inr (busy, c') \<and>
    descriptor_at G c' (segment_regs c' Reg_TR) = Some (tss_segment G t) \<and>
    interrupt_stack_table t ! 0 = STACK + STACK_SIZE \<and> 0 < length (interrupt_stack_table t)"
proof -
  obtain t where t: "TSS X G STACK = Inr t" "interrupt_stack_table t = (interrupt_stack_table (tss_new G))[0 := STACK + STACK_SIZE]"
    using gdt_crate.TSS_ok [OF assms(1-4)] by blast
  then have "interrupt_stack_table t ! 0 = STACK + STACK_SIZE" "0 < length (interrupt_stack_table t)"
    using gdt_crate.tss_len [OF assms(1)] by (auto simp: nth_list_update)
  then show ?thesis using gdt_crate.gdt_init_eq [OF assms(1) t(1)] assms(5)
    by (cases s) (auto simp: descriptor_at_def intro!: exI [of _ t])
qed


section \<open>Properties\<close>

text \<open>
  C30. \<open>gdt::init\<close> on the first processor. It returns, with the code segment register on the kernel's code
  descriptor, the five data segment registers on its data descriptor, and the task register on the
  descriptor of a task state segment whose entry for double faults is the end of the 20 KiB stack and whose
  other entries are unchanged.
\<close>

theorem gdt_init_loads:
  assumes "gdt_crate G room slots" and "x86_addr X" and "canonical STACK" and "canonical (STACK + STACK_SIZE)"
  shows "\<exists>busy c' t. gdt_init X G STACK ({}, c) = Inr (busy, c') \<and>
    descriptor_at G c' (segment_regs c' Reg_CS) = Some (kernel_code_segment G) \<and>
    (\<forall>r. r \<noteq> Reg_CS \<and> r \<noteq> Reg_TR \<longrightarrow> descriptor_at G c' (segment_regs c' r) = Some (kernel_data_segment G)) \<and>
    descriptor_at G c' (segment_regs c' Reg_TR) = Some (tss_segment G t) \<and>
    interrupt_stack_table t = (interrupt_stack_table (tss_new G))[DOUBLE_FAULT_IST_INDEX := STACK + 20480]"
proof -
  obtain t where t: "TSS X G STACK = Inr t" "interrupt_stack_table t = (interrupt_stack_table (tss_new G))[0 := STACK + STACK_SIZE]"
    using gdt_crate.TSS_ok [OF assms] by blast
  then show ?thesis using gdt_crate.gdt_init_eq [OF assms(1) t(1)]
    by (auto simp: descriptor_at_def DOUBLE_FAULT_IST_INDEX_def STACK_SIZE_def split: segment_register.splits)
qed

definition reset_cpu :: "'g segment_cpu" where
  "reset_cpu = \<lparr>gdtr = None, segment_regs = (\<lambda>_. 0)\<rparr>"

theorem gdt_init_loads_witness:
  "\<exists>busy c' t. gdt_init x86_std list_gdt 0xFFFFFF8000200000 ({}, reset_cpu) = Inr (busy, c') \<and>
    descriptor_at list_gdt c' (segment_regs c' Reg_TR) = Some (Tss_At t) \<and>
    interrupt_stack_table t ! DOUBLE_FAULT_IST_INDEX = 0xFFFFFF8000205000"
  using gdt_init_loads [OF list_gdt.gdt_crate_axioms x86_std.x86_addr_axioms, of "0xFFFFFF8000200000" reset_cpu]
  by (auto simp: canonical_def STACK_SIZE_def list_gdt_def DOUBLE_FAULT_IST_INDEX_def)

text \<open>
  C31. \<open>ap_startup\<close> cannot load the tables. Whatever the processors did before, once one of them has run
  \<open>gdt::init\<close>, every other one faults there: they share one task state segment, and its descriptor is busy.
\<close>

theorem ap_startup_faults:
  assumes "gdt_crate G room slots" and "x86_addr X" and "canonical STACK" and "canonical (STACK + STACK_SIZE)"
    and "gdt_init X G STACK (busy, c) = Inr (busy', c')" and "busy' \<subseteq> busy2"
  shows "ap_startup X G STACK (busy2, c2) = Some (Inl Cpu_Fault)"
proof -
  obtain t where t: "TSS X G STACK = Inr t" using gdt_crate.TSS_ok [OF assms(1-4)] by blast
  obtain g and s :: Selectors where s: "\<And>busy c. gdt_init X G STACK (busy, c) =
      (if tss_selector s \<in> busy then Inl Cpu_Fault
       else Inr (insert (tss_selector s) busy, c\<lparr>gdtr := Some g, segment_regs := (\<lambda>r. case r of
         Reg_CS \<Rightarrow> code_selector s | Reg_TR \<Rightarrow> tss_selector s | _ \<Rightarrow> data_selector s)\<rparr>))"
    using gdt_crate.gdt_init_eq [OF assms(1) t] by blast
  have "tss_selector s \<in> busy2" using assms(5,6) by (auto simp: s split: if_splits)
  then show ?thesis by (simp add: ap_startup_def s)
qed

theorem ap_startup_faults_witness:
  "\<exists>busy c'. gdt_init x86_std list_gdt 0xFFFFFF8000200000 ({}, reset_cpu) = Inr (busy, c') \<and>
    ap_startup x86_std list_gdt 0xFFFFFF8000200000 (busy, reset_cpu) = Some (Inl Cpu_Fault)"
proof -
  have can: "canonical 0xFFFFFF8000200000" "canonical (0xFFFFFF8000200000 + STACK_SIZE)" by (simp_all add: canonical_def STACK_SIZE_def)
  obtain t where t: "TSS x86_std list_gdt 0xFFFFFF8000200000 = Inr t"
    using list_gdt.TSS_ok [OF x86_std.x86_addr_axioms can] by blast
  then obtain busy c' where "gdt_init x86_std list_gdt 0xFFFFFF8000200000 ({}, reset_cpu) = Inr (busy, c')"
    using list_gdt.gdt_init_eq [OF t] by auto
  then show ?thesis
    using ap_startup_faults [OF list_gdt.gdt_crate_axioms x86_std.x86_addr_axioms can] by blast
qed

end
