(* ===== verification/Array_Queue.thy ===== *)
theory Array_Queue
  imports Kernel_Prelude
begin

text \<open>
  \<^verbatim>\<open>crossbeam_queue::ArrayQueue\<close>, the bounded queue between the interrupt handlers, the wakers and
  the executor. The crate is not part of the kernel: its operations are a record, and the locale
  \<open>array_queue\<close> states what its documentation promises, a first-in first-out queue of fixed capacity
  whose \<open>push\<close> fails, and leaves the queue alone, when it is full.
\<close>

record ('q, 'a) array_queue_ops =
  aq_new :: "nat \<Rightarrow> 'q"
  aq_push :: "'q \<Rightarrow> 'a \<Rightarrow> bool \<times> 'q"
  aq_pop :: "'q \<Rightarrow> 'a option \<times> 'q"
  aq_is_empty :: "'q \<Rightarrow> bool"

locale array_queue =
  fixes Q :: "('q, 'a) array_queue_ops" and elems :: "'q \<Rightarrow> 'a list" and cap :: "'q \<Rightarrow> nat"
  assumes new_elems: "0 < n \<Longrightarrow> elems (aq_new Q n) = []"
    and new_cap: "0 < n \<Longrightarrow> cap (aq_new Q n) = n"
    and push_room: "length (elems q) < cap q \<Longrightarrow>
      \<exists>q'. aq_push Q q x = (True, q') \<and> elems q' = elems q @ [x] \<and> cap q' = cap q"
    and push_full: "cap q \<le> length (elems q) \<Longrightarrow>
      \<exists>q'. aq_push Q q x = (False, q') \<and> elems q' = elems q \<and> cap q' = cap q"
    and pop_empty: "elems q = [] \<Longrightarrow> \<exists>q'. aq_pop Q q = (None, q') \<and> elems q' = [] \<and> cap q' = cap q"
    and pop_Cons: "elems q = x # xs \<Longrightarrow> \<exists>q'. aq_pop Q q = (Some x, q') \<and> elems q' = xs \<and> cap q' = cap q"
    and is_empty_iff: "aq_is_empty Q q \<longleftrightarrow> elems q = []"
begin

lemma push_cases:
  assumes "aq_push Q q x = (ok, q')"
  shows "cap q' = cap q"
    and "ok \<longleftrightarrow> length (elems q) < cap q"
    and "elems q' = (if ok then elems q @ [x] else elems q)"
  using assms push_room [of q x] push_full [of q x] by (cases "length (elems q) < cap q"; fastforce)+

lemma pop_cases:
  assumes "aq_pop Q q = (r, q')"
  shows "cap q' = cap q"
    and "elems q = (case r of None \<Rightarrow> [] | Some x \<Rightarrow> x # elems q')"
    and "r = None \<Longrightarrow> elems q' = []"
  using assms pop_empty [of q] pop_Cons [of q] by (cases "elems q"; fastforce)+

end

text \<open>A queue as its capacity and its list of elements.\<close>

definition list_queue :: "(nat \<times> 'a list, 'a) array_queue_ops" where
  "list_queue = \<lparr>aq_new = (\<lambda>n. (n, [])),
     aq_push = (\<lambda>(n, xs) x. if length xs < n then (True, n, xs @ [x]) else (False, n, xs)),
     aq_pop = (\<lambda>(n, xs). case xs of [] \<Rightarrow> (None, n, []) | x # ys \<Rightarrow> (Some x, n, ys)),
     aq_is_empty = (\<lambda>(n, xs). xs = [])\<rparr>"

interpretation list_queue: array_queue list_queue snd fst
  by unfold_locales (auto simp: list_queue_def split: prod.splits)

end
