(* ===== verification/Task_Executor.thy ===== *)
theory Task_Executor
  imports Array_Queue
begin

text \<open>
  The cooperative tasks (\<^verbatim>\<open>kernel/src/task/mod.rs\<close>), the executor that runs them
  (\<^verbatim>\<open>task/executor.rs\<close>) and its simple predecessor (\<^verbatim>\<open>task/simple_executor.rs\<close>).

  A future is a value of a type \<open>'f\<close>, and \<open>Future::poll\<close> a parameter: it takes the future, the task
  the waker in the context belongs to and the state \<open>'w\<close> of the world, and returns whether the future
  is ready, the future and the world afterwards, and the tasks it woke meanwhile, in order. A waker is
  the identifier of the task its \<^verbatim>\<open>TaskWaker\<close> holds; all of them share the task queue.
\<close>

type_synonym task_id = u64

datatype poll = Ready | Pending

type_synonym ('f, 'w) future_poll = "'f \<Rightarrow> task_id \<Rightarrow> 'w \<Rightarrow> (poll \<times> 'f \<times> task_id list \<times> 'w) res"


section \<open>Tasks\<close>

record 'f task =
  t_id :: task_id
  t_future :: 'f

text \<open>\<open>TaskId::new\<close> adds 1 to the atomic counter, which wraps, and returns the old value.\<close>

definition task_id_new :: "task_id \<Rightarrow> task_id \<times> task_id" where
  "task_id_new NEXT_ID = (NEXT_ID, NEXT_ID + 1)"

definition task_new :: "'f \<Rightarrow> task_id \<Rightarrow> 'f task \<times> task_id" where
  "task_new future NEXT_ID = (let (i, next) = task_id_new NEXT_ID in (\<lparr>t_id = i, t_future = future\<rparr>, next))"

fun tasks_new :: "'f list \<Rightarrow> task_id \<Rightarrow> 'f task list \<times> task_id" where
  "tasks_new [] n = ([], n)"
| "tasks_new (f # fs) n = (let (t, n1) = task_new f n; (ts, n2) = tasks_new fs n1 in (t # ts, n2))"


section \<open>The executor\<close>

record ('f, 'q) executor =
  tasks :: "task_id \<rightharpoonup> 'f"
  task_queue :: 'q
  waker_cache :: "task_id \<rightharpoonup> task_id"

definition executor_new :: "('q, task_id) array_queue_ops \<Rightarrow> ('f, 'q) executor" where
  "executor_new Q = \<lparr>tasks = (\<lambda>_. None), task_queue = aq_new Q 100, waker_cache = (\<lambda>_. None)\<rparr>"

definition spawn :: "('q, task_id) array_queue_ops \<Rightarrow> ('f, 'q) executor \<Rightarrow> 'f task \<Rightarrow> ('f, 'q) executor res" where
  "spawn Q ex task =
     (let old = tasks ex (t_id task); ex1 = ex\<lparr>tasks := (tasks ex)(t_id task \<mapsto> t_future task)\<rparr> in
      if old \<noteq> None then Inl (Panic ''Task with same ID already in tasks'')
      else let (ok, q) = aq_push Q (task_queue ex1) (t_id task) in
        if ok then Inr (ex1\<lparr>task_queue := q\<rparr>) else Inl (Panic ''Queue full!''))"

text \<open>\<open>wake\<close> and \<open>wake_by_ref\<close> of a \<open>TaskWaker\<close> are both \<open>wake_task\<close>.\<close>

definition task_waker_new :: "task_id \<Rightarrow> task_id" where
  "task_waker_new i = i"

definition wake_task :: "('q, task_id) array_queue_ops \<Rightarrow> task_id \<Rightarrow> 'q \<Rightarrow> 'q res" where
  "wake_task Q waker q =
     (let (ok, q') = aq_push Q q waker in if ok then Inr q' else Inl (Panic ''task_queue full''))"

text \<open>One iteration of \<open>run_ready_tasks\<close>, for the task just popped.\<close>

definition run_task :: "('q, task_id) array_queue_ops \<Rightarrow> ('f, 'w) future_poll \<Rightarrow> task_id \<Rightarrow>
    ('f, 'q) executor \<times> 'w \<Rightarrow> (('f, 'q) executor \<times> 'w) res" where
  "run_task Q poll i = (\<lambda>(ex, w).
     case tasks ex i of
       None \<Rightarrow> Inr (ex, w)
     | Some future \<Rightarrow>
         let waker = (case waker_cache ex i of Some k \<Rightarrow> k | None \<Rightarrow> task_waker_new i);
             ex1 = ex\<lparr>waker_cache := (waker_cache ex)(i \<mapsto> waker)\<rparr> in
         and_then (poll future waker w) (\<lambda>(r, future', woken, w').
         and_then (for_each (wake_task Q) woken (task_queue ex1)) (\<lambda>q.
         let ex2 = ex1\<lparr>tasks := (tasks ex1)(i \<mapsto> future'), task_queue := q\<rparr> in
         Inr (case r of
                Ready \<Rightarrow> ex2\<lparr>tasks := (tasks ex2)(i := None), waker_cache := (waker_cache ex2)(i := None)\<rparr>
              | Pending \<Rightarrow> ex2, w'))))"

text \<open>The loop may run forever, when the tasks keep waking each other: it is a partial function.\<close>

partial_function (option) run_ready_tasks ::
    "('q, task_id) array_queue_ops \<Rightarrow> ('f, 'w) future_poll \<Rightarrow> ('f, 'q) executor \<times> 'w \<Rightarrow>
     (('f, 'q) executor \<times> 'w) res option" where
  "run_ready_tasks Q poll s =
     (let (r, q) = aq_pop Q (task_queue (fst s)); s1 = ((fst s)\<lparr>task_queue := q\<rparr>, snd s) in
      case r of
        None \<Rightarrow> Some (Inr s1)
      | Some i \<Rightarrow> (case run_task Q poll i s1 of
                     Inl e \<Rightarrow> Some (Inl e)
                   | Inr s2 \<Rightarrow> run_ready_tasks Q poll s2))"


section \<open>The simple executor\<close>

text \<open>
  \<open>task_queue\<close> is a \<^verbatim>\<open>VecDeque\<close> of tasks, a list here. The dummy waker does nothing, so what a
  future wakes is lost.
\<close>

definition simple_new :: "'f list" where
  "simple_new = []"

definition simple_spawn :: "'f list \<Rightarrow> 'f \<Rightarrow> 'f list" where
  "simple_spawn q task = q @ [task]"

partial_function (option) simple_run ::
    "('f \<Rightarrow> 'w \<Rightarrow> (poll \<times> 'f \<times> 'w) res) \<Rightarrow> 'f list \<Rightarrow> 'w \<Rightarrow> ('f list \<times> 'w) res option" where
  "simple_run poll q w =
     (case q of
        [] \<Rightarrow> Some (Inr ([], w))
      | task # q1 \<Rightarrow>
          (case poll task w of
             Inl e \<Rightarrow> Some (Inl e)
           | Inr (r, task', w') \<Rightarrow>
               (case r of
                  Ready \<Rightarrow> simple_run poll q1 w'
                | Pending \<Rightarrow> simple_run poll (q1 @ [task']) w')))"

section \<open>What the executor does, without its caches and its queue\<close>

text \<open>
  A round of polling on the tasks alone: \<open>poll_round poll q (T, w) ps (T', w')\<close> takes the queue \<open>q\<close> of
  woken tasks, the tasks \<open>T\<close> and the world \<open>w\<close> to \<open>T'\<close> and \<open>w'\<close>, polling the tasks \<open>ps\<close> in this order.
  A finished task leaves, a task woken meanwhile goes to the end of the queue.
\<close>

inductive poll_round :: "('f, 'w) future_poll \<Rightarrow> task_id list \<Rightarrow> (task_id \<rightharpoonup> 'f) \<times> 'w \<Rightarrow> task_id list \<Rightarrow>
    (task_id \<rightharpoonup> 'f) \<times> 'w \<Rightarrow> bool" for poll where
  round_done: "poll_round poll [] s [] s"
| round_gone: "T i = None \<Longrightarrow> poll_round poll q (T, w) ps s \<Longrightarrow> poll_round poll (i # q) (T, w) ps s"
| round_ready: "T i = Some f \<Longrightarrow> poll f i w = Inr (Ready, f', woken, w') \<Longrightarrow>
    poll_round poll (q @ woken) (T(i := None), w') ps s \<Longrightarrow> poll_round poll (i # q) (T, w) (i # ps) s"
| round_pending: "T i = Some f \<Longrightarrow> poll f i w = Inr (Pending, f', woken, w') \<Longrightarrow>
    poll_round poll (q @ woken) (T(i \<mapsto> f'), w') ps s \<Longrightarrow> poll_round poll (i # q) (T, w) (i # ps) s"

inductive_cases poll_round_NilE [elim!]: "poll_round poll [] s ps s'"

text \<open>Wakers are cached for live tasks only, and the waker of a task wakes this task.\<close>

definition exec_inv :: "('f, 'q) executor \<Rightarrow> bool" where
  "exec_inv ex \<longleftrightarrow> dom (waker_cache ex) \<subseteq> dom (tasks ex) \<and> (\<forall>i k. waker_cache ex i = Some k \<longrightarrow> k = i)"

text \<open>No poll panics, and \<open>\<mu>\<close> bounds how many wake-ups the futures still cause.\<close>

definition wake_budget :: "('f, 'w) future_poll \<Rightarrow> ('w \<Rightarrow> nat) \<Rightarrow> bool" where
  "wake_budget poll \<mu> \<longleftrightarrow>
     (\<forall>f i w. \<exists>r f' woken w'. poll f i w = Inr (r, f', woken, w') \<and> length woken + \<mu> w' \<le> \<mu> w)"

lemma exec_inv_new: "exec_inv (executor_new Q)"
  by (simp add: exec_inv_def executor_new_def)

lemma exec_inv_queue [simp]: "exec_inv (ex\<lparr>task_queue := q\<rparr>) = exec_inv ex"
  by (simp add: exec_inv_def)

lemma exec_inv_waker:
  "exec_inv ex \<Longrightarrow> (case waker_cache ex i of Some k \<Rightarrow> k | None \<Rightarrow> task_waker_new i) = i"
  by (auto simp: exec_inv_def task_waker_new_def split: option.split)

lemma exec_inv_spawn: "spawn Q ex t = Inr ex' \<Longrightarrow> exec_inv ex \<Longrightarrow> exec_inv ex'"
  by (fastforce simp: spawn_def exec_inv_def Let_def dom_def split: if_splits prod.splits)

text \<open>What \<open>run_task\<close> leaves of the executor's tables.\<close>

lemma run_task_gone: "tasks ex i = None \<Longrightarrow> run_task Q poll i (ex, w) = Inr (ex, w)"
  by (simp add: run_task_def)

lemma run_task_poll:
  assumes "exec_inv ex" and "tasks ex i = Some f" and "poll f i w = Inr (r, f', woken, w')"
    and "for_each (wake_task Q) woken (task_queue ex) = Inr q"
  obtains ex' where "run_task Q poll i (ex, w) = Inr (ex', w')" and "exec_inv ex'"
    and "task_queue ex' = q" and "tasks ex' = (tasks ex)(i := (case r of Ready \<Rightarrow> None | Pending \<Rightarrow> Some f'))"
proof (cases r)
  case Ready
  let ?ex = "ex\<lparr>tasks := (tasks ex)(i := None), task_queue := q, waker_cache := (waker_cache ex)(i := None)\<rparr>"
  have "run_task Q poll i (ex, w) = Inr (?ex, w')" "exec_inv ?ex"
    using assms Ready by (auto simp: run_task_def Let_def exec_inv_waker fun_upd_upd) (auto simp: exec_inv_def)
  then show thesis by (rule that) (simp_all add: Ready)
next
  case Pending
  let ?ex = "ex\<lparr>tasks := (tasks ex)(i \<mapsto> f'), task_queue := q, waker_cache := (waker_cache ex)(i \<mapsto> i)\<rparr>"
  have "run_task Q poll i (ex, w) = Inr (?ex, w')" "exec_inv ?ex"
    using assms Pending by (auto simp: run_task_def Let_def exec_inv_waker) (auto simp: exec_inv_def)
  then show thesis by (rule that) (simp_all add: Pending)
qed


section \<open>The executor on a bounded queue\<close>

locale executor_queue = array_queue Q elems cap
  for Q :: "('q, task_id) array_queue_ops" and elems :: "'q \<Rightarrow> task_id list" and cap :: "'q \<Rightarrow> nat"
begin

lemma wake_task_room:
  "length (elems q) < cap q \<Longrightarrow> \<exists>q'. wake_task Q i q = Inr q' \<and> elems q' = elems q @ [i] \<and> cap q' = cap q"
  using push_room [of q i] by (auto simp: wake_task_def)

lemma wake_task_full: "cap q \<le> length (elems q) \<Longrightarrow> wake_task Q i q = Inl (Panic ''task_queue full'')"
  using push_full [of q i] by (auto simp: wake_task_def)

lemma wake_all:
  "length (elems q) + length woken \<le> cap q \<Longrightarrow>
    \<exists>q'. for_each (wake_task Q) woken q = Inr q' \<and> elems q' = elems q @ woken \<and> cap q' = cap q"
proof (induction woken arbitrary: q)
  case (Cons i woken)
  obtain q1 where 1: "wake_task Q i q = Inr q1" "elems q1 = elems q @ [i]" "cap q1 = cap q"
    using wake_task_room [of q i] Cons.prems by auto
  with Cons.IH [of q1] Cons.prems show ?case by auto
qed simp

lemma spawn_fresh:
  assumes "tasks ex (t_id t) = None" and "length (elems (task_queue ex)) < cap (task_queue ex)"
  shows "\<exists>q. spawn Q ex t = Inr (ex\<lparr>tasks := (tasks ex)(t_id t \<mapsto> t_future t), task_queue := q\<rparr>) \<and>
    elems q = elems (task_queue ex) @ [t_id t] \<and> cap q = cap (task_queue ex)"
  using assms push_room [of "task_queue ex" "t_id t"] by (auto simp: spawn_def Let_def)

text \<open>One turn of the loop, by the length of the queue and the wake-ups still to come.\<close>

lemma run_ready_round:
  assumes "wake_budget poll \<mu>" and "exec_inv ex"
    and "length (elems (task_queue ex)) + \<mu> w \<le> cap (task_queue ex)"
  shows "\<exists>ex' w' ps. run_ready_tasks Q poll (ex, w) = Some (Inr (ex', w')) \<and> exec_inv ex' \<and>
    elems (task_queue ex') = [] \<and> poll_round poll (elems (task_queue ex)) (tasks ex, w) ps (tasks ex', w')"
  using assms(2,3)
proof (induction "length (elems (task_queue ex)) + \<mu> w" arbitrary: ex w rule: less_induct)
  case less
  show ?case
  proof (cases "elems (task_queue ex)")
    case Nil
    then show ?thesis
      using pop_empty [OF Nil] less.prems
      by (subst run_ready_tasks.simps) (fastforce intro: round_done simp: Let_def)
  next
    case (Cons i rest)
    obtain q where pop: "aq_pop Q (task_queue ex) = (Some i, q)" and q: "elems q = rest" "cap q = cap (task_queue ex)"
      using pop_Cons [OF Cons] by blast
    let ?ex = "ex\<lparr>task_queue := q\<rparr>"
    have step: "run_ready_tasks Q poll (ex, w) =
        (case run_task Q poll i (?ex, w) of Inl e \<Rightarrow> Some (Inl e) | Inr s \<Rightarrow> run_ready_tasks Q poll s)"
      by (subst run_ready_tasks.simps) (simp add: pop)
    show ?thesis
    proof (cases "tasks ex i")
      case None
      show ?thesis
        using less.hyps [of ?ex w] less.prems q Cons None step
        by (fastforce simp: run_task_gone intro: round_gone)
    next
      case (Some f)
      obtain r f' woken w' where p: "poll f i w = Inr (r, f', woken, w')" and \<mu>: "length woken + \<mu> w' \<le> \<mu> w"
        using assms(1) unfolding wake_budget_def by blast
      obtain q' where wk: "for_each (wake_task Q) woken q = Inr q'" "elems q' = rest @ woken" "cap q' = cap q"
        using wake_all [of q woken] q Cons less.prems \<mu> by auto
      obtain ex' where ex': "run_task Q poll i (?ex, w) = Inr (ex', w')" "exec_inv ex'" "task_queue ex' = q'"
          "tasks ex' = (tasks ex)(i := (case r of Ready \<Rightarrow> None | Pending \<Rightarrow> Some f'))"
        by (rule run_task_poll [of ?ex i f poll w r f' woken w' Q q']) (use less.prems Some p wk in auto)
      obtain ex2 w2 ps where r2: "run_ready_tasks Q poll (ex', w') = Some (Inr (ex2, w2))" "exec_inv ex2"
          "elems (task_queue ex2) = []" "poll_round poll (rest @ woken) (tasks ex', w') ps (tasks ex2, w2)"
        using less.hyps [of ex' w'] ex' wk q less.prems Cons \<mu> by auto
      have "poll_round poll (i # rest) (tasks ex, w) (i # ps) (tasks ex2, w2)"
        using r2(4) Some p ex'(4) by (cases r) (auto intro: round_ready round_pending)
      then show ?thesis using step ex'(1) r2 Cons by auto
    qed
  qed
qed

end

interpretation list_executor: executor_queue list_queue snd fst
  by unfold_locales

section \<open>Sleeping without losing a wake-up\<close>

text \<open>
  \<open>Executor::run\<close> as a machine that interrupts may preempt between any two steps while they are
  enabled. \<open>Run\<close> is the head of the loop of \<open>run_ready_tasks\<close>, \<open>Idle\<close> the entry of \<open>sleep_if_idle\<close>,
  \<open>Masked\<close> follows \<open>interrupts::disable\<close>, \<open>Will_Halt\<close> and \<open>Will_Enable\<close> are the two branches on
  \<open>is_empty\<close>, and \<open>Halted\<close> is the processor waiting in \<open>hlt\<close>. An interrupt wakes tasks, by pushing them
  on the queue, and resumes a halted processor. \<open>enable_and_hlt\<close> is one step: the processor takes no
  interrupt between \<open>sti\<close> and the instruction that follows.
\<close>

datatype exec_pc = Run | Idle | Masked | Will_Halt | Will_Enable | Halted | Panicked panic

record ('f, 'q, 'w) cpu =
  pc :: exec_pc
  int_enabled :: bool
  exec_of :: "('f, 'q) executor"
  world :: 'w

definition pop_step :: "('q, task_id) array_queue_ops \<Rightarrow> ('f, 'w) future_poll \<Rightarrow> ('f, 'q, 'w) cpu \<Rightarrow> ('f, 'q, 'w) cpu" where
  "pop_step Q poll c =
     (let (r, q) = aq_pop Q (task_queue (exec_of c)); ex = (exec_of c)\<lparr>task_queue := q\<rparr> in
      case r of
        None \<Rightarrow> c\<lparr>pc := Idle, exec_of := ex\<rparr>
      | Some i \<Rightarrow> (case run_task Q poll i (ex, world c) of
                     Inl e \<Rightarrow> c\<lparr>pc := Panicked e\<rparr>
                   | Inr (ex', w') \<Rightarrow> c\<lparr>exec_of := ex', world := w'\<rparr>))"

definition irq_step :: "('q, task_id) array_queue_ops \<Rightarrow> task_id list \<Rightarrow> ('f, 'q, 'w) cpu \<Rightarrow> ('f, 'q, 'w) cpu" where
  "irq_step Q woken c =
     (case for_each (wake_task Q) woken (task_queue (exec_of c)) of
        Inl e \<Rightarrow> c\<lparr>pc := Panicked e\<rparr>
      | Inr q \<Rightarrow> c\<lparr>exec_of := (exec_of c)\<lparr>task_queue := q\<rparr>, pc := (if pc c = Halted then Run else pc c)\<rparr>)"

inductive exec_step :: "('q, task_id) array_queue_ops \<Rightarrow> ('f, 'w) future_poll \<Rightarrow> ('f, 'q, 'w) cpu \<Rightarrow> ('f, 'q, 'w) cpu \<Rightarrow> bool"
  for Q poll where
  step_pop: "pc c = Run \<Longrightarrow> exec_step Q poll c (pop_step Q poll c)"
| step_disable: "pc c = Idle \<Longrightarrow> exec_step Q poll c (c\<lparr>pc := Masked, int_enabled := False\<rparr>)"
| step_check: "pc c = Masked \<Longrightarrow>
    exec_step Q poll c (c\<lparr>pc := (if aq_is_empty Q (task_queue (exec_of c)) then Will_Halt else Will_Enable)\<rparr>)"
| step_hlt: "pc c = Will_Halt \<Longrightarrow> exec_step Q poll c (c\<lparr>pc := Halted, int_enabled := True\<rparr>)"
| step_enable: "pc c = Will_Enable \<Longrightarrow> exec_step Q poll c (c\<lparr>pc := Run, int_enabled := True\<rparr>)"
| step_irq: "int_enabled c \<Longrightarrow> pc c \<notin> range Panicked \<Longrightarrow> exec_step Q poll c (irq_step Q woken c)"

definition run_start :: "('f, 'q) executor \<Rightarrow> 'w \<Rightarrow> ('f, 'q, 'w) cpu" where
  "run_start ex w = \<lparr>pc = Run, int_enabled = True, exec_of = ex, world = w\<rparr>"

text \<open>The processor is masked exactly while the queue is inspected, and sleeps on an empty queue only.\<close>

definition cpu_inv :: "('q \<Rightarrow> task_id list) \<Rightarrow> ('f, 'q, 'w) cpu \<Rightarrow> bool" where
  "cpu_inv elems c \<longleftrightarrow> exec_inv (exec_of c) \<and>
     (pc c \<in> {Run, Idle, Halted} \<longrightarrow> int_enabled c) \<and>
     (pc c \<in> {Masked, Will_Halt, Will_Enable} \<longrightarrow> \<not> int_enabled c) \<and>
     (pc c \<in> {Will_Halt, Halted} \<longrightarrow> elems (task_queue (exec_of c)) = [])"

lemma exec_inv_run_task:
  assumes "exec_inv ex" and "run_task Q poll i (ex, w) = Inr (ex', w')"
  shows "exec_inv ex'"
proof (cases "tasks ex i")
  case None
  then show ?thesis using assms by (simp add: run_task_def)
next
  case (Some f)
  then obtain r f' woken w1 q where "poll f i w = Inr (r, f', woken, w1)"
      "for_each (wake_task Q) woken (task_queue ex) = Inr q"
    using assms by (auto simp: run_task_def Let_def exec_inv_waker)
  then show ?thesis using run_task_poll [OF assms(1) Some] assms(2) by (metis Inr_inject prod.inject)
qed

lemma pop_step_inv: "cpu_inv elems c \<Longrightarrow> pc c = Run \<Longrightarrow> cpu_inv elems (pop_step Q poll c)"
  by (auto simp: cpu_inv_def pop_step_def Let_def dest: exec_inv_run_task [rotated]
      split: prod.splits option.splits sum.splits)

context executor_queue
begin

lemma irq_step_inv:
  assumes "cpu_inv elems c" and "int_enabled c"
  shows "cpu_inv elems (irq_step Q woken c)"
  using assms by (auto simp: cpu_inv_def irq_step_def split: sum.splits)

lemma exec_step_inv: "exec_step Q poll c c' \<Longrightarrow> cpu_inv elems c \<Longrightarrow> cpu_inv elems c'"
proof (induction rule: exec_step.induct)
  case (step_pop c)
  then show ?case by (simp add: pop_step_inv)
next
  case (step_irq c woken)
  then show ?case by (simp add: irq_step_inv)
qed (auto simp: cpu_inv_def is_empty_iff)

lemma exec_reachable_inv: "(exec_step Q poll)\<^sup>*\<^sup>* c c' \<Longrightarrow> cpu_inv elems c \<Longrightarrow> cpu_inv elems c'"
  by (induction rule: rtranclp_induct) (auto intro: exec_step_inv)

text \<open>What an interrupt does to a sleeping processor.\<close>

lemma irq_resumes:
  assumes "cpu_inv elems c" and "pc c = Halted" and "length woken \<le> cap (task_queue (exec_of c))"
  shows "pc (irq_step Q woken c) = Run \<and> elems (task_queue (exec_of (irq_step Q woken c))) = woken"
  using wake_all [of "task_queue (exec_of c)" woken] assms by (auto simp: cpu_inv_def irq_step_def)

lemma spawn_all:
  assumes "distinct (map t_id ts)" and "t_id ` set ts \<inter> dom (tasks ex) = {}"
    and "length (elems (task_queue ex)) + length ts \<le> cap (task_queue ex)"
  shows "\<exists>ex'. for_each (\<lambda>t ex. spawn Q ex t) ts ex = Inr ex' \<and>
    elems (task_queue ex') = elems (task_queue ex) @ map t_id ts \<and> cap (task_queue ex') = cap (task_queue ex) \<and>
    tasks ex' = tasks ex ++ map_of (map (\<lambda>t. (t_id t, t_future t)) ts)"
  using assms
proof (induction ts arbitrary: ex)
  case (Cons t ts)
  have "tasks ex (t_id t) = None" using Cons.prems(2) by (auto simp: domIff)
  then obtain q where q: "spawn Q ex t = Inr (ex\<lparr>tasks := (tasks ex)(t_id t \<mapsto> t_future t), task_queue := q\<rparr>)"
      "elems q = elems (task_queue ex) @ [t_id t]" "cap q = cap (task_queue ex)"
    using spawn_fresh [of ex t] Cons.prems(3) by auto
  have "(tasks ex)(t_id t \<mapsto> t_future t) ++ map_of (map (\<lambda>t. (t_id t, t_future t)) ts) =
      tasks ex ++ map_of (map (\<lambda>t. (t_id t, t_future t)) (t # ts))"
    using Cons.prems(1) by (subst map_add_upd_left) (auto simp: dom_map_of_conv_image_fst)
  moreover have "t_id ` set ts \<inter> dom ((tasks ex)(t_id t \<mapsto> t_future t)) = {}"
    using Cons.prems(1,2) by auto
  ultimately show ?case
    using q Cons.IH [of "ex\<lparr>tasks := (tasks ex)(t_id t \<mapsto> t_future t), task_queue := q\<rparr>"] Cons.prems(1,3)
    by (simp del: fun_upd_apply)
qed simp

end

section \<open>Identifiers\<close>

lemma tasks_new_ids: "map t_id (fst (tasks_new fs n)) = map (\<lambda>k. n + of_nat k) [0..<length fs]"
proof (induction fs arbitrary: n)
  case (Cons f fs)
  have "map (\<lambda>k. n + of_nat k) [0..<length (f # fs)] = n # map (\<lambda>k. n + 1 + of_nat k) [0..<length fs]"
    by (rule nth_equalityI) (auto simp: nth_Cons' nth_append ac_simps of_nat_diff simp del: upt_Suc)
  with Cons.IH [of "n + 1"] show ?case
    by (cases "tasks_new fs (n + 1)") (simp add: task_new_def task_id_new_def Let_def)
qed simp

lemma tasks_new_length [simp]: "length (fst (tasks_new fs n)) = length fs"
  using arg_cong [OF tasks_new_ids, of length fs n] by simp

lemma tasks_new_distinct: "length fs \<le> 2 ^ 64 \<Longrightarrow> distinct (map t_id (fst (tasks_new fs n)))"
  by (auto simp: tasks_new_ids distinct_map inj_on_def word_of_nat_eq_iff take_bit_nat_eq_self)


lemma of_nat_u64_inj: "k < 2 ^ 64 \<Longrightarrow> m < 2 ^ 64 \<Longrightarrow> (of_nat k :: u64) = of_nat m \<longleftrightarrow> k = m"
  using take_bit_nat_eq_self [of k 64] take_bit_nat_eq_self [of m 64] by (simp add: word_of_nat_eq_iff)

lemma fresh_id: "m < 2 ^ 64 \<Longrightarrow> n + of_nat m \<notin> (\<lambda>k. n + of_nat k :: u64) ` {0..<m}"
proof
  assume m: "m < 2 ^ 64" and "n + of_nat m \<in> (\<lambda>k. n + of_nat k :: u64) ` {0..<m}"
  then obtain k where "k < m" "(of_nat m :: u64) = of_nat k" by auto
  with m of_nat_u64_inj [of m k] show False by simp
qed

lemma exec_inv_spawn_all:
  "for_each (\<lambda>t ex. spawn Q ex t) ts ex = Inr ex' \<Longrightarrow> exec_inv ex \<Longrightarrow> exec_inv ex'"
  by (induction ts arbitrary: ex) (auto dest: exec_inv_spawn)


section \<open>Properties\<close>

text \<open>A task that gives way \<open>f\<close> times by waking itself, as long as the world \<open>w\<close> allows it.\<close>

definition yield_poll :: "(nat, nat) future_poll" where
  "yield_poll f i w = Inr (if f = 0 then Ready else Pending, f - 1, if f = 0 \<or> w = 0 then [] else [i], w - 1)"

lemma yield_poll_budget: "wake_budget yield_poll (\<lambda>w. w)"
  by (auto simp: wake_budget_def yield_poll_def)

text \<open>
  C9. \<open>run_ready_tasks\<close> returns and implements the abstract round. Let the queue have room for the
  tasks in it and all wake-ups the futures still cause. Then the loop ends without a panic, with an
  empty queue; the tasks were polled in the order of the queue, each with a waker of its own, those
  woken meanwhile after those before them; a finished task is gone and the others are kept.
\<close>

theorem run_ready_tasks_round:
  assumes "array_queue Q elems cap" and "wake_budget poll \<mu>" and "exec_inv ex"
    and "length (elems (task_queue ex)) + \<mu> w \<le> cap (task_queue ex)"
  shows "\<exists>ex' w' ps. run_ready_tasks Q poll (ex, w) = Some (Inr (ex', w')) \<and> exec_inv ex' \<and>
    elems (task_queue ex') = [] \<and> poll_round poll (elems (task_queue ex)) (tasks ex, w) ps (tasks ex', w')"
  by (rule executor_queue.run_ready_round [OF executor_queue.intro]) (fact assms)+

theorem run_ready_tasks_round_witness:
  "\<exists>ex' w' ps. run_ready_tasks list_queue yield_poll
      (\<lparr>tasks = [0 \<mapsto> 1, 1 \<mapsto> 0], task_queue = (100, [0, 1]), waker_cache = (\<lambda>_. None)\<rparr>, 7) = Some (Inr (ex', w')) \<and>
    exec_inv ex' \<and> snd (task_queue ex') = [] \<and> poll_round yield_poll [0, 1] ([0 \<mapsto> 1, 1 \<mapsto> 0], 7) ps (tasks ex', w')"
  using run_ready_tasks_round [OF list_queue.array_queue_axioms yield_poll_budget,
      of "\<lparr>tasks = [0 \<mapsto> 1, 1 \<mapsto> 0], task_queue = (100, [0, 1]), waker_cache = (\<lambda>_. None)\<rparr>" 7]
  by (simp add: exec_inv_def)

text \<open>
  C10. No wake-up is lost: in every state \<open>Executor::run\<close> reaches, with interrupts arriving at any
  moment they are enabled, a halted processor has an empty task queue and enabled interrupts, and an
  interrupt that wakes tasks takes it back to the loop with these tasks queued.
\<close>

theorem executor_no_lost_wakeup:
  assumes "array_queue Q elems cap" and "exec_inv ex"
    and "(exec_step Q poll)\<^sup>*\<^sup>* (run_start ex w) c" and "pc c = Halted"
  shows "elems (task_queue (exec_of c)) = [] \<and> int_enabled c \<and>
    (\<forall>woken. length woken \<le> cap (task_queue (exec_of c)) \<longrightarrow>
       (\<exists>c'. exec_step Q poll c c' \<and> pc c' = Run \<and> elems (task_queue (exec_of c')) = woken))"
proof -
  have q: "executor_queue Q elems cap" using assms(1) by (rule executor_queue.intro)
  have "cpu_inv elems (run_start ex w)" using assms(2) by (simp add: cpu_inv_def run_start_def)
  then have c: "cpu_inv elems c" using executor_queue.exec_reachable_inv [OF q assms(3)] by blast
  then have "elems (task_queue (exec_of c)) = []" "int_enabled c"
    using assms(4) by (simp_all add: cpu_inv_def)
  moreover have "exec_step Q poll c (irq_step Q woken c)" for woken
    using \<open>int_enabled c\<close> assms(4) by (intro step_irq) auto
  ultimately show ?thesis using executor_queue.irq_resumes [OF q c assms(4)] by blast
qed

lemma idle_executor_halts:
  "(exec_step list_queue poll)\<^sup>*\<^sup>* (run_start (executor_new list_queue) w)
     \<lparr>pc = Halted, int_enabled = True, exec_of = executor_new list_queue, world = w\<rparr>"
proof -
  let ?c = "\<lambda>p b. \<lparr>pc = p, int_enabled = b, exec_of = executor_new list_queue, world = w\<rparr>"
  have "exec_step list_queue poll (?c Run True) (?c Idle True)"
    using step_pop [of "?c Run True" list_queue poll]
    by (simp add: pop_step_def list_queue_def executor_new_def)
  moreover have "exec_step list_queue poll (?c Idle True) (?c Masked False)"
    using step_disable [of "?c Idle True" list_queue poll] by simp
  moreover have "exec_step list_queue poll (?c Masked False) (?c Will_Halt False)"
    using step_check [of "?c Masked False" list_queue poll] by (simp add: list_queue_def executor_new_def)
  moreover have "exec_step list_queue poll (?c Will_Halt False) (?c Halted True)"
    using step_hlt [of "?c Will_Halt False" list_queue poll] by simp
  ultimately show ?thesis by (simp add: run_start_def)
qed

theorem executor_no_lost_wakeup_witness:
  "\<exists>c'. exec_step list_queue yield_poll
      \<lparr>pc = Halted, int_enabled = True, exec_of = executor_new list_queue, world = 0\<rparr> c' \<and>
    pc c' = Run \<and> snd (task_queue (exec_of c')) = [5]"
  using executor_no_lost_wakeup [OF list_queue.array_queue_axioms exec_inv_new idle_executor_halts [of yield_poll 0]]
  by (simp add: executor_new_def list_queue_def)

text \<open>
  Identifiers are fresh and the queue holds the first hundred tasks: spawning up to 100 new tasks
  on a new executor returns, registers each under its own identifier and queues them in order; one
  more panics.
\<close>

lemma spawn_fresh_tasks:
  assumes "array_queue Q elems cap" and "length fs \<le> 100"
  shows "\<exists>ex. for_each (\<lambda>t ex. spawn Q ex t) (fst (tasks_new fs n)) (executor_new Q) = Inr ex \<and> exec_inv ex \<and>
    tasks ex = map_of (map (\<lambda>t. (t_id t, t_future t)) (fst (tasks_new fs n))) \<and>
    elems (task_queue ex) = map (\<lambda>k. n + of_nat k) [0..<length fs] \<and>
    (length fs = 100 \<longrightarrow> spawn Q ex (fst (task_new f (n + 100))) = Inl (Panic ''Queue full!''))"
proof -
  have q: "executor_queue Q elems cap" using assms(1) by (rule executor_queue.intro)
  let ?ts = "fst (tasks_new fs n)"
  have new: "elems (aq_new Q 100) = []" "cap (aq_new Q 100) = 100"
    using array_queue.new_elems [OF assms(1), of 100] array_queue.new_cap [OF assms(1), of 100] by simp_all
  obtain ex where ex: "for_each (\<lambda>t ex. spawn Q ex t) ?ts (executor_new Q) = Inr ex"
      "elems (task_queue ex) = map t_id ?ts" "cap (task_queue ex) = 100"
      "tasks ex = map_of (map (\<lambda>t. (t_id t, t_future t)) ?ts)"
    using executor_queue.spawn_all [OF q, of ?ts "executor_new Q"] assms(2) new tasks_new_distinct [of fs n]
    by (auto simp: executor_new_def)
  have "exec_inv ex"
    using ex(1) exec_inv_new by (rule exec_inv_spawn_all)
  moreover have "spawn Q ex (fst (task_new f (n + 100))) = Inl (Panic ''Queue full!'')" if "length fs = 100"
  proof -
    have "n + 100 \<notin> set (map t_id ?ts)"
      using that tasks_new_ids [of fs n] fresh_id [of 100 n] by simp
    then have "tasks ex (n + 100) = None"
      using ex(4) by (auto simp: map_of_eq_None_iff)
    then show ?thesis
      using array_queue.push_full [OF assms(1), of "task_queue ex" "n + 100"] ex that
      by (auto simp: spawn_def task_new_def task_id_new_def Let_def)
  qed
  ultimately show ?thesis using ex by (auto simp: tasks_new_ids)
qed



text \<open>
  The simple executor spins: its waker does nothing and it does not sleep, so with a task that is
  always pending, for example one that waits for an interrupt that does not come, \<open>run\<close> never returns.
\<close>

lemma simple_run_spins:
  fixes poll :: "'f \<Rightarrow> 'w \<Rightarrow> (poll \<times> 'f \<times> 'w) res"
  assumes "\<And>f w. \<exists>f' w'. poll f w = Inr (Pending, f', w')" and "q \<noteq> []"
  shows "simple_run poll q w = None"
proof (rule ccontr)
  let ?P = "\<lambda>poll q w y. q \<noteq> [] \<longrightarrow> (\<forall>f w. \<exists>f' w'. poll f w = Inr (Pending, f', w')) \<longrightarrow> False"
  assume "simple_run poll q w \<noteq> None"
  then obtain y where y: "simple_run poll q w = Some y" by blast
  have "?P poll q w y"
  proof (rule simple_run.raw_induct [of ?P, OF _ y], intro impI)
    fix run :: "('f \<Rightarrow> 'w \<Rightarrow> (poll \<times> 'f \<times> 'w) res) \<Rightarrow> 'f list \<Rightarrow> 'w \<Rightarrow> ('f list \<times> 'w) res option"
    fix poll q w y
    assume IH: "\<And>poll q w y. run poll q w = Some y \<Longrightarrow> ?P poll q w y"
      and body: "(case q of [] \<Rightarrow> Some (Inr ([], w)) | task # q1 \<Rightarrow> case poll task w of Inl e \<Rightarrow> Some (Inl e)
        | Inr (r, task', w') \<Rightarrow> case r of Ready \<Rightarrow> run poll q1 w' | Pending \<Rightarrow> run poll (q1 @ [task']) w') = Some y"
      and q: "q \<noteq> []" and pending: "\<forall>f w. \<exists>f' w'. poll f w = Inr (Pending, f', w')"
    from q obtain f q1 where Cons: "q = f # q1" by (cases q) auto
    moreover obtain f' w' where "poll f w = Inr (Pending, f', w')" using pending by blast
    ultimately have "run poll (q1 @ [f']) w' = Some y" using body by simp
    from IH [OF this] pending show False by simp
  qed
  with assms show False by blast
qed

end
