(* ===== verification/Keyboard_Task.thy ===== *)
theory Keyboard_Task
  imports Task_Executor "HOL-Library.Sublist"
begin

text \<open>
  The keyboard task (\<^verbatim>\<open>kernel/src/task/keyboard.rs\<close>): the interrupt handler queues scancodes with
  \<open>add_scancode\<close>, the asynchronous task \<open>print_keypresses\<close> takes them from a \<open>ScancodeStream\<close>, decodes
  and prints them. \<^verbatim>\<open>AtomicWaker\<close> and \<^verbatim>\<open>pc_keyboard\<close> are crates: records of operations, and for
  the waker a locale of its documented laws. \<open>OnceCell\<close> is an option.
\<close>

section \<open>AtomicWaker\<close>

record 'k atomic_waker_ops =
  aw_new :: 'k
  aw_register :: "'k \<Rightarrow> task_id \<Rightarrow> 'k"
  aw_take :: "'k \<Rightarrow> task_id option \<times> 'k"

text \<open>\<open>wake\<close> is \<open>take\<close> followed by a call of the waker taken, if there was one.\<close>

locale atomic_waker =
  fixes A :: "'k atomic_waker_ops" and current :: "'k \<Rightarrow> task_id option"
  assumes new_current: "current (aw_new A) = None"
    and register_current: "current (aw_register A k i) = Some i"
    and take_current: "\<exists>k'. aw_take A k = (current k, k') \<and> current k' = None"
begin

lemma take_cases: "aw_take A k = (r, k') \<Longrightarrow> r = current k \<and> current k' = None"
  using take_current [of k] by auto

end

definition cell_waker :: "task_id option atomic_waker_ops" where
  "cell_waker = \<lparr>aw_new = None, aw_register = (\<lambda>_ i. Some i), aw_take = (\<lambda>k. (k, None))\<rparr>"

interpretation cell_waker: atomic_waker cell_waker "\<lambda>k. k"
  by unfold_locales (simp_all add: cell_waker_def)


section \<open>The scancode queue\<close>

record ('q, 'k) kbd =
  WAKER :: 'k
  SCANCODE_QUEUE :: "'q option"

definition kbd_init :: "'k atomic_waker_ops \<Rightarrow> ('q, 'k) kbd" where
  "kbd_init A = \<lparr>WAKER = aw_new A, SCANCODE_QUEUE = None\<rparr>"

text \<open>What the interrupt handler observes: the scancode is queued, dropped with a warning, or no queue exists.\<close>

datatype scancode_outcome = Queued | Queue_Full_Warning | Uninitialized_Warning

definition add_scancode :: "('q, u8) array_queue_ops \<Rightarrow> 'k atomic_waker_ops \<Rightarrow> u8 \<Rightarrow> ('q, 'k) kbd \<Rightarrow>
    scancode_outcome \<times> task_id option \<times> ('q, 'k) kbd" where
  "add_scancode Q A scancode st =
     (case SCANCODE_QUEUE st of
        Some queue \<Rightarrow>
          let (ok, queue') = aq_push Q queue scancode; st1 = st\<lparr>SCANCODE_QUEUE := Some queue'\<rparr> in
          if \<not> ok then (Queue_Full_Warning, None, st1)
          else let (woken, k) = aw_take A (WAKER st1) in (Queued, woken, st1\<lparr>WAKER := k\<rparr>)
      | None \<Rightarrow> (Uninitialized_Warning, None, st))"

definition scancode_stream_new :: "('q, u8) array_queue_ops \<Rightarrow> ('q, 'k) kbd \<Rightarrow> ('q, 'k) kbd res" where
  "scancode_stream_new Q st =
     (case SCANCODE_QUEUE st of
        None \<Rightarrow> Inr (st\<lparr>SCANCODE_QUEUE := Some (aq_new Q 100)\<rparr>)
      | Some _ \<Rightarrow> Inl (Panic ''ScancodeStream::new should only be called once''))"

datatype next_poll = Next_Ready "u8 option" | Next_Pending

definition poll_next :: "('q, u8) array_queue_ops \<Rightarrow> 'k atomic_waker_ops \<Rightarrow> task_id \<Rightarrow> ('q, 'k) kbd \<Rightarrow>
    (next_poll \<times> ('q, 'k) kbd) res" where
  "poll_next Q A cx st =
     and_then (expect (SCANCODE_QUEUE st) ''Scancode queue not initialized!'') (\<lambda>queue.
     let (r, queue1) = aq_pop Q queue; st1 = st\<lparr>SCANCODE_QUEUE := Some queue1\<rparr> in
     case r of
       Some scancode \<Rightarrow> Inr (Next_Ready (Some scancode), st1)
     | None \<Rightarrow>
         let st2 = st1\<lparr>WAKER := aw_register A (WAKER st1) cx\<rparr>;
             (r2, queue2) = aq_pop Q queue1; st3 = st2\<lparr>SCANCODE_QUEUE := Some queue2\<rparr> in
         (case r2 of
            Some scancode \<Rightarrow> Inr (Next_Ready (Some scancode), st3\<lparr>WAKER := snd (aw_take A (WAKER st3))\<rparr>)
          | None \<Rightarrow> Inr (Next_Pending, st3)))"


section \<open>Decoding and printing\<close>

text \<open>
  The decoder of \<^verbatim>\<open>pc_keyboard\<close>: \<open>add_byte\<close> returns an error, nothing yet, or a key event;
  \<open>process_keyevent\<close> may turn an event into a key. The key codes the code names are the field
  \<open>special_keys\<close>.
\<close>

datatype 'kc decoded_key = Unicode nat | RawKey 'kc

record ('kb, 'ev, 'kc) pc_keyboard_ops =
  kb_new :: 'kb
  add_byte :: "'kb \<Rightarrow> u8 \<Rightarrow> (unit + 'ev option) \<times> 'kb"
  process_keyevent :: "'kb \<Rightarrow> 'ev \<Rightarrow> 'kc decoded_key option \<times> 'kb"
  CapsLock :: 'kc
  LShift :: 'kc
  RShift :: 'kc
  LControl :: 'kc
  RControl :: 'kc
  LAlt :: 'kc
  LWin :: 'kc
  Backspace :: 'kc

datatype 'kc key_output = Out_Char nat | Out_Debug 'kc

definition print_key :: "('kb, 'ev, 'kc) pc_keyboard_ops \<Rightarrow> 'kc decoded_key \<Rightarrow> 'kc key_output list" where
  "print_key K key =
     (case key of
        Unicode character \<Rightarrow> [Out_Char character]
      | RawKey k \<Rightarrow>
          if k = CapsLock K then [] else if k = LShift K then [] else if k = RShift K then []
          else if k = LControl K then [] else if k = RControl K then [] else if k = LAlt K then []
          else if k = LWin K then [] else if k = Backspace K then [] else [Out_Debug k])"

text \<open>The body of the loop of \<open>print_keypresses\<close>, for one scancode.\<close>

definition print_keypress :: "('kb, 'ev, 'kc) pc_keyboard_ops \<Rightarrow> u8 \<Rightarrow> 'kb \<Rightarrow> 'kc key_output list \<times> 'kb" where
  "print_keypress K scancode kb =
     (let (r, kb1) = add_byte K kb scancode in
      case r of
        Inr (Some key_event) \<Rightarrow>
          let (key, kb2) = process_keyevent K kb1 key_event in
          (case key of Some k \<Rightarrow> (print_key K k, kb2) | None \<Rightarrow> ([], kb2))
      | _ \<Rightarrow> ([], kb1))"

fun decode_all :: "('kb, 'ev, 'kc) pc_keyboard_ops \<Rightarrow> u8 list \<Rightarrow> 'kb \<Rightarrow> 'kc key_output list \<times> 'kb" where
  "decode_all K [] kb = ([], kb)"
| "decode_all K (s # ss) kb =
     (let (out, kb1) = print_keypress K s kb; (outs, kb2) = decode_all K ss kb1 in (out @ outs, kb2))"

lemma decode_all_snoc:
  "decode_all K (ss @ [s]) kb =
     (let (outs, kb1) = decode_all K ss kb; (out, kb2) = print_keypress K s kb1 in (outs @ out, kb2))"
  by (induction ss arbitrary: kb) (simp_all add: Let_def split: prod.split)


section \<open>The task and the interrupt, interleaved\<close>

text \<open>
  The task runs \<open>poll_next\<close> in the steps in which it touches shared data; between any two of them a
  keyboard interrupt may run \<open>add_scancode\<close>. \<open>Entry\<close> is before the first \<open>pop\<close>, \<open>Register\<close> after it found
  nothing, \<open>Second\<close> after the waker is registered, \<open>Take s\<close> after the second \<open>pop\<close> found \<open>s\<close>, and
  \<open>Sleeping\<close> after \<open>Poll::Pending\<close>. \<open>woken\<close> says that the waker of the task has been called since its
  last poll began, that is, that it is in the executor's queue; only then is it polled again.
  \<open>accepted\<close> and \<open>delivered\<close> record the scancodes the handler queued and the task received.
\<close>

datatype kbd_pc = Entry | Register | Second | Take u8 | Sleeping

record ('q, 'k, 'kb, 'kc) kbd_task =
  kpc :: kbd_pc
  shared :: "('q, 'k) kbd"
  woken :: bool
  accepted :: "u8 list"
  delivered :: "u8 list"
  decoder :: 'kb
  printed :: "'kc key_output list"

definition deliver :: "('kb, 'ev, 'kc) pc_keyboard_ops \<Rightarrow> u8 \<Rightarrow> ('q, 'k, 'kb, 'kc) kbd_task \<Rightarrow> ('q, 'k, 'kb, 'kc) kbd_task" where
  "deliver K s t =
     (let (out, kb) = print_keypress K s (decoder t) in
      t\<lparr>kpc := Entry, delivered := delivered t @ [s], decoder := kb, printed := printed t @ out\<rparr>)"

definition kbd_irq :: "('q, u8) array_queue_ops \<Rightarrow> 'k atomic_waker_ops \<Rightarrow> task_id \<Rightarrow> u8 \<Rightarrow>
    ('q, 'k, 'kb, 'kc) kbd_task \<Rightarrow> ('q, 'k, 'kb, 'kc) kbd_task" where
  "kbd_irq Q A me s t =
     (let (out, w, st) = add_scancode Q A s (shared t) in
      t\<lparr>shared := st, woken := (woken t \<or> w = Some me),
        accepted := accepted t @ (if out = Queued then [s] else [])\<rparr>)"

inductive kbd_step :: "('q, u8) array_queue_ops \<Rightarrow> 'k atomic_waker_ops \<Rightarrow> ('kb, 'ev, 'kc) pc_keyboard_ops \<Rightarrow> task_id \<Rightarrow>
    ('q, 'k, 'kb, 'kc) kbd_task \<Rightarrow> ('q, 'k, 'kb, 'kc) kbd_task \<Rightarrow> bool" for Q A K me where
  first_some: "kpc t = Entry \<Longrightarrow> SCANCODE_QUEUE (shared t) = Some q \<Longrightarrow> aq_pop Q q = (Some s, q') \<Longrightarrow>
    kbd_step Q A K me t (deliver K s (t\<lparr>shared := (shared t)\<lparr>SCANCODE_QUEUE := Some q'\<rparr>\<rparr>))"
| first_none: "kpc t = Entry \<Longrightarrow> SCANCODE_QUEUE (shared t) = Some q \<Longrightarrow> aq_pop Q q = (None, q') \<Longrightarrow>
    kbd_step Q A K me t (t\<lparr>kpc := Register, shared := (shared t)\<lparr>SCANCODE_QUEUE := Some q'\<rparr>\<rparr>)"
| register: "kpc t = Register \<Longrightarrow>
    kbd_step Q A K me t (t\<lparr>kpc := Second, shared := (shared t)\<lparr>WAKER := aw_register A (WAKER (shared t)) me\<rparr>\<rparr>)"
| second_some: "kpc t = Second \<Longrightarrow> SCANCODE_QUEUE (shared t) = Some q \<Longrightarrow> aq_pop Q q = (Some s, q') \<Longrightarrow>
    kbd_step Q A K me t (t\<lparr>kpc := Take s, shared := (shared t)\<lparr>SCANCODE_QUEUE := Some q'\<rparr>\<rparr>)"
| second_none: "kpc t = Second \<Longrightarrow> SCANCODE_QUEUE (shared t) = Some q \<Longrightarrow> aq_pop Q q = (None, q') \<Longrightarrow>
    kbd_step Q A K me t (t\<lparr>kpc := Sleeping, shared := (shared t)\<lparr>SCANCODE_QUEUE := Some q'\<rparr>\<rparr>)"
| take: "kpc t = Take s \<Longrightarrow>
    kbd_step Q A K me t (deliver K s (t\<lparr>shared := (shared t)\<lparr>WAKER := snd (aw_take A (WAKER (shared t)))\<rparr>\<rparr>))"
| repoll: "kpc t = Sleeping \<Longrightarrow> woken t \<Longrightarrow> kbd_step Q A K me t (t\<lparr>kpc := Entry, woken := False\<rparr>)"
| interrupt: "kbd_step Q A K me t (kbd_irq Q A me s t)"

definition kbd_task_start :: "('q, u8) array_queue_ops \<Rightarrow> 'k atomic_waker_ops \<Rightarrow> ('kb, 'ev, 'kc) pc_keyboard_ops \<Rightarrow>
    ('q, 'k, 'kb, 'kc) kbd_task" where
  "kbd_task_start Q A K =
     \<lparr>kpc = Entry, shared = (kbd_init A)\<lparr>SCANCODE_QUEUE := Some (aq_new Q 100)\<rparr>, woken = False,
      accepted = [], delivered = [], decoder = kb_new K, printed = []\<rparr>"

lemma kbd_task_start_new:
  "scancode_stream_new Q (kbd_init A) = Inr (shared (kbd_task_start Q A K))"
  by (simp add: scancode_stream_new_def kbd_init_def kbd_task_start_def)

text \<open>
  The queue exists, what was delivered and what is still on its way is what was accepted, and what
  is printed is the decoding of what was delivered. A task about to sleep, or asleep, either has been
  woken or is registered; if it sleeps unwoken, the queue is empty.
\<close>

definition in_hand :: "kbd_pc \<Rightarrow> u8 list" where
  "in_hand p = (case p of Take s \<Rightarrow> [s] | _ \<Rightarrow> [])"

definition kbd_inv :: "('q \<Rightarrow> u8 list) \<Rightarrow> ('q \<Rightarrow> nat) \<Rightarrow> ('k \<Rightarrow> task_id option) \<Rightarrow> ('kb, 'ev, 'kc) pc_keyboard_ops \<Rightarrow>
    task_id \<Rightarrow> ('q, 'k, 'kb, 'kc) kbd_task \<Rightarrow> bool" where
  "kbd_inv elems cap current K me t \<longleftrightarrow>
     (\<exists>q. SCANCODE_QUEUE (shared t) = Some q \<and> cap q = 100 \<and>
        accepted t = delivered t @ in_hand (kpc t) @ elems q \<and>
        decode_all K (delivered t) (kb_new K) = (printed t, decoder t) \<and>
        (kpc t = Second \<longrightarrow> woken t \<or> current (WAKER (shared t)) = Some me) \<and>
        (kpc t = Sleeping \<longrightarrow> woken t \<or> current (WAKER (shared t)) = Some me \<and> elems q = []))"

lemma in_hand_simps [simp]:
  "in_hand Entry = []" "in_hand Register = []" "in_hand Second = []" "in_hand (Take s) = [s]" "in_hand Sleeping = []"
  by (simp_all add: in_hand_def)

lemma deliver_inv:
  assumes "SCANCODE_QUEUE (shared t) = Some q" and "cap q = 100" and "accepted t = delivered t @ s # elems q"
    and "decode_all K (delivered t) (kb_new K) = (printed t, decoder t)"
  shows "kbd_inv elems cap current K me (deliver K s t)"
  using assms by (simp add: kbd_inv_def deliver_def decode_all_snoc Let_def split: prod.split)

locale keyboard_task = scancodes: array_queue Q elems cap + atomic_waker A current
  for Q :: "('q, u8) array_queue_ops" and elems and cap and A :: "'k atomic_waker_ops" and current
begin

lemma kbd_start_inv: "kbd_inv elems cap current K me (kbd_task_start Q A K)"
  using scancodes.new_elems [of 100] scancodes.new_cap [of 100]
  by (simp add: kbd_inv_def kbd_task_start_def kbd_init_def)

lemma kbd_irq_inv:
  assumes "kbd_inv elems cap current K me t"
  shows "kbd_inv elems cap current K me (kbd_irq Q A me s t)"
proof -
  obtain q where q: "SCANCODE_QUEUE (shared t) = Some q" "cap q = 100"
      "accepted t = delivered t @ in_hand (kpc t) @ elems q"
      "decode_all K (delivered t) (kb_new K) = (printed t, decoder t)"
      "kpc t = Second \<longrightarrow> woken t \<or> current (WAKER (shared t)) = Some me"
      "kpc t = Sleeping \<longrightarrow> woken t \<or> current (WAKER (shared t)) = Some me \<and> elems q = []"
    using assms unfolding kbd_inv_def by blast
  obtain ok q' where push: "aq_push Q q s = (ok, q')" by fastforce
  note p = scancodes.push_cases [OF push]
  obtain r k where take: "aw_take A (WAKER (shared t)) = (r, k)" by fastforce
  note a = take_cases [OF take]
  show ?thesis
  proof (cases ok)
    case True
    with q push take a p show ?thesis by (auto simp: kbd_inv_def kbd_irq_def add_scancode_def)
  next
    case False
    with q push p show ?thesis by (auto simp: kbd_inv_def kbd_irq_def add_scancode_def)
  qed
qed

lemma kbd_step_inv: "kbd_step Q A K me t t' \<Longrightarrow> kbd_inv elems cap current K me t \<Longrightarrow> kbd_inv elems cap current K me t'"
proof (induction rule: kbd_step.induct)
  case (first_some t q s q')
  then show ?case using scancodes.pop_cases [OF first_some(3)]
    by (intro deliver_inv [of _ q']) (auto simp: kbd_inv_def)
next
  case (first_none t q q')
  then show ?case using scancodes.pop_cases [OF first_none(3)] by (auto simp: kbd_inv_def)
next
  case (register t)
  then show ?case by (auto simp: kbd_inv_def register_current)
next
  case (second_some t q s q')
  then show ?case using scancodes.pop_cases [OF second_some(3)] by (auto simp: kbd_inv_def)
next
  case (second_none t q q')
  then show ?case using scancodes.pop_cases [OF second_none(3)] by (auto simp: kbd_inv_def)
next
  case (take t s)
  then obtain q where "SCANCODE_QUEUE (shared t) = Some q" by (auto simp: kbd_inv_def)
  with take show ?case by (intro deliver_inv [of _ q]) (auto simp: kbd_inv_def)
next
  case (repoll t)
  then show ?case by (auto simp: kbd_inv_def)
next
  case (interrupt t s)
  then show ?case by (rule kbd_irq_inv)
qed

lemma kbd_reachable_inv:
  "(kbd_step Q A K me)\<^sup>*\<^sup>* (kbd_task_start Q A K) t \<Longrightarrow> kbd_inv elems cap current K me t"
  by (induction rule: rtranclp_induct) (auto intro: kbd_start_inv kbd_step_inv)

text \<open>
  Progress: while a scancode is on its way, the task's own steps deliver it. \<open>delivers s t\<close> says that
  they reach a state where \<open>s\<close> has been delivered and nothing else has changed in the records.
\<close>

definition delivers :: "('kb, 'ev, 'kc) pc_keyboard_ops \<Rightarrow> task_id \<Rightarrow> u8 \<Rightarrow> ('q, 'k, 'kb, 'kc) kbd_task \<Rightarrow> bool" where
  "delivers K me s t \<longleftrightarrow> (\<exists>t'. (kbd_step Q A K me)\<^sup>*\<^sup>* t t' \<and> delivered t' = delivered t @ [s] \<and> accepted t' = accepted t)"

lemma delivers_step:
  "kbd_step Q A K me t t1 \<Longrightarrow> delivered t1 = delivered t \<Longrightarrow> accepted t1 = accepted t \<Longrightarrow>
    delivers K me s t1 \<Longrightarrow> delivers K me s t"
  unfolding delivers_def by (metis converse_rtranclp_into_rtranclp)

lemma delivers_now:
  "kbd_step Q A K me t (deliver K s t1) \<Longrightarrow> delivered t1 = delivered t \<Longrightarrow> accepted t1 = accepted t \<Longrightarrow>
    delivers K me s t"
  unfolding delivers_def
  by (rule exI [of _ "deliver K s t1"]) (auto simp: deliver_def split: prod.split)

lemma delivers_Take: "kpc t = Take s \<Longrightarrow> delivers K me s t"
  by (erule delivers_now [OF take]) simp_all

lemma delivers_Entry:
  assumes "SCANCODE_QUEUE (shared t) = Some q" and "elems q = s # xs" and "kpc t = Entry"
  shows "delivers K me s t"
proof -
  obtain q' where "aq_pop Q q = (Some s, q')" using scancodes.pop_Cons [OF assms(2)] by blast
  from first_some [OF assms(3,1) this] show ?thesis by (rule delivers_now) simp_all
qed

lemma delivers_Second:
  assumes "SCANCODE_QUEUE (shared t) = Some q" and "elems q = s # xs" and "kpc t = Second"
  shows "delivers K me s t"
proof -
  obtain q' where "aq_pop Q q = (Some s, q')" using scancodes.pop_Cons [OF assms(2)] by blast
  from second_some [OF assms(3,1) this] show ?thesis by (rule delivers_step) (simp_all add: delivers_Take)
qed

lemma kbd_delivers:
  assumes "kbd_inv elems cap current K me t" and "accepted t = delivered t @ s # rest"
  shows "delivers K me s t"
proof -
  obtain q where q: "SCANCODE_QUEUE (shared t) = Some q" "in_hand (kpc t) @ elems q = s # rest"
      "kpc t = Sleeping \<longrightarrow> woken t \<or> elems q = []"
    using assms by (auto simp: kbd_inv_def)
  show ?thesis
  proof (cases "kpc t")
    case Entry
    with q show ?thesis by (intro delivers_Entry [of t q s rest]) simp_all
  next
    case Register
    show ?thesis
      by (rule delivers_step [OF kbd_step.register [OF Register]], simp, simp, rule delivers_Second [of _ q s rest])
        (use q Register in simp_all)
  next
    case Second
    with q show ?thesis by (intro delivers_Second [of t q s rest]) simp_all
  next
    case (Take s')
    with q show ?thesis by (intro delivers_Take) simp
  next
    case Sleeping
    with q have "woken t" by simp
    show ?thesis
      by (rule delivers_step [OF repoll [OF Sleeping \<open>woken t\<close>]], simp, simp, rule delivers_Entry [of _ q s rest])
        (use q Sleeping in simp_all)
  qed
qed

end

interpretation list_keyboard: keyboard_task list_queue snd fst cell_waker "\<lambda>k. k"
  by unfold_locales

section \<open>Properties\<close>

text \<open>A decoder that turns every byte into a key event of its own, and every event into a character.\<close>

definition plain_keyboard :: "(unit, u8, nat) pc_keyboard_ops" where
  "plain_keyboard = \<lparr>kb_new = (), add_byte = (\<lambda>_ b. (Inr (Some b), ())),
     process_keyevent = (\<lambda>_ b. (Some (Unicode (unat b)), ())), CapsLock = 0, LShift = 1, RShift = 2,
     LControl = 3, RControl = 4, LAlt = 5, LWin = 6, Backspace = 7\<rparr>"

definition one_key_pressed :: "(nat \<times> u8 list, task_id option, unit, nat) kbd_task" where
  "one_key_pressed = kbd_irq list_queue cell_waker 0 30 (kbd_task_start list_queue cell_waker plain_keyboard)"

lemma one_key_pressed_reachable:
  "(kbd_step list_queue cell_waker plain_keyboard 0)\<^sup>*\<^sup>* (kbd_task_start list_queue cell_waker plain_keyboard) one_key_pressed"
  unfolding one_key_pressed_def by (rule r_into_rtranclp) (rule interrupt)

lemma one_key_pressed_simps:
  "accepted one_key_pressed = [30]" "delivered one_key_pressed = []" "kpc one_key_pressed = Entry"
  by (simp_all add: one_key_pressed_def kbd_irq_def add_scancode_def kbd_task_start_def kbd_init_def
      list_queue_def cell_waker_def)

text \<open>
  C11. Scancodes reach the console in order and none is slept on. In every state the keyboard task and
  the interrupts reach, in any interleaving: the scancodes delivered to the task are a prefix of those
  the handler accepted, the text printed is their decoding, and if the task sleeps and has not been
  woken, every accepted scancode has been delivered.
\<close>

theorem keyboard_in_order:
  assumes "array_queue Q elems cap" and "atomic_waker A current"
    and "(kbd_step Q A K me)\<^sup>*\<^sup>* (kbd_task_start Q A K) t"
  shows "prefix (delivered t) (accepted t) \<and> decode_all K (delivered t) (kb_new K) = (printed t, decoder t) \<and>
    (kpc t = Sleeping \<and> \<not> woken t \<longrightarrow> delivered t = accepted t)"
  using keyboard_task.kbd_reachable_inv [OF keyboard_task.intro [OF assms(1,2)] assms(3)]
  by (auto simp: kbd_inv_def)

theorem keyboard_in_order_witness:
  "prefix (delivered one_key_pressed) (accepted one_key_pressed) \<and> accepted one_key_pressed = [30]"
  using keyboard_in_order [OF list_queue.array_queue_axioms cell_waker.atomic_waker_axioms one_key_pressed_reachable]
  by (simp add: one_key_pressed_simps)

text \<open>
  C12. Every accepted scancode can be delivered: from each reachable state with a scancode on its way,
  steps of the task, without the help of another key press, deliver the next one.
\<close>

theorem keyboard_delivers:
  assumes "array_queue Q elems cap" and "atomic_waker A current"
    and "(kbd_step Q A K me)\<^sup>*\<^sup>* (kbd_task_start Q A K) t" and "accepted t = delivered t @ s # rest"
  shows "\<exists>t'. (kbd_step Q A K me)\<^sup>*\<^sup>* t t' \<and> delivered t' = delivered t @ [s] \<and> accepted t' = accepted t"
proof -
  have k: "keyboard_task Q elems cap A current" using assms(1,2) by (rule keyboard_task.intro)
  show ?thesis
    using keyboard_task.kbd_delivers [OF k keyboard_task.kbd_reachable_inv [OF k assms(3)] assms(4)]
    unfolding keyboard_task.delivers_def [OF k] .
qed

theorem keyboard_delivers_witness:
  "\<exists>t'. (kbd_step list_queue cell_waker plain_keyboard 0)\<^sup>*\<^sup>* one_key_pressed t' \<and> delivered t' = [30] \<and>
    accepted t' = [30]"
  using keyboard_delivers [OF list_queue.array_queue_axioms cell_waker.atomic_waker_axioms one_key_pressed_reachable]
  by (simp add: one_key_pressed_simps)

text \<open>
  C23. \<open>poll_next\<close> is the run of these steps that no interrupt enters: from \<open>Entry\<close>, they reach the state
  it returns, with its scancode delivered or, if it is pending, the task asleep.
\<close>

theorem poll_next_runs:
  assumes "kpc t = Entry" and "poll_next Q A me (shared t) = Inr (r, st)"
  shows "\<exists>t'. (kbd_step Q A K me)\<^sup>*\<^sup>* t t' \<and> shared t' = st \<and> woken t' = woken t \<and>
    (case r of
       Next_Ready so \<Rightarrow> kpc t' = Entry \<and> (\<exists>s. so = Some s \<and> delivered t' = delivered t @ [s])
     | Next_Pending \<Rightarrow> kpc t' = Sleeping \<and> delivered t' = delivered t)"
proof -
  obtain q where q: "SCANCODE_QUEUE (shared t) = Some q" using assms(2) by (auto simp: poll_next_def)
  obtain r1 q1 where pop1: "aq_pop Q q = (r1, q1)" by fastforce
  obtain r2 q2 where pop2: "aq_pop Q q1 = (r2, q2)" by fastforce
  let ?t1 = "t\<lparr>kpc := Register, shared := (shared t)\<lparr>SCANCODE_QUEUE := Some q1\<rparr>\<rparr>"
  let ?t2 = "?t1\<lparr>kpc := Second, shared := (shared ?t1)\<lparr>WAKER := aw_register A (WAKER (shared ?t1)) me\<rparr>\<rparr>"
  let ?t3 = "\<lambda>p. ?t2\<lparr>kpc := p, shared := (shared ?t2)\<lparr>SCANCODE_QUEUE := Some q2\<rparr>\<rparr>"
  show ?thesis
  proof (cases r1)
    case (Some s)
    then show ?thesis
      using first_some [OF assms(1) q, of Q s q1 A K me] pop1 assms(2) q
      by (intro exI [of _ "deliver K s (t\<lparr>shared := (shared t)\<lparr>SCANCODE_QUEUE := Some q1\<rparr>\<rparr>)"])
        (auto simp: poll_next_def deliver_def Let_def split: prod.splits)
  next
    case None
    have "(kbd_step Q A K me)\<^sup>*\<^sup>* t ?t2"
      using first_none [OF assms(1) q, of Q q1 A K me] register [of ?t1 Q A K me] pop1 None by simp
    note reach = rtranclp.rtrancl_into_rtrancl [OF this]
    show ?thesis
    proof (cases r2)
      case None2: None
      have "(kbd_step Q A K me)\<^sup>*\<^sup>* t (?t3 Sleeping)"
        using reach second_none [of ?t2 q1 Q q2 A K me] pop2 None2 by simp
      then show ?thesis using assms(2) q pop1 pop2 None None2
        by (intro exI [of _ "?t3 Sleeping"]) (auto simp: poll_next_def)
    next
      case (Some s)
      define t3 where "t3 = ?t3 (Take s)"
      define t4 where "t4 = deliver K s (t3\<lparr>shared := (shared t3)\<lparr>WAKER := snd (aw_take A (WAKER (shared t3)))\<rparr>\<rparr>)"
      have "(kbd_step Q A K me)\<^sup>*\<^sup>* t t3"
        using reach second_some [of ?t2 q1 Q s q2 A K me] pop2 Some by (simp add: t3_def)
      moreover have "kbd_step Q A K me t3 t4"
        unfolding t4_def by (rule kbd_step.take) (simp add: t3_def)
      ultimately have "(kbd_step Q A K me)\<^sup>*\<^sup>* t t4" by (rule rtranclp.rtrancl_into_rtrancl)
      then show ?thesis using assms(2) q pop1 pop2 None Some
        by (intro exI [of _ t4]) (auto simp: poll_next_def deliver_def t3_def t4_def Let_def split: prod.splits)
    qed
  qed
qed

theorem poll_next_runs_witness:
  "\<exists>t'. (kbd_step list_queue cell_waker plain_keyboard 3)\<^sup>*\<^sup>* (kbd_task_start list_queue cell_waker plain_keyboard) t' \<and>
    kpc t' = Sleeping"
  using poll_next_runs [of "kbd_task_start list_queue cell_waker plain_keyboard" list_queue cell_waker 3 Next_Pending
      "\<lparr>WAKER = Some 3, SCANCODE_QUEUE = Some (100, [])\<rparr>" plain_keyboard]
  by (auto simp: kbd_task_start_def kbd_init_def poll_next_def list_queue_def cell_waker_def)

text \<open>
  The errors of the scancode queue. Before \<open>ScancodeStream::new\<close>, a scancode is dropped with a
  warning and a poll panics; afterwards a second \<open>new\<close> panics, and a scancode that finds the queue full
  is dropped with a warning: the queue keeps its contents, and nobody is woken.
\<close>

lemma scancode_queue_errors:
  assumes "array_queue Q elems cap"
  shows "(SCANCODE_QUEUE st = None \<longrightarrow> add_scancode Q A s st = (Uninitialized_Warning, None, st) \<and>
      poll_next Q A cx st = Inl (Panic ''Scancode queue not initialized!'') \<and>
      (\<exists>st' q. scancode_stream_new Q st = Inr st' \<and> SCANCODE_QUEUE st' = Some q \<and> elems q = [] \<and> cap q = 100)) \<and>
    (\<forall>q. SCANCODE_QUEUE st = Some q \<longrightarrow>
      scancode_stream_new Q st = Inl (Panic ''ScancodeStream::new should only be called once'') \<and>
      (length (elems q) \<ge> cap q \<longrightarrow> (\<exists>q'. add_scancode Q A s st = (Queue_Full_Warning, None, st\<lparr>SCANCODE_QUEUE := Some q'\<rparr>) \<and>
        elems q' = elems q \<and> cap q' = cap q)))"
proof -
  have "\<exists>q'. add_scancode Q A s st = (Queue_Full_Warning, None, st\<lparr>SCANCODE_QUEUE := Some q'\<rparr>) \<and>
      elems q' = elems q \<and> cap q' = cap q" if "SCANCODE_QUEUE st = Some q" "length (elems q) \<ge> cap q" for q
    using array_queue.push_full [OF assms that(2), of s] that(1) by (auto simp: add_scancode_def)
  then show ?thesis
    using array_queue.new_elems [OF assms, of 100] array_queue.new_cap [OF assms, of 100]
    by (auto simp: add_scancode_def poll_next_def scancode_stream_new_def)
qed

end
