(* ===== verification/Apic_Interrupts.thy ===== *)
theory Apic_Interrupts
  imports Keyboard_Task
begin

text \<open>
  Interrupts (\<^verbatim>\<open>kernel/src/interrupts.rs\<close>, \<^verbatim>\<open>apic_ptr.rs\<close>, \<^verbatim>\<open>init/apic.rs\<close>): the descriptor
  table, the handlers, and the programming of the local APIC, the I/O APIC and the legacy controllers.

  The code talks to devices by volatile accesses and port instructions. The model records them in
  order, in a trace; what a device answers to a read is a parameter \<open>rd\<close> of the trace so far and the
  address. A pointer is its address. The text the handlers print is not modelled.
\<close>

unbundle bit_operations_syntax

section \<open>Device accesses\<close>

datatype io_event =
    Write32 nat u32
  | Read32 nat u32
  | Write64 nat u64
  | Read64 nat u64
  | Port_Out8 u16 u8
  | Port_Out32 u16 u32
  | Port_In8 u16 u8

type_synonym trace = "io_event list"

definition read_apic_reg :: "(trace \<Rightarrow> nat \<Rightarrow> u32) \<Rightarrow> nat \<Rightarrow> u32 \<Rightarrow> trace \<Rightarrow> u32 \<times> trace" where
  "read_apic_reg rd apic_mmio reg_offset tr =
     (let a = apic_mmio + 4 * unat (reg_offset div 4); v = rd tr a in (v, tr @ [Read32 a v]))"

definition write_apic_reg :: "nat \<Rightarrow> u32 \<Rightarrow> u32 \<Rightarrow> trace \<Rightarrow> trace" where
  "write_apic_reg apic_mmio reg_offset value tr = tr @ [Write32 (apic_mmio + 4 * unat (reg_offset div 4)) value]"

definition APIC_REG_ID :: u32 where "APIC_REG_ID = 0x20"
definition APIC_REG_TPR :: u32 where "APIC_REG_TPR = 0x80"
definition APIC_REG_EOI :: u32 where "APIC_REG_EOI = 0xB0"
definition APIC_REG_SVR :: u32 where "APIC_REG_SVR = 0xF0"
definition APIC_SVR_ENABLE :: u32 where "APIC_SVR_ENABLE = push_bit 8 1"
definition APIC_REG_LVT_TIMER :: u32 where "APIC_REG_LVT_TIMER = 0x320"
definition APIC_REG_TIMER_INITIAL_COUNT :: u32 where "APIC_REG_TIMER_INITIAL_COUNT = 0x380"
definition APIC_REG_TIMER_DIV :: u32 where "APIC_REG_TIMER_DIV = 0x3E0"

definition TIMER_VEC :: u8 where "TIMER_VEC = 0x2E"
definition KEYBOARD_VEC :: u8 where "KEYBOARD_VEC = 0x2F"
definition SPURIOUS_VEC :: u8 where "SPURIOUS_VEC = 0xFF"

lemmas apic_consts = APIC_REG_ID_def APIC_REG_TPR_def APIC_REG_EOI_def APIC_REG_SVR_def APIC_SVR_ENABLE_def
  APIC_REG_LVT_TIMER_def APIC_REG_TIMER_INITIAL_COUNT_def APIC_REG_TIMER_DIV_def


section \<open>The local APIC\<close>

definition map_apic_registers :: "profile \<Rightarrow> nat \<Rightarrow> nat \<Rightarrow> nat res" where
  "map_apic_registers p offset apic_base =
     (let page_aligned_base = align_down apic_base in
      and_then (u64_sub p apic_base page_aligned_base) (\<lambda>internal_page_offset.
      and_then (u64_add p offset page_aligned_base) (\<lambda>virt_base.
      u64_add p virt_base internal_page_offset)))"

definition init_apic_timer :: "nat \<Rightarrow> u8 \<Rightarrow> trace \<Rightarrow> trace" where
  "init_apic_timer apic_mmio vector tr =
     (let tr1 = write_apic_reg apic_mmio APIC_REG_TIMER_DIV 0x3 tr;
          lvt_timer_value = (ucast vector OR 0x20000);
          tr2 = write_apic_reg apic_mmio APIC_REG_LVT_TIMER lvt_timer_value tr1;
          inital_count = 20000000 in
      write_apic_reg apic_mmio APIC_REG_TIMER_INITIAL_COUNT inital_count tr2)"

text \<open>The identifier it reads is only printed.\<close>

definition enable_local_apic :: "(trace \<Rightarrow> nat \<Rightarrow> u32) \<Rightarrow> nat \<Rightarrow> trace \<Rightarrow> trace" where
  "enable_local_apic rd apic_mmio tr =
     (let vector = 0xFF; value = (vector OR APIC_SVR_ENABLE);
          tr1 = write_apic_reg apic_mmio APIC_REG_SVR value tr;
          tr2 = write_apic_reg apic_mmio APIC_REG_TPR 0 tr1 in
      snd (read_apic_reg rd apic_mmio APIC_REG_ID tr2))"


section \<open>The I/O APIC and the legacy controllers\<close>

definition map_io_apic :: "profile \<Rightarrow> nat \<Rightarrow> nat res" where
  "map_io_apic p offset = u64_add p offset 0xfec00000"

definition IOREGSEL :: nat where "IOREGSEL = 0x00"
definition IOWIN :: nat where "IOWIN = 0x10"

definition ioapic_write :: "nat \<Rightarrow> u32 \<Rightarrow> u32 \<Rightarrow> trace \<Rightarrow> trace" where
  "ioapic_write ioapic_mmio reg_index value tr =
     tr @ [Write32 (ioapic_mmio + IOREGSEL) reg_index, Write32 (ioapic_mmio + IOWIN) value]"

definition ioapic_read :: "(trace \<Rightarrow> nat \<Rightarrow> u32) \<Rightarrow> nat \<Rightarrow> u32 \<Rightarrow> trace \<Rightarrow> u32 \<times> trace" where
  "ioapic_read rd ioapic_mmio reg_index tr =
     (let tr1 = tr @ [Write32 (ioapic_mmio + IOREGSEL) reg_index];
          v = rd tr1 (ioapic_mmio + IOWIN) in (v, tr1 @ [Read32 (ioapic_mmio + IOWIN) v]))"

definition u32_add :: "profile \<Rightarrow> u32 \<Rightarrow> u32 \<Rightarrow> u32 res" where
  "u32_add p a b = (if p = Debug \<and> unat a + unat b \<ge> 2 ^ 32 then Inl Arith_Overflow else Inr (a + b))"

definition u32_mul :: "profile \<Rightarrow> u32 \<Rightarrow> u32 \<Rightarrow> u32 res" where
  "u32_mul p a b = (if p = Debug \<and> unat a * unat b \<ge> 2 ^ 32 then Inl Arith_Overflow else Inr (a * b))"

datatype trigger_mode = Edge | Level | Trigger_SameAsBus
datatype polarity = ActiveHigh | ActiveLow | Polarity_SameAsBus

definition redirect_low :: "u8 \<Rightarrow> trigger_mode \<Rightarrow> polarity \<Rightarrow> u32" where
  "redirect_low vector trigger polarity =
     (let low_dword = ucast vector;
          trigger_bit = (case trigger of Edge \<Rightarrow> push_bit 13 0 | Level \<Rightarrow> push_bit 13 1 | Trigger_SameAsBus \<Rightarrow> push_bit 13 0);
          low_dword = low_dword OR trigger_bit;
          polarity_bit = (case polarity of ActiveHigh \<Rightarrow> push_bit 15 0 | ActiveLow \<Rightarrow> push_bit 15 1
                                         | Polarity_SameAsBus \<Rightarrow> push_bit 15 0);
          low_dword = low_dword OR polarity_bit;
          mask_bit = push_bit 16 0 in
      low_dword OR mask_bit)"

definition set_ioapic_redirect :: "profile \<Rightarrow> nat \<Rightarrow> u32 \<Rightarrow> u32 \<Rightarrow> u8 \<Rightarrow> trigger_mode \<Rightarrow> polarity \<Rightarrow> trace \<Rightarrow> trace res" where
  "set_ioapic_redirect p offset gsi dest_apic_id vector trigger polarity tr =
     and_then (map_io_apic p offset) (\<lambda>ioapic_mmio.
     and_then (u32_mul p 2 gsi) (\<lambda>g.
     and_then (u32_add p 0x10 g) (\<lambda>redtbl_index_low.
     and_then (u32_add p redtbl_index_low 1) (\<lambda>redtbl_index_high.
     let low_dword = redirect_low vector trigger polarity;
         high_dword = push_bit 24 dest_apic_id in
     Inr (ioapic_write ioapic_mmio redtbl_index_high high_dword
           (ioapic_write ioapic_mmio redtbl_index_low low_dword tr))))))"

definition disable_pic :: "trace \<Rightarrow> trace" where
  "disable_pic tr = tr @ [Port_Out8 0x21 0xFF, Port_Out8 0xA1 0xFF]"


section \<open>The descriptor table and the handlers\<close>

datatype handler =
    Handle_Breakpoint | Handle_Double_Fault | Handle_Page_Fault
  | Handle_Timer | Handle_Keyboard | Handle_Spurious

text \<open>The vectors of the legacy controllers, which \<open>disable_pic\<close> masks. Nothing uses them.\<close>

definition PIC_1_OFFSET :: u8 where "PIC_1_OFFSET = 32"
definition PIC_2_OFFSET :: u8 where "PIC_2_OFFSET = PIC_1_OFFSET + 8"

datatype interrupt_index = Timer | Keyboard

fun interrupt_index_u8 :: "interrupt_index \<Rightarrow> u8" where
  "interrupt_index_u8 Timer = PIC_1_OFFSET"
| "interrupt_index_u8 Keyboard = PIC_1_OFFSET + 1"

text \<open>The vectors of the named entries: breakpoint 3, double fault 8, page fault 14.\<close>

definition IDT :: "u8 \<rightharpoonup> handler" where
  "IDT = [3 \<mapsto> Handle_Breakpoint, 8 \<mapsto> Handle_Double_Fault, TIMER_VEC \<mapsto> Handle_Timer,
     KEYBOARD_VEC \<mapsto> Handle_Keyboard, SPURIOUS_VEC \<mapsto> Handle_Spurious,
     14 \<mapsto> Handle_Page_Fault]"

record ('q, 'k) irq_state =
  APIC_BASE :: "nat option"
  io :: trace
  keyboard :: "('q, 'k) kbd"

definition eoi :: "('q, 'k) irq_state \<Rightarrow> ('q, 'k) irq_state res" where
  "eoi st = and_then (expect (APIC_BASE st) ''[ERROR] APIC_BASE unset!'') (\<lambda>apic_mmio.
     Inr (st\<lparr>io := write_apic_reg apic_mmio APIC_REG_EOI 0 (io st)\<rparr>))"

text \<open>
  A handler returns the task it woke, if any, and the state. \<open>inb\<close> is what the keyboard controller
  answers on its data port.
\<close>

definition breakpoint_handler :: "('q, 'k) irq_state \<Rightarrow> (task_id option \<times> ('q, 'k) irq_state) res" where
  "breakpoint_handler st = Inr (None, st)"

definition double_fault_handler :: "('q, 'k) irq_state \<Rightarrow> (task_id option \<times> ('q, 'k) irq_state) res" where
  "double_fault_handler st = Inl (Panic ''EXCEPTION: DOUBLE FAULT'')"

definition spurious_interrupt_handler :: "('q, 'k) irq_state \<Rightarrow> (task_id option \<times> ('q, 'k) irq_state) res" where
  "spurious_interrupt_handler st = and_then (eoi st) (\<lambda>st1. Inr (None, st1))"

definition apic_timer_interrupt_handler :: "('q, 'k) irq_state \<Rightarrow> (task_id option \<times> ('q, 'k) irq_state) res" where
  "apic_timer_interrupt_handler st = and_then (eoi st) (\<lambda>st1. Inr (None, st1))"

definition apic_keyboard_interrupt_handler :: "('q, u8) array_queue_ops \<Rightarrow> 'k atomic_waker_ops \<Rightarrow> (trace \<Rightarrow> u8) \<Rightarrow>
    ('q, 'k) irq_state \<Rightarrow> (task_id option \<times> ('q, 'k) irq_state) res" where
  "apic_keyboard_interrupt_handler Q A inb st =
     (let scancode = inb (io st); st1 = st\<lparr>io := io st @ [Port_In8 0x60 scancode]\<rparr>;
          (outcome, woken, k) = add_scancode Q A scancode (keyboard st1) in
      and_then (eoi (st1\<lparr>keyboard := k\<rparr>)) (\<lambda>st2. Inr (woken, st2)))"

definition apic_page_fault_handler :: "('q, 'k) irq_state \<Rightarrow> (task_id option \<times> ('q, 'k) irq_state) res" where
  "apic_page_fault_handler st = and_then (eoi st) (\<lambda>st1. Inr (None, st1))"

definition run_handler :: "('q, u8) array_queue_ops \<Rightarrow> 'k atomic_waker_ops \<Rightarrow> (trace \<Rightarrow> u8) \<Rightarrow> handler \<Rightarrow>
    ('q, 'k) irq_state \<Rightarrow> (task_id option \<times> ('q, 'k) irq_state) res" where
  "run_handler Q A inb h st =
     (case h of
        Handle_Breakpoint \<Rightarrow> breakpoint_handler st
      | Handle_Double_Fault \<Rightarrow> double_fault_handler st
      | Handle_Page_Fault \<Rightarrow> apic_page_fault_handler st
      | Handle_Timer \<Rightarrow> apic_timer_interrupt_handler st
      | Handle_Spurious \<Rightarrow> spurious_interrupt_handler st
      | Handle_Keyboard \<Rightarrow> apic_keyboard_interrupt_handler Q A inb st)"

lemmas handler_defs = run_handler_def breakpoint_handler_def double_fault_handler_def spurious_interrupt_handler_def
  apic_timer_interrupt_handler_def apic_keyboard_interrupt_handler_def apic_page_fault_handler_def


section \<open>Bringing up the interrupt controllers\<close>

record io_apic =
  ioa_id :: u8
  ioa_address :: u32
  global_system_interrupt_base :: u32

record apic_info =
  local_apic_address :: nat
  also_has_legacy_pics :: bool
  io_apics :: "io_apic list"

datatype interrupt_model = Apic apic_info | Other_Model

definition init_apic :: "profile \<Rightarrow> (trace \<Rightarrow> nat \<Rightarrow> u32) \<Rightarrow> nat \<Rightarrow> interrupt_model \<Rightarrow> ('q, 'k) irq_state \<Rightarrow> ('q, 'k) irq_state res" where
  "init_apic p rd offset model st =
     (case model of
        Apic apic \<Rightarrow>
          and_then (map_apic_registers p offset (local_apic_address apic)) (\<lambda>apic_mmio.
          let st1 = st\<lparr>APIC_BASE := Some apic_mmio\<rparr>;
              tr1 = (if also_has_legacy_pics apic then disable_pic (io st1) else io st1);
              tr2 = enable_local_apic rd apic_mmio tr1;
              tr3 = init_apic_timer apic_mmio TIMER_VEC tr2 in
          and_then (for_each (\<lambda>_. set_ioapic_redirect p offset 1 0 0x2F Edge ActiveHigh) (io_apics apic) tr3) (\<lambda>tr4.
          Inr (st1\<lparr>io := tr4\<rparr>)))
      | Other_Model \<Rightarrow> Inl (Panic ''Non-APIC model!''))"

section \<open>What the hardware makes of a trace\<close>

text \<open>
  The last value written to an address; the registers behind the index and data window of an I/O APIC
  (82093AA); and the fields of a redirection entry and of the vector registers, at the bits the
  hardware manuals give them.
\<close>

fun reg_write :: "nat \<Rightarrow> u32 option \<Rightarrow> io_event \<Rightarrow> u32 option" where
  "reg_write a r (Write32 b v) = (if b = a then Some v else r)"
| "reg_write a r _ = r"

definition reg_of :: "nat \<Rightarrow> trace \<Rightarrow> u32 option" where
  "reg_of a tr = foldl (reg_write a) None tr"

fun ioapic_event :: "nat \<Rightarrow> u32 \<times> (u32 \<rightharpoonup> u32) \<Rightarrow> io_event \<Rightarrow> u32 \<times> (u32 \<rightharpoonup> u32)" where
  "ioapic_event base (sel, regs) (Write32 a v) =
     (if a = base then (v, regs) else if a = base + 0x10 then (sel, regs(sel \<mapsto> v)) else (sel, regs))"
| "ioapic_event base s _ = s"

definition ioapic_regs :: "nat \<Rightarrow> trace \<Rightarrow> u32 \<rightharpoonup> u32" where
  "ioapic_regs base tr = snd (foldl (ioapic_event base) (0, \<lambda>_. None) tr)"

definition hw_vector :: "u32 \<Rightarrow> u8" where "hw_vector low = ucast (low AND 0xff)"
definition hw_delivery_mode :: "u32 \<Rightarrow> u32" where "hw_delivery_mode low = (drop_bit 8 low AND 7)"
definition hw_active_low :: "u32 \<Rightarrow> bool" where "hw_active_low low = bit low 13"
definition hw_level_triggered :: "u32 \<Rightarrow> bool" where "hw_level_triggered low = bit low 15"
definition hw_masked :: "u32 \<Rightarrow> bool" where "hw_masked low = bit low 16"
definition hw_periodic :: "u32 \<Rightarrow> bool" where "hw_periodic lvt = bit lvt 17"
definition hw_destination :: "u32 \<Rightarrow> u32" where "hw_destination high = drop_bit 24 high"

lemmas hw_defs = hw_vector_def hw_delivery_mode_def hw_active_low_def hw_level_triggered_def hw_masked_def
  hw_periodic_def hw_destination_def

text \<open>The enumeration of the legacy vectors is not what the table handles.\<close>

lemma legacy_vectors_unhandled: "IDT (interrupt_index_u8 i) = None" "interrupt_index_u8 i \<notin> {TIMER_VEC, KEYBOARD_VEC}"
  by (cases i; simp add: IDT_def TIMER_VEC_def KEYBOARD_VEC_def SPURIOUS_VEC_def PIC_1_OFFSET_def)+

lemma reg_of_snoc [simp]: "reg_of a (tr @ [e]) = reg_write a (reg_of a tr) e"
  by (simp add: reg_of_def)

lemma reg_of_append_other:
  "(\<And>b v. Write32 b v \<in> set tr' \<Longrightarrow> b \<noteq> a) \<Longrightarrow> reg_of a (tr @ tr') = reg_of a tr"
proof (induction tr' rule: rev_induct)
  case (snoc e tr')
  have "reg_of a (tr @ tr') = reg_of a tr" by (rule snoc.IH) (use snoc.prems in auto)
  moreover have "reg_write a r e = r" for r using snoc.prems by (cases e) auto
  ultimately show ?case by (simp flip: append_assoc)
qed simp

lemma map_apic_registers_eq: "offset + base < 2 ^ 64 \<Longrightarrow> map_apic_registers p offset base = Inr (offset + base)"
  using align_down_le [of base] by (simp add: map_apic_registers_def u64_sub_ok u64_add_ok)

text \<open>The four writes of one redirection.\<close>

definition redirect_writes :: "nat \<Rightarrow> u32 \<Rightarrow> u32 \<Rightarrow> u32 \<Rightarrow> trace" where
  "redirect_writes base i low high =
     [Write32 base i, Write32 (base + 0x10) low, Write32 base (i + 1), Write32 (base + 0x10) high]"

lemma set_ioapic_redirect_eq:
  assumes "offset + 0xfec00000 < 2 ^ 64" and "0x10 + 2 * unat gsi + 1 < 2 ^ 32"
  shows "set_ioapic_redirect p offset gsi dest vec trigger polarity tr =
    Inr (tr @ redirect_writes (offset + 0xfec00000) (0x10 + 2 * gsi) (redirect_low vec trigger polarity) (push_bit 24 dest))"
proof -
  have g: "unat (2 * gsi) = 2 * unat gsi" using assms(2) by (simp add: unat_mult_lem [THEN iffD1])
  have "unat (0x10 + 2 * gsi) = 0x10 + 2 * unat gsi"
    using assms(2) g by (simp add: unat_add_lem [THEN iffD1])
  then show ?thesis using assms g
    by (simp add: set_ioapic_redirect_def map_io_apic_def u64_add_ok u32_mul_def u32_add_def ioapic_write_def
        IOREGSEL_def IOWIN_def redirect_writes_def)
qed

lemma ioapic_regs_redirect:
  "ioapic_regs base (tr @ redirect_writes base i low high) = (ioapic_regs base tr)(i \<mapsto> low, i + 1 \<mapsto> high)"
  by (cases "foldl (ioapic_event base) (0, \<lambda>_. None) tr") (simp add: ioapic_regs_def redirect_writes_def)

text \<open>Redirecting once per I/O APIC repeats the same writes.\<close>

lemma redirect_all:
  assumes "offset + 0xfec00000 < 2 ^ 64"
  shows "for_each (\<lambda>_. set_ioapic_redirect p offset 1 0 0x2F Edge ActiveHigh) xs tr =
    Inr (tr @ concat (replicate (length xs) (redirect_writes (offset + 0xfec00000) 0x12 0x2F 0)))"
proof (induction xs arbitrary: tr)
  case (Cons x xs)
  have "set_ioapic_redirect p offset 1 0 0x2F Edge ActiveHigh tr = Inr (tr @ redirect_writes (offset + 0xfec00000) 0x12 0x2F 0)"
    using set_ioapic_redirect_eq [OF assms, of 1 p 0 "0x2F" Edge ActiveHigh tr] by (simp add: redirect_low_def)
  with Cons.IH show ?case by simp
qed simp

lemma concat_replicate_Suc: "concat (replicate (Suc n) xs) = concat (replicate n xs) @ xs"
  by (induction n) simp_all

lemma redirect_all_regs:
  assumes "0 < n"
  shows "ioapic_regs base (tr @ concat (replicate n (redirect_writes base 0x12 low high))) 0x12 = Some low"
    and "ioapic_regs base (tr @ concat (replicate n (redirect_writes base 0x12 low high))) 0x13 = Some high"
proof -
  obtain m where "n = Suc m" using assms by (cases n) auto
  then have "tr @ concat (replicate n (redirect_writes base 0x12 low high)) =
      (tr @ concat (replicate m (redirect_writes base 0x12 low high))) @ redirect_writes base 0x12 low high"
    by (simp only: concat_replicate_Suc append_assoc)
  then show "ioapic_regs base (tr @ concat (replicate n (redirect_writes base 0x12 low high))) 0x12 = Some low"
    "ioapic_regs base (tr @ concat (replicate n (redirect_writes base 0x12 low high))) 0x13 = Some high"
    by (simp_all only: ioapic_regs_redirect) simp_all
qed

section \<open>Properties\<close>

text \<open>
  The trace of \<open>init_apic\<close>, with its writes spelled out: \<open>b\<close> is the local APIC, \<open>n\<close> the number of I/O APICs.
\<close>

definition apic_writes :: "nat \<Rightarrow> nat \<Rightarrow> nat \<Rightarrow> u32 \<Rightarrow> trace" where
  "apic_writes b iob n lapic_id =
     [Write32 (b + 0xF0) 0x1FF, Write32 (b + 0x80) 0, Read32 (b + 0x20) lapic_id, Write32 (b + 0x3E0) 3,
      Write32 (b + 0x320) 0x2002E, Write32 (b + 0x380) 20000000] @ concat (replicate n (redirect_writes iob 0x12 0x2F 0))"

lemma init_apic_eq:
  assumes "offset + local_apic_address apic < 2 ^ 64" and "offset + 0xfec00000 < 2 ^ 64"
  shows "\<exists>lapic_id. init_apic p rd offset (Apic apic) st =
    Inr (st\<lparr>APIC_BASE := Some (offset + local_apic_address apic),
      io := io st @ (if also_has_legacy_pics apic then [Port_Out8 0x21 0xFF, Port_Out8 0xA1 0xFF] else []) @
        apic_writes (offset + local_apic_address apic) (offset + 0xfec00000) (length (io_apics apic)) lapic_id\<rparr>)"
  by (auto simp: map_apic_registers_eq [OF assms(1)] redirect_all [OF assms(2)] init_apic_def Let_def enable_local_apic_def init_apic_timer_def read_apic_reg_def write_apic_reg_def
      disable_pic_def apic_consts apic_writes_def TIMER_VEC_def)

lemma apic_writes_regs:
  assumes "b + 0x400 \<le> iob \<or> iob + 0x20 \<le> b"
  shows "reg_of (b + 0xF0) (tr @ apic_writes b iob n i) = Some 0x1FF"
    and "reg_of (b + 0x80) (tr @ apic_writes b iob n i) = Some 0"
    and "reg_of (b + 0x320) (tr @ apic_writes b iob n i) = Some 0x2002E"
    and "reg_of (b + 0x3E0) (tr @ apic_writes b iob n i) = Some 3"
    and "reg_of (b + 0x380) (tr @ apic_writes b iob n i) = Some 20000000"
proof -
  let ?l = "[Write32 (b + 0xF0) 0x1FF, Write32 (b + 0x80) 0, Read32 (b + 0x20) i, Write32 (b + 0x3E0) 3,
      Write32 (b + 0x320) 0x2002E, Write32 (b + 0x380) 20000000]"
  have "reg_of (b + k) (tr @ apic_writes b iob n i) = reg_of (b + k) (tr @ ?l)" if "k < 0x400" for k
    unfolding apic_writes_def append_assoc [symmetric]
    by (rule reg_of_append_other) (use that assms in \<open>auto simp: redirect_writes_def split: if_splits\<close>)
  then show "reg_of (b + 0xF0) (tr @ apic_writes b iob n i) = Some 0x1FF"
    "reg_of (b + 0x80) (tr @ apic_writes b iob n i) = Some 0"
    "reg_of (b + 0x320) (tr @ apic_writes b iob n i) = Some 0x2002E"
    "reg_of (b + 0x3E0) (tr @ apic_writes b iob n i) = Some 3"
    "reg_of (b + 0x380) (tr @ apic_writes b iob n i) = Some 20000000"
    by (simp_all add: reg_of_def)
qed

text \<open>
  C25. \<open>init_apic\<close> leaves interrupt controllers and descriptor table in agreement. With an I/O APIC, and
  address windows that do not overlap, it returns with \<open>APIC_BASE\<close> at the mapped registers; the local
  APIC is enabled, lets every priority in and has its periodic timer unmasked with a running count; the
  keyboard's redirection entry is unmasked, of fixed delivery, edge-triggered, active-high and goes to
  processor 0; the legacy controllers are masked if present; and the vectors of the timer, the keyboard
  and the spurious interrupt are those whose table entries hold their handlers.
\<close>

theorem init_apic_ready:
  assumes "offset + local_apic_address apic < 2 ^ 64" and "offset + 0xfec00000 < 2 ^ 64" and "io_apics apic \<noteq> []"
    and "local_apic_address apic + 0x400 \<le> 0xfec00000 \<or> 0xfec00000 + 0x20 \<le> local_apic_address apic"
  shows "\<exists>st' svr lvt low high. init_apic p rd offset (Apic apic) st = Inr st' \<and>
    (let b = offset + local_apic_address apic in APIC_BASE st' = Some b \<and>
       reg_of (b + 0xF0) (io st') = Some svr \<and> bit svr 8 \<and> IDT (hw_vector svr) = Some Handle_Spurious \<and>
       reg_of (b + 0x80) (io st') = Some 0 \<and>
       reg_of (b + 0x320) (io st') = Some lvt \<and> hw_periodic lvt \<and> \<not> hw_masked lvt \<and>
       IDT (hw_vector lvt) = Some Handle_Timer \<and> reg_of (b + 0x380) (io st') = Some 20000000 \<and>
       ioapic_regs (offset + 0xfec00000) (io st') 0x12 = Some low \<and> ioapic_regs (offset + 0xfec00000) (io st') 0x13 = Some high \<and>
       \<not> hw_masked low \<and> hw_delivery_mode low = 0 \<and> \<not> hw_level_triggered low \<and> \<not> hw_active_low low \<and>
       hw_destination high = 0 \<and> IDT (hw_vector low) = Some Handle_Keyboard \<and>
       (also_has_legacy_pics apic \<longrightarrow> {Port_Out8 0x21 0xFF, Port_Out8 0xA1 0xFF} \<subseteq> set (io st')))"
proof -
  let ?b = "offset + local_apic_address apic" and ?iob = "offset + 0xfec00000"
  let ?pre = "io st @ (if also_has_legacy_pics apic then [Port_Out8 0x21 0xFF, Port_Out8 0xA1 0xFF] else [])"
  obtain i where i: "init_apic p rd offset (Apic apic) st =
      Inr (st\<lparr>APIC_BASE := Some ?b, io := ?pre @ apic_writes ?b ?iob (length (io_apics apic)) i\<rparr>)"
    using init_apic_eq [OF assms(1,2), of p rd st] by auto
  have "?b + 0x400 \<le> ?iob \<or> ?iob + 0x20 \<le> ?b" using assms(4) by auto
  note regs = apic_writes_regs [OF this, of ?pre "length (io_apics apic)" i]
  have "0 < length (io_apics apic)" using assms(3) by simp
  note entry = redirect_all_regs [OF this, of ?iob "?pre @ take 6 (apic_writes ?b ?iob 0 i)" "0x2F" 0]
  have tr: "?pre @ apic_writes ?b ?iob (length (io_apics apic)) i =
      (?pre @ take 6 (apic_writes ?b ?iob 0 i)) @ concat (replicate (length (io_apics apic)) (redirect_writes ?iob 0x12 0x2F 0))"
    by (simp add: apic_writes_def)
  have idt: "IDT 0xFF = Some Handle_Spurious" "IDT 0x2E = Some Handle_Timer"
      "IDT 0x2F = Some Handle_Keyboard"
    by (simp_all add: IDT_def TIMER_VEC_def KEYBOARD_VEC_def SPURIOUS_VEC_def)
  have hw: "hw_vector 0x1FF = 0xFF" "hw_vector 0x2002E = 0x2E" "hw_vector 0x2F = 0x2F" "bit (0x1FF :: u32) 8"
      "hw_periodic 0x2002E" "\<not> hw_masked 0x2002E" "\<not> hw_masked 0x2F" "hw_delivery_mode 0x2F = 0"
      "\<not> hw_level_triggered 0x2F" "\<not> hw_active_low 0x2F" "hw_destination 0 = 0"
    by (simp_all add: hw_defs bit_simps)
  obtain st' where st': "init_apic p rd offset (Apic apic) st = Inr st'" "APIC_BASE st' = Some ?b"
      "io st' = ?pre @ apic_writes ?b ?iob (length (io_apics apic)) i" using i by simp
  have pics: "{Port_Out8 0x21 0xFF, Port_Out8 0xA1 0xFF} \<subseteq> set (io st')" if "also_has_legacy_pics apic"
    using that st'(3) by simp
  show ?thesis unfolding Let_def
    by (rule exI [of _ st'], rule exI [of _ "0x1FF"], rule exI [of _ "0x2002E"], rule exI [of _ "0x2F"], rule exI [of _ 0])
      (use st'(1,2) regs [folded st'(3)] entry [folded tr, folded st'(3)] idt hw pics in simp)
qed

definition example_apic :: apic_info where
  "example_apic = \<lparr>local_apic_address = 0xfee00000, also_has_legacy_pics = True,
     io_apics = [\<lparr>ioa_id = 0, ioa_address = 0xfec00000, global_system_interrupt_base = 0\<rparr>]\<rparr>"

definition example_irq_state :: "(nat \<times> u8 list, task_id option) irq_state" where
  "example_irq_state = \<lparr>APIC_BASE = None, io = [], keyboard = kbd_init cell_waker\<rparr>"

theorem init_apic_ready_witness:
  "\<exists>st'. init_apic Debug (\<lambda>_ _. 0) 0x18000000000 (Apic example_apic) example_irq_state = Inr st' \<and>
    APIC_BASE st' = Some (0x18000000000 + 0xfee00000)"
  using init_apic_ready [of "0x18000000000" example_apic Debug "\<lambda>_ _. 0" example_irq_state]
  by (auto simp: example_apic_def)

lemma eoi_some: "APIC_BASE st = Some b \<Longrightarrow> eoi st = Inr (st\<lparr>io := io st @ [Write32 (b + 0xB0) 0]\<rparr>)"
  by (simp add: eoi_def write_apic_reg_def APIC_REG_EOI_def)

lemma add_scancode_room:
  assumes "array_queue Q elems cap" and "atomic_waker A current"
    and "SCANCODE_QUEUE k = Some q" and "length (elems q) < cap q"
  shows "\<exists>k'. add_scancode Q A s k = (Queued, current (WAKER k), k') \<and>
    (\<exists>q'. SCANCODE_QUEUE k' = Some q' \<and> elems q' = elems q @ [s])"
  using array_queue.push_room [OF assms(1,4), of s] atomic_waker.take_current [OF assms(2), of "WAKER k"] assms(3)
  by (auto simp: add_scancode_def)



lemma bit_single: "m < 32 \<Longrightarrow> bit (push_bit m 1 :: u32) n \<longleftrightarrow> n = m"
  by (auto simp: bit_exp_iff)

lemma redirect_low_bit:
  "bit (redirect_low vec trigger pol) n \<longleftrightarrow> bit vec n \<or> n = 13 \<and> trigger = Level \<or> n = 15 \<and> pol = ActiveLow"
  using bit_single [of 13 n] bit_single [of 15 n]
  by (cases trigger; cases pol) (auto simp: redirect_low_def bit_simps dest: bit_imp_le_length)

text \<open>
  C40. Trigger mode and polarity are swapped: of an entry \<open>set_ioapic_redirect\<close> builds, the hardware takes
  the level-trigger bit for the polarity and the active-low bit for the trigger mode. Vector and mask are
  right, and so is the one entry the kernel programs, where both bits are clear.
\<close>

theorem ioapic_trigger_polarity_swapped:
  "(hw_active_low (redirect_low vec trigger pol) \<longleftrightarrow> trigger = Level) \<and>
   (hw_level_triggered (redirect_low vec trigger pol) \<longleftrightarrow> pol = ActiveLow) \<and>
   hw_vector (redirect_low vec trigger pol) = vec \<and> \<not> hw_masked (redirect_low vec trigger pol)"
proof -
  have mask: "(0xff :: u32) = mask 8" by (simp add: mask_eq_exp_minus_1)
  have "hw_vector (redirect_low vec trigger pol) = vec"
    unfolding hw_vector_def mask by (rule bit_word_eqI) (auto simp: bit_simps redirect_low_bit)
  then show ?thesis
    by (auto simp: hw_active_low_def hw_level_triggered_def hw_masked_def redirect_low_bit dest: bit_imp_le_length)
qed

end
