(* ===== verification/Hpet_Timer.thy ===== *)
theory Hpet_Timer
  imports Apic_Interrupts
begin

text \<open>
  The high precision event timer (\<^verbatim>\<open>kernel/src/init/hpet.rs\<close>) and the delays and clock on it
  (\<^verbatim>\<open>timer.rs\<close>). The device is a parameter: \<open>rd tr a\<close> is what a 64-bit read of address \<open>a\<close> returns
  after the accesses in \<open>tr\<close>. So is its main counter, of which nothing is assumed but what a property
  says. A loop that polls it may not end.
\<close>

unbundle bit_operations_syntax

section \<open>Operations\<close>

definition HPET_CAPS_OFFSET :: nat where "HPET_CAPS_OFFSET = 0x0"
definition HPET_CONFIG_OFFSET :: nat where "HPET_CONFIG_OFFSET = 0x10"
definition HPET_COUNTER_OFFSET :: nat where "HPET_COUNTER_OFFSET = 0xF0"

definition read64 :: "(trace \<Rightarrow> nat \<Rightarrow> u64) \<Rightarrow> nat \<Rightarrow> trace \<Rightarrow> u64 \<times> trace" where
  "read64 rd a tr = (rd tr a, tr @ [Read64 a (rd tr a)])"

text \<open>A pointer to \<open>u64\<close> advances by 8 bytes per element. The values read here are only printed.\<close>

definition init_hpet :: "profile \<Rightarrow> (trace \<Rightarrow> nat \<Rightarrow> u64) \<Rightarrow> nat \<Rightarrow> nat \<Rightarrow> trace \<Rightarrow> (nat \<times> trace) res" where
  "init_hpet p rd base_address offset tr =
     and_then (u64_add p base_address offset) (\<lambda>HPET_BASE.
     let (caps, tr1) = read64 rd (HPET_BASE + 8 * (HPET_CAPS_OFFSET div 8)) tr;
         config_ptr = HPET_BASE + 8 * (HPET_CONFIG_OFFSET div 8);
         tr2 = tr1 @ [Write64 config_ptr 1];
         (config, tr3) = read64 rd config_ptr tr2;
         (main_counter, tr4) = read64 rd (HPET_BASE + 8 * (HPET_COUNTER_OFFSET div 8)) tr3 in
     Inr (HPET_BASE, tr4))"

definition get_clock_tick_unit_fallback :: "(trace \<Rightarrow> nat \<Rightarrow> u64) \<Rightarrow> nat \<Rightarrow> trace \<Rightarrow> u32 \<times> trace" where
  "get_clock_tick_unit_fallback rd hpet_base tr =
     (let (caps, tr1) = read64 rd hpet_base tr in (ucast (drop_bit 32 caps), tr1))"

text \<open>The loop that spins until the counter reaches the target: a loop that may run forever.\<close>

partial_function (option) spin_until :: "(trace \<Rightarrow> nat \<Rightarrow> u64) \<Rightarrow> nat \<Rightarrow> u64 \<Rightarrow> trace \<Rightarrow> trace option" where
  "spin_until rd ptr target tr =
     (let (v, tr1) = read64 rd ptr tr in if v < target then spin_until rd ptr target tr1 else Some tr1)"

text \<open>\<open>delay_ms\<close> and \<open>delay_us\<close> differ in the number of femtoseconds in their unit.\<close>

definition hpet_delay :: "profile \<Rightarrow> (trace \<Rightarrow> nat \<Rightarrow> u64) \<Rightarrow> nat \<Rightarrow> nat \<Rightarrow> nat \<Rightarrow> trace \<Rightarrow> trace res option" where
  "hpet_delay p rd hpet_base fs_per_unit n tr =
     (let (clock_tick_unit, tr1) = get_clock_tick_unit_fallback rd hpet_base tr in
      if clock_tick_unit = 0 then Some (Inl (Panic ''HPET clock tick unit is still zero!''))
      else
        let main_counter_ptr = hpet_base + 8 * (0xF0 div 8);
            (start, tr2) = read64 rd main_counter_ptr tr1 in
        case u64_mul p n fs_per_unit of
          Inl e \<Rightarrow> Some (Inl e)
        | Inr delay_fs \<Rightarrow>
            let ticks_to_wait = delay_fs div unat clock_tick_unit;
                target = start + of_nat ticks_to_wait in
            map_option Inr (spin_until rd main_counter_ptr target tr2))"

definition delay_ms :: "profile \<Rightarrow> (trace \<Rightarrow> nat \<Rightarrow> u64) \<Rightarrow> nat \<Rightarrow> nat \<Rightarrow> trace \<Rightarrow> trace res option" where
  "delay_ms p rd hpet_base ms tr = hpet_delay p rd hpet_base 1000000000000 ms tr"

definition delay_us :: "profile \<Rightarrow> (trace \<Rightarrow> nat \<Rightarrow> u64) \<Rightarrow> nat \<Rightarrow> nat \<Rightarrow> trace \<Rightarrow> trace res option" where
  "delay_us p rd hpet_base us tr = hpet_delay p rd hpet_base 1000000000 us tr"

definition get_current_time_us :: "profile \<Rightarrow> (trace \<Rightarrow> nat \<Rightarrow> u64) \<Rightarrow> nat \<Rightarrow> trace \<Rightarrow> (nat \<times> trace) res" where
  "get_current_time_us p rd hpet_base tr =
     (let (clock_tick_unit, tr1) = get_clock_tick_unit_fallback rd hpet_base tr in
      if clock_tick_unit = 0 then Inl (Panic ''HPET clock tick unit is zero!'')
      else
        let main_counter_ptr = hpet_base + 8 * (0xF0 div 8);
            (ticks, tr2) = read64 rd main_counter_ptr tr1 in
        and_then (u64_mul p (unat ticks) (unat clock_tick_unit)) (\<lambda>t. Inr (t div 1000000000, tr2)))"


section \<open>Polling\<close>

text \<open>The trace after \<open>k\<close> reads of an address.\<close>

fun polls :: "(trace \<Rightarrow> nat \<Rightarrow> u64) \<Rightarrow> nat \<Rightarrow> nat \<Rightarrow> trace \<Rightarrow> trace" where
  "polls rd a 0 tr = tr"
| "polls rd a (Suc k) tr = polls rd a k (tr @ [Read64 a (rd tr a)])"

lemma spin_until_done: "target \<le> rd tr a \<Longrightarrow> spin_until rd a target tr = Some (tr @ [Read64 a (rd tr a)])"
  by (subst spin_until.simps) (auto simp: read64_def dest: leD)

lemma spin_until_again: "rd tr a < target \<Longrightarrow> spin_until rd a target tr = spin_until rd a target (tr @ [Read64 a (rd tr a)])"
  by (subst spin_until.simps) (simp add: read64_def)

lemma spin_until_returns:
  assumes "target \<le> rd (polls rd a k tr) a"
  shows "\<exists>j\<le>k. spin_until rd a target tr = Some (polls rd a (Suc j) tr) \<and> target \<le> rd (polls rd a j tr) a \<and>
    (\<forall>i<j. rd (polls rd a i tr) a < target)"
  using assms
proof (induction k arbitrary: tr)
  case 0
  then show ?case by (auto simp: spin_until_done)
next
  case (Suc k)
  show ?case
  proof (cases "target \<le> rd tr a")
    case True
    then show ?thesis by (intro exI [of _ 0]) (simp add: spin_until_done)
  next
    case False
    obtain j where j: "j \<le> k" "spin_until rd a target (tr @ [Read64 a (rd tr a)]) = Some (polls rd a (Suc j) (tr @ [Read64 a (rd tr a)]))"
        "target \<le> rd (polls rd a j (tr @ [Read64 a (rd tr a)])) a"
        "\<forall>i<j. rd (polls rd a i (tr @ [Read64 a (rd tr a)])) a < target"
      using Suc.IH [of "tr @ [Read64 a (rd tr a)]"] Suc.prems by auto
    have "\<forall>i<Suc j. rd (polls rd a i tr) a < target"
      using False j(4) by (auto simp: less_Suc_eq_0_disj)
    then show ?thesis using j False
      by (intro exI [of _ "Suc j"]) (simp add: spin_until_again not_le)
  qed
qed

lemma polls_snoc: "polls rd a (Suc k) tr = polls rd a k tr @ [Read64 a (rd (polls rd a k tr) a)]"
proof (induction k arbitrary: tr)
  case (Suc k)
  show ?case using Suc.IH [of "tr @ [Read64 a (rd tr a)]"] by (simp only: polls.simps)
qed simp

text \<open>A delay up to its polling loop.\<close>

lemma hpet_delay_spin:
  fixes rd hpet_base tr
  defines "unit \<equiv> unat (ucast (drop_bit 32 (rd tr hpet_base)) :: u32)"
    and "tr1 \<equiv> tr @ [Read64 hpet_base (rd tr hpet_base)]"
  defines "start \<equiv> rd tr1 (hpet_base + 0xF0)"
  assumes "unit \<noteq> 0" and "n * fs < 2 ^ 64"
  shows "hpet_delay p rd hpet_base fs n tr =
    map_option Inr (spin_until rd (hpet_base + 0xF0) (start + of_nat (n * fs div unit)) (tr1 @ [Read64 (hpet_base + 0xF0) start]))"
  using assms(4,5) unfolding assms(1-3)
  by (simp add: hpet_delay_def get_clock_tick_unit_fallback_def read64_def u64_mul_ok unat_eq_0 Let_def)


section \<open>Properties\<close>

text \<open>
  A counter that advances by ten ticks between two reads, of a tick of 100 ns: the device of the examples.
\<close>

definition example_hpet :: "trace \<Rightarrow> nat \<Rightarrow> u64" where
  "example_hpet tr a = (if a = 0x1000 then push_bit 32 100000000 else of_nat (10 * length tr))"


text \<open>
  A delay across the wrap-around of the counter does not wait: if the start and the ticks exceed 64
  bits, the target wraps below the start, and the first value read ends the delay, unless the counter
  has wrapped as well by then.
\<close>

lemma hpet_delay_wraps:
  fixes rd hpet_base tr
  defines "unit \<equiv> unat (ucast (drop_bit 32 (rd tr hpet_base)) :: u32)"
    and "tr1 \<equiv> tr @ [Read64 hpet_base (rd tr hpet_base)]"
  defines "start \<equiv> rd tr1 (hpet_base + 0xF0)"
  defines "tr2 \<equiv> tr1 @ [Read64 (hpet_base + 0xF0) start]"
  assumes "unit \<noteq> 0" and "n * fs < 2 ^ 64" and "unat start + n * fs div unit \<ge> 2 ^ 64"
    and "start \<le> rd tr2 (hpet_base + 0xF0)"
  shows "hpet_delay p rd hpet_base fs n tr = Some (Inr (tr2 @ [Read64 (hpet_base + 0xF0) (rd tr2 (hpet_base + 0xF0))]))"
proof -
  let ?a = "hpet_base + 0xF0" and ?k = "n * fs div unit"
  have k: "?k < 2 ^ 64" using assms(6) div_le_dividend [of "n * fs" unit] by linarith
  have "unat (start + of_nat ?k) = unat start + ?k - 2 ^ 64"
    unfolding unat_add_u64 unat_of_nat_u64 [OF k] by (rule mod_once [OF unat_u64_less k assms(7)])
  then have "start + of_nat ?k \<le> start" using k by (simp add: word_le_nat_alt)
  then have "start + of_nat ?k \<le> rd tr2 ?a" using assms(8) by (rule order_trans)
  then show ?thesis
    using hpet_delay_spin [of rd tr hpet_base n fs p] assms(5,6) spin_until_done [of _ rd tr2 ?a] unfolding assms(1-4) by simp
qed


text \<open>
  The clock in microseconds is exact until the product of ticks and femtoseconds leaves 64 bits;
  from then on a debug build panics and a release build jumps back to a small value. With a tick of
  100 ns this happens after about five hours. A tick length of zero panics.
\<close>

lemma current_time_branches:
  fixes rd hpet_base tr
  defines "unit \<equiv> unat (ucast (drop_bit 32 (rd tr hpet_base)) :: u32)"
    and "tr1 \<equiv> tr @ [Read64 hpet_base (rd tr hpet_base)]"
  defines "ticks \<equiv> rd tr1 (hpet_base + 0xF0)"
  defines "tr2 \<equiv> tr1 @ [Read64 (hpet_base + 0xF0) ticks]"
  shows "(unit = 0 \<longrightarrow> get_current_time_us p rd hpet_base tr = Inl (Panic ''HPET clock tick unit is zero!'')) \<and>
    (unit \<noteq> 0 \<and> unat ticks * unit < 2 ^ 64 \<longrightarrow>
      get_current_time_us p rd hpet_base tr = Inr (unat ticks * unit div 10 ^ 9, tr2)) \<and>
    (unit \<noteq> 0 \<and> unat ticks * unit \<ge> 2 ^ 64 \<longrightarrow>
      get_current_time_us Debug rd hpet_base tr = Inl Arith_Overflow \<and>
      get_current_time_us Release rd hpet_base tr = Inr (unat ticks * unit mod 2 ^ 64 div 10 ^ 9, tr2))"
  unfolding assms
  by (simp add: get_current_time_us_def get_clock_tick_unit_fallback_def read64_def Let_def u64_mul_def u64_wrap_def unat_eq_0)

end
