(* ===== verification/Smp_Startup.thy ===== *)
theory Smp_Startup
  imports Hpet_Timer Byte_Memory
begin

text \<open>
  Starting the other processors (\<^verbatim>\<open>kernel/src/init/multicore.rs\<close>, \<^verbatim>\<open>smp/trampoline.rs\<close>): the
  trampoline is copied to low memory and patched, and each waiting processor gets an INIT and two
  STARTUP messages.

  Memory is a map from addresses to bytes. The image of the trampoline is made by the build and the
  addresses of \<^verbatim>\<open>AP_STACKS\<close> and \<^verbatim>\<open>ap_startup\<close> are chosen by the linker, so they are parameters,
  as is the value of CR3. \<open>rd32\<close> and \<open>rd64\<close> answer volatile reads; the communication word is read
  through \<open>rd32\<close>, because another processor writes it.
\<close>

unbundle bit_operations_syntax

section \<open>The trampoline\<close>

definition TRAMPOLINE_BASE :: nat where "TRAMPOLINE_BASE = 0x8000"
definition CR3VAL_OFFSET :: nat where "CR3VAL_OFFSET = 0"
definition KCODE_OFFSET :: nat where "KCODE_OFFSET = 8"
definition KSTACK_OFFSET :: nat where "KSTACK_OFFSET = 16"
definition KGSVAL_OFFSET :: nat where "KGSVAL_OFFSET = 24"
definition COMMWORD_OFFSET :: nat where "COMMWORD_OFFSET = 32"

lemmas trampoline_consts = TRAMPOLINE_BASE_def CR3VAL_OFFSET_def KCODE_OFFSET_def KSTACK_OFFSET_def
  KGSVAL_OFFSET_def COMMWORD_OFFSET_def

definition NUM_AP_STACKS :: nat where "NUM_AP_STACKS = 4"
definition AP_STACK_SIZE :: nat where "AP_STACK_SIZE = 32768"

record smp_state =
  memory :: "nat \<Rightarrow> u8"
  AP_STACK_INDEX :: nat
  STACK_TOP :: u32
  smp_io :: trace

text \<open>What the linker, the build and the boot processor provide.\<close>

record smp_env =
  AP_TRAMPOLINE_BIN :: "u8 list"
  AP_STACKS :: nat
  ap_startup_addr :: u64
  read_cr3 :: u64

definition load_ap_trampoline :: "profile \<Rightarrow> nat \<Rightarrow> smp_env \<Rightarrow> smp_state \<Rightarrow> smp_state res" where
  "load_ap_trampoline p offset E st =
     and_then (u64_add p offset TRAMPOLINE_BASE) (\<lambda>dest.
     let bin = AP_TRAMPOLINE_BIN E in
     Inr (st\<lparr>memory := (\<lambda>b. if dest \<le> b \<and> b < dest + length bin then bin ! (b - dest) else memory st b)\<rparr>))"

definition allocate_ap_stack :: "profile \<Rightarrow> smp_env \<Rightarrow> smp_state \<Rightarrow> (nat \<times> smp_state) res" where
  "allocate_ap_stack p E st =
     (let index = AP_STACK_INDEX st; st1 = st\<lparr>AP_STACK_INDEX := (index + 1) mod 2 ^ 64\<rparr> in
      if index \<ge> NUM_AP_STACKS then Inl (Panic ''Out of AP stacks!'')
      else and_then (u64_add p (AP_STACKS E + index * AP_STACK_SIZE) AP_STACK_SIZE) (\<lambda>top. Inr (top, st1)))"

definition patch_trampoline :: "profile \<Rightarrow> nat \<Rightarrow> smp_env \<Rightarrow> smp_state \<Rightarrow> smp_state res" where
  "patch_trampoline p offset E st =
     and_then (u64_add p offset TRAMPOLINE_BASE) (\<lambda>tramp_ptr.
     let m1 = write_u64 (tramp_ptr + CR3VAL_OFFSET) (read_cr3 E) (memory st);
         m2 = write_u64 (tramp_ptr + KCODE_OFFSET) (ap_startup_addr E) m1 in
     and_then (allocate_ap_stack p E (st\<lparr>memory := m2\<rparr>)) (\<lambda>(ap_stack, st1).
     let m3 = write_u64 (tramp_ptr + KSTACK_OFFSET) (of_nat ap_stack) (memory st1);
         m4 = write_u64 (tramp_ptr + KGSVAL_OFFSET) 0 m3;
         m5 = write_u32 (tramp_ptr + COMMWORD_OFFSET) 0 m4 in
     Inr (st1\<lparr>memory := m5\<rparr>)))"

text \<open>\<open>size_of_val(&&raw const AP_STACKS)\<close> is the size of a raw pointer.\<close>

definition init_stack_top :: "smp_env \<Rightarrow> smp_state \<Rightarrow> smp_state" where
  "init_stack_top E st = st\<lparr>STACK_TOP := of_nat (AP_STACKS E) + 8\<rparr>"


section \<open>Inter-processor messages\<close>

definition write32 :: "nat \<Rightarrow> u32 \<Rightarrow> trace \<Rightarrow> trace" where
  "write32 a v tr = tr @ [Write32 a v]"

definition send_init_ipi :: "(trace \<Rightarrow> nat \<Rightarrow> u32) \<Rightarrow> nat \<Rightarrow> u32 \<Rightarrow> trace \<Rightarrow> trace" where
  "send_init_ipi rd32 lapic_base apic_id tr =
     (let tr1 = write32 (lapic_base + 4 * (0x280 div 4)) 0 tr;
          icr_high = lapic_base + 4 * (0x310 div 4);
          id8 = apic_id AND 0xff;
          v = rd32 tr1 icr_high; tr2 = tr1 @ [Read32 icr_high v];
          high = v AND 0x00FFFFFF;
          tr3 = write32 icr_high (high OR push_bit 24 id8) tr2;
          icr_low = lapic_base + 4 * (0x300 div 4) in
      write32 icr_low 0x00004500 tr3)"

definition send_startup_ipi :: "(trace \<Rightarrow> nat \<Rightarrow> u32) \<Rightarrow> nat \<Rightarrow> u32 \<Rightarrow> u8 \<Rightarrow> trace \<Rightarrow> trace" where
  "send_startup_ipi rd32 lapic_base apic_id vector tr =
     (let tr1 = write32 (lapic_base + 4 * (0x280 div 4)) 0 tr;
          icr_high = lapic_base + 4 * (0x310 div 4);
          id8 = apic_id AND 0xff;
          v = rd32 tr1 icr_high; tr2 = tr1 @ [Read32 icr_high v];
          high = v AND 0x00FFFFFF;
          tr3 = write32 icr_high (high OR push_bit 24 id8) tr2;
          icr_low = lapic_base + 4 * (0x300 div 4) in
      write32 icr_low (ucast vector OR 0x00004600) tr3)"

text \<open>
  The loops that wait for the communication word, of \<^verbatim>\<open>init/multicore.rs\<close> and of
  \<^verbatim>\<open>smp/trampoline.rs\<close>: the first polls before it looks at the clock, the second after.
\<close>

partial_function (option) wait_loop :: "profile \<Rightarrow> (trace \<Rightarrow> nat \<Rightarrow> u32) \<Rightarrow> (trace \<Rightarrow> nat \<Rightarrow> u64) \<Rightarrow> nat \<Rightarrow> nat \<Rightarrow> nat \<Rightarrow> nat \<Rightarrow>
    trace \<Rightarrow> (bool \<times> trace) res option" where
  "wait_loop p rd32 rd64 hpet_base comm_ptr timeout_us start tr =
     (let w = rd32 tr comm_ptr; tr1 = tr @ [Read32 comm_ptr w] in
      if w = 1 then Some (Inr (True, tr1))
      else case and_then (get_current_time_us p rd64 hpet_base tr1) (\<lambda>(now, tr2).
                  and_then (u64_sub p now start) (\<lambda>d. Inr (d, tr2))) of
             Inl e \<Rightarrow> Some (Inl e)
           | Inr (d, tr2) \<Rightarrow>
               if d \<ge> timeout_us then Some (Inr (False, tr2))
               else wait_loop p rd32 rd64 hpet_base comm_ptr timeout_us start tr2)"

definition wait_for_ap :: "profile \<Rightarrow> (trace \<Rightarrow> nat \<Rightarrow> u32) \<Rightarrow> (trace \<Rightarrow> nat \<Rightarrow> u64) \<Rightarrow> nat \<Rightarrow> nat \<Rightarrow> nat \<Rightarrow>
    trace \<Rightarrow> (bool \<times> trace) res option" where
  "wait_for_ap p rd32 rd64 hpet_base comm_ptr timeout_us tr =
     (case get_current_time_us p rd64 hpet_base tr of
        Inl e \<Rightarrow> Some (Inl e)
      | Inr (start, tr1) \<Rightarrow> wait_loop p rd32 rd64 hpet_base comm_ptr timeout_us start tr1)"

partial_function (option) tramp_wait_loop :: "profile \<Rightarrow> (trace \<Rightarrow> nat \<Rightarrow> u32) \<Rightarrow> (trace \<Rightarrow> nat \<Rightarrow> u64) \<Rightarrow> nat \<Rightarrow> nat \<Rightarrow> nat \<Rightarrow> nat \<Rightarrow>
    trace \<Rightarrow> (bool \<times> trace) res option" where
  "tramp_wait_loop p rd32 rd64 hpet_base comm_ptr timeout_us start tr =
     (case and_then (get_current_time_us p rd64 hpet_base tr) (\<lambda>(now, tr1).
             and_then (u64_sub p now start) (\<lambda>d. Inr (d, tr1))) of
        Inl e \<Rightarrow> Some (Inl e)
      | Inr (d, tr1) \<Rightarrow>
          if d < timeout_us then
            let w = rd32 tr1 comm_ptr; tr2 = tr1 @ [Read32 comm_ptr w] in
            if w = 1 then Some (Inr (True, tr2))
            else tramp_wait_loop p rd32 rd64 hpet_base comm_ptr timeout_us start tr2
          else Some (Inr (False, tr1)))"

definition tramp_wait_for_ap :: "profile \<Rightarrow> (trace \<Rightarrow> nat \<Rightarrow> u32) \<Rightarrow> (trace \<Rightarrow> nat \<Rightarrow> u64) \<Rightarrow> nat \<Rightarrow> nat \<Rightarrow> nat \<Rightarrow>
    trace \<Rightarrow> (bool \<times> trace) res option" where
  "tramp_wait_for_ap p rd32 rd64 offset hpet_base timeout_us tr =
     (case u64_add p offset TRAMPOLINE_BASE of
        Inl e \<Rightarrow> Some (Inl e)
      | Inr tramp_ptr \<Rightarrow>
          let comm_ptr = tramp_ptr + COMMWORD_OFFSET in
          (case get_current_time_us p rd64 hpet_base tr of
             Inl e \<Rightarrow> Some (Inl e)
           | Inr (start, tr1) \<Rightarrow> tramp_wait_loop p rd32 rd64 hpet_base comm_ptr timeout_us start tr1))"


section \<open>Starting the processors\<close>

datatype processor_state = Disabled | WaitingForSipi | Running

record processor =
  local_apic_id :: u32
  processor_state :: processor_state

definition start_ap :: "profile \<Rightarrow> (trace \<Rightarrow> nat \<Rightarrow> u32) \<Rightarrow> (trace \<Rightarrow> nat \<Rightarrow> u64) \<Rightarrow> nat \<Rightarrow> nat \<Rightarrow> nat \<Rightarrow> processor \<Rightarrow> trace \<Rightarrow> trace res option" where
  "start_ap p rd32 rd64 offset lapic_base HPET_BASE ap tr =
     (let trampoline_vector = 0x8 in
      if processor_state ap = WaitingForSipi then
        let tr1 = send_init_ipi rd32 lapic_base (local_apic_id ap) tr in
        o_then (delay_ms p rd64 HPET_BASE 10 tr1) (\<lambda>tr2.
        let tr3 = send_startup_ipi rd32 lapic_base (local_apic_id ap) trampoline_vector tr2 in
        o_then (delay_us p rd64 HPET_BASE 200 tr3) (\<lambda>tr4.
        let tr5 = send_startup_ipi rd32 lapic_base (local_apic_id ap) trampoline_vector tr4 in
        o_then (delay_us p rd64 HPET_BASE 100 tr5) (\<lambda>tr6.
        o_then (Some (and_then (u64_add p offset TRAMPOLINE_BASE) (\<lambda>t. u64_add p t COMMWORD_OFFSET))) (\<lambda>tramp_comm_ptr.
        o_then (wait_for_ap p rd32 rd64 HPET_BASE tramp_comm_ptr 100000 tr6) (\<lambda>(started, tr7).
        Some (Inr tr7))))))
      else Some (Inr tr))"

definition init_smp :: "profile \<Rightarrow> (trace \<Rightarrow> nat \<Rightarrow> u32) \<Rightarrow> (trace \<Rightarrow> nat \<Rightarrow> u64) \<Rightarrow> nat \<Rightarrow> smp_env \<Rightarrow> nat \<Rightarrow> nat \<Rightarrow> processor list \<Rightarrow>
    smp_state \<Rightarrow> smp_state res option" where
  "init_smp p rd32 rd64 offset E lapic_base HPET_BASE application_processors st =
     o_then (Some (and_then (load_ap_trampoline p offset E st) (patch_trampoline p offset E))) (\<lambda>st1.
     o_then (for_each_o (start_ap p rd32 rd64 offset lapic_base HPET_BASE) application_processors (smp_io st1)) (\<lambda>tr.
     Some (Inr (st1\<lparr>smp_io := tr\<rparr>))))"

section \<open>What is in memory\<close>

lemma patch_trampoline_eq:
  assumes "offset + TRAMPOLINE_BASE < 2 ^ 64" and "AP_STACK_INDEX st < NUM_AP_STACKS"
    and "AP_STACKS E + NUM_AP_STACKS * AP_STACK_SIZE < 2 ^ 64"
  shows "patch_trampoline p offset E st = Inr (st\<lparr>AP_STACK_INDEX := AP_STACK_INDEX st + 1, memory :=
    (let t = offset + TRAMPOLINE_BASE in
     write_u32 (t + COMMWORD_OFFSET) 0 (write_u64 (t + KGSVAL_OFFSET) 0
      (write_u64 (t + KSTACK_OFFSET) (of_nat (AP_STACKS E + (AP_STACK_INDEX st + 1) * AP_STACK_SIZE))
       (write_u64 (t + KCODE_OFFSET) (ap_startup_addr E) (write_u64 (t + CR3VAL_OFFSET) (read_cr3 E) (memory st))))))\<rparr>)"
proof -
  have "(AP_STACK_INDEX st + 1) * AP_STACK_SIZE \<le> NUM_AP_STACKS * AP_STACK_SIZE"
    using assms(2) by (intro mult_le_mono1) simp
  then have "AP_STACKS E + AP_STACK_INDEX st * AP_STACK_SIZE + AP_STACK_SIZE < 2 ^ 64"
    using assms(3) by (simp add: algebra_simps)
  moreover have "AP_STACK_INDEX st + 1 < 2 ^ 64" using assms(2) by (simp add: NUM_AP_STACKS_def)
  ultimately show ?thesis using assms(1,2)
    by (simp add: patch_trampoline_def allocate_ap_stack_def u64_add_ok Let_def not_le algebra_simps)
qed

lemma load_ap_trampoline_eq:
  assumes "offset + TRAMPOLINE_BASE < 2 ^ 64"
  shows "load_ap_trampoline p offset E st = Inr (st\<lparr>memory := (\<lambda>b.
    let d = offset + TRAMPOLINE_BASE; bin = AP_TRAMPOLINE_BIN E in
    if d \<le> b \<and> b < d + length bin then bin ! (b - d) else memory st b)\<rparr>)"
  using assms by (simp add: load_ap_trampoline_def u64_add_ok Let_def)

section \<open>What the local APIC sends\<close>

text \<open>
  The messages a trace makes the local APIC at \<open>base\<close> send: a write to the low half of the interrupt
  command register sends one to the processor in the top byte of the high half, with the delivery mode
  of bits 8 to 10 (5 is INIT, 6 is STARTUP) and the vector of the low byte.
\<close>

fun ipi_event :: "nat \<Rightarrow> u32 \<times> (u32 \<times> u32 \<times> u8) list \<Rightarrow> io_event \<Rightarrow> u32 \<times> (u32 \<times> u32 \<times> u8) list" where
  "ipi_event base (high, ms) (Write32 a v) =
     (if a = base + 0x310 then (v, ms)
      else if a = base + 0x300 then (high, ms @ [(drop_bit 24 high, drop_bit 8 v AND 7, ucast v)])
      else (high, ms))"
| "ipi_event base s _ = s"

definition ipis :: "nat \<Rightarrow> trace \<Rightarrow> (u32 \<times> u32 \<times> u8) list" where
  "ipis base tr = snd (foldl (ipi_event base) (0, []) tr)"

fun is_read :: "io_event \<Rightarrow> bool" where
  "is_read (Read32 _ _) = True"
| "is_read (Read64 _ _) = True"
| "is_read _ = False"

lemma ipi_event_read: "is_read e \<Longrightarrow> ipi_event base s e = s"
  by (cases s; cases e) simp_all

lemma ipis_reads: "list_all is_read rs \<Longrightarrow> ipis base (tr @ rs) = ipis base tr"
  by (induction rs rule: rev_induct) (simp_all add: ipis_def ipi_event_read)

lemma icr_destination: "drop_bit 24 (push_bit 24 i) AND 0xff = (i AND 0xff :: u32)"
proof -
  have m: "(0xff :: u32) = mask 8" by (simp add: mask_eq_exp_minus_1)
  show ?thesis unfolding m by (rule bit_word_eqI) (auto simp: bit_simps)
qed

lemma ipis_send:
  "ipis base (tr @ [Write32 (base + 0x280) e, Read32 a r, Write32 (base + 0x310) h, Write32 (base + 0x300) l]) =
    ipis base tr @ [(drop_bit 24 h, drop_bit 8 l AND 7, ucast l)]"
  by (cases "foldl (ipi_event base) (0, []) tr") (simp add: ipis_def)

lemma ipis_send_init: "ipis base (send_init_ipi rd32 base i tr) = ipis base tr @ [(i AND 0xff, 5, 0)]"
  by (simp add: send_init_ipi_def write32_def Let_def ipis_send icr_destination)

lemma ipis_send_startup: "ipis base (send_startup_ipi rd32 base i 8 tr) = ipis base tr @ [(i AND 0xff, 6, 8)]"
  by (simp add: send_startup_ipi_def write32_def Let_def ipis_send icr_destination)

text \<open>
  A timer that runs: its tick length is not zero, and its 64-bit counter, which counts up and starts again at zero,
  reaches or passes every value while it is polled.
\<close>

definition hpet_runs :: "(trace \<Rightarrow> nat \<Rightarrow> u64) \<Rightarrow> nat \<Rightarrow> bool" where
  "hpet_runs rd base \<longleftrightarrow> (\<forall>tr. (ucast (drop_bit 32 (rd tr base)) :: u32) \<noteq> 0) \<and>
     (\<forall>tr t. \<exists>k. t \<le> rd (polls rd (base + 0xF0) k tr) (base + 0xF0))"

lemma polls_reads: "\<exists>rs. polls rd a k tr = tr @ rs \<and> list_all is_read rs"
proof (induction k)
  case (Suc k)
  then show ?case by (auto simp: polls_snoc simp del: polls.simps)
qed simp

lemma hpet_delay_returns:
  assumes "hpet_runs rd base" and "n * fs < 2 ^ 64"
  shows "\<exists>rs. hpet_delay p rd base fs n tr = Some (Inr (tr @ rs)) \<and> list_all is_read rs"
proof -
  let ?a = "base + 0xF0" and ?tr1 = "tr @ [Read64 base (rd tr base)]"
  have u: "unat (ucast (drop_bit 32 (rd tr base)) :: u32) \<noteq> 0" using assms(1) by (simp add: hpet_runs_def unat_eq_0)
  obtain t where d: "hpet_delay p rd base fs n tr = map_option Inr (spin_until rd ?a t (?tr1 @ [Read64 ?a (rd ?tr1 ?a)]))"
    using hpet_delay_spin [of rd tr base n fs p, OF u assms(2)] by blast
  obtain k where "t \<le> rd (polls rd ?a k (?tr1 @ [Read64 ?a (rd ?tr1 ?a)])) ?a" using assms(1) unfolding hpet_runs_def by blast
  then obtain j where "spin_until rd ?a t (?tr1 @ [Read64 ?a (rd ?tr1 ?a)]) = Some (polls rd ?a (Suc j) (?tr1 @ [Read64 ?a (rd ?tr1 ?a)]))"
    using spin_until_returns by blast
  moreover obtain rs where "polls rd ?a (Suc j) (?tr1 @ [Read64 ?a (rd ?tr1 ?a)]) = (?tr1 @ [Read64 ?a (rd ?tr1 ?a)]) @ rs" "list_all is_read rs"
    using polls_reads by blast
  ultimately show ?thesis unfolding d by (intro exI [of _ "[Read64 base (rd tr base), Read64 ?a (rd ?tr1 ?a)] @ rs"]) simp
qed

lemma wait_for_ap_signalled:
  assumes "hpet_runs rd64 base" and "\<And>tr. rd32 tr comm = 1"
  shows "\<exists>rs. wait_for_ap Release rd32 rd64 base comm timeout tr = Some (Inr (True, tr @ rs)) \<and> list_all is_read rs"
proof -
  have "(ucast (drop_bit 32 (rd64 tr base)) :: u32) \<noteq> 0" using assms(1) by (simp add: hpet_runs_def)
  then obtain now v where t: "get_current_time_us Release rd64 base tr = Inr (now, tr @ [Read64 base (rd64 tr base), Read64 (base + 0xF0) v])"
    by (simp add: get_current_time_us_def get_clock_tick_unit_fallback_def read64_def Let_def u64_mul_Release)
  have "wait_loop Release rd32 rd64 base comm timeout now tr' = Some (Inr (True, tr' @ [Read32 comm 1]))" for tr'
    using assms(2) by (subst wait_loop.simps) simp
  then show ?thesis using t by (intro exI) (auto simp: wait_for_ap_def)
qed

lemma start_ap_returns:
  assumes "hpet_runs rd64 hb" and "\<And>tr. rd32 tr (offset + TRAMPOLINE_BASE + COMMWORD_OFFSET) = 1"
    and "offset + TRAMPOLINE_BASE + COMMWORD_OFFSET < 2 ^ 64"
  shows "\<exists>tr'. start_ap Release rd32 rd64 offset base hb ap tr = Some (Inr tr') \<and>
    ipis base tr' = ipis base tr @ (if processor_state ap = WaitingForSipi
      then (let i = local_apic_id ap AND 0xff in [(i, 5, 0), (i, 6, 8), (i, 6, 8)]) else [])"
proof (cases "processor_state ap = WaitingForSipi")
  case True
  let ?i = "local_apic_id ap"
  let ?tr1 = "send_init_ipi rd32 base ?i tr"
  obtain r1 where r1: "delay_ms Release rd64 hb 10 ?tr1 = Some (Inr (?tr1 @ r1))" "list_all is_read r1"
    using hpet_delay_returns [OF assms(1), of 10 1000000000000] by (auto simp: delay_ms_def)
  let ?tr3 = "send_startup_ipi rd32 base ?i 8 (?tr1 @ r1)"
  obtain r2 where r2: "delay_us Release rd64 hb 200 ?tr3 = Some (Inr (?tr3 @ r2))" "list_all is_read r2"
    using hpet_delay_returns [OF assms(1), of 200 1000000000] by (auto simp: delay_us_def)
  let ?tr5 = "send_startup_ipi rd32 base ?i 8 (?tr3 @ r2)"
  obtain r3 where r3: "delay_us Release rd64 hb 100 ?tr5 = Some (Inr (?tr5 @ r3))" "list_all is_read r3"
    using hpet_delay_returns [OF assms(1), of 100 1000000000] by (auto simp: delay_us_def)
  obtain r4 where r4: "wait_for_ap Release rd32 rd64 hb (offset + TRAMPOLINE_BASE + COMMWORD_OFFSET) 100000 (?tr5 @ r3) =
      Some (Inr (True, (?tr5 @ r3) @ r4))" "list_all is_read r4"
    using wait_for_ap_signalled [OF assms(1), of rd32 "offset + TRAMPOLINE_BASE + COMMWORD_OFFSET"] assms(2) by blast
  have "start_ap Release rd32 rd64 offset base hb ap tr = Some (Inr ((?tr5 @ r3) @ r4))"
    using True r1 r2 r3 r4 assms(3) by (simp add: start_ap_def Let_def u64_add_ok)
  then show ?thesis using True r1(2) r2(2) r3(2) r4(2)
    by (simp only: ipis_reads ipis_send_init ipis_send_startup) (simp add: ipis_reads ipis_send_init ipis_send_startup Let_def del: append_assoc)
qed (simp add: start_ap_def)

section \<open>Properties\<close>

lemma start_all_aps:
  assumes "hpet_runs rd64 hb" and "\<And>tr. rd32 tr (offset + TRAMPOLINE_BASE + COMMWORD_OFFSET) = 1"
    and "offset + TRAMPOLINE_BASE + COMMWORD_OFFSET < 2 ^ 64"
  shows "\<exists>tr'. for_each_o (start_ap Release rd32 rd64 offset base hb) aps tr = Some (Inr tr') \<and>
    ipis base tr' = ipis base tr @ concat (map (\<lambda>ap. let i = local_apic_id ap AND 0xff in [(i, 5, 0), (i, 6, 8), (i, 6, 8)])
      (filter (\<lambda>ap. processor_state ap = WaitingForSipi) aps))"
proof (induction aps arbitrary: tr)
  case (Cons ap aps)
  obtain tr1 where "start_ap Release rd32 rd64 offset base hb ap tr = Some (Inr tr1)"
      "ipis base tr1 = ipis base tr @ (if processor_state ap = WaitingForSipi
        then (let i = local_apic_id ap AND 0xff in [(i, 5, 0), (i, 6, 8), (i, 6, 8)]) else [])"
    using start_ap_returns [of rd64 hb rd32 offset base ap tr, OF assms] by blast
  then show ?case using Cons.IH [of tr1] by auto
qed simp

lemma trampoline_ready:
  assumes "offset + TRAMPOLINE_BASE + COMMWORD_OFFSET < 2 ^ 64" and "AP_STACK_INDEX st < NUM_AP_STACKS"
    and "AP_STACKS E + NUM_AP_STACKS * AP_STACK_SIZE < 2 ^ 64"
  obtains st1 where "and_then (load_ap_trampoline p offset E st) (patch_trampoline p offset E) = Inr st1"
    and "smp_io st1 = smp_io st" and "AP_STACK_INDEX st1 = AP_STACK_INDEX st + 1"
proof -
  have o: "offset + TRAMPOLINE_BASE < 2 ^ 64" using assms(1) by simp
  show ?thesis using that load_ap_trampoline_eq [OF o, of p E st] patch_trampoline_eq [OF o _ assms(3)] assms(2) by auto
qed


text \<open>A counter that advances by one with every access.\<close>

definition counting_hpet :: "nat \<Rightarrow> trace \<Rightarrow> nat \<Rightarrow> u64" where
  "counting_hpet base tr a = (if a = base then push_bit 32 100000000 else of_nat (length tr))"

lemma length_polls: "length (polls rd a k tr) = length tr + k"
  by (induction k arbitrary: tr) simp_all

lemma counting_hpet_runs: "hpet_runs (counting_hpet base) base"
proof -
  have "\<exists>k. t \<le> counting_hpet base (polls (counting_hpet base) (base + 0xF0) k tr) (base + 0xF0)" for t tr
  proof -
    define k where "k = unat (t - of_nat (length tr))"
    have "(of_nat (length tr + k) :: u64) = t" by (simp add: k_def)
    then have "counting_hpet base (polls (counting_hpet base) (base + 0xF0) k tr) (base + 0xF0) = t"
      by (simp add: counting_hpet_def [of _ "polls _ _ _ _"] length_polls)
    then show ?thesis by auto
  qed
  then show ?thesis by (simp add: hpet_runs_def) (simp add: counting_hpet_def)
qed

definition example_env :: smp_env where
  "example_env = \<lparr>AP_TRAMPOLINE_BIN = replicate 64 0x90, AP_STACKS = 0x400000, ap_startup_addr = 0x200000, read_cr3 = 0x101000\<rparr>"

definition example_smp :: smp_state where
  "example_smp = \<lparr>memory = (\<lambda>_. 0), AP_STACK_INDEX = 0, STACK_TOP = 0, smp_io = []\<rparr>"


text \<open>
  C29. The patched trampoline. After \<open>load_ap_trampoline\<close> and \<open>patch_trampoline\<close>, the five fields at the
  start of the page hold CR3, the entry point, the top of the next stack, zero and a cleared communication
  word; behind them is the image, and no other memory has changed. So the first 36 bytes of the image are
  lost, and the address where STARTUP with vector 8 makes a processor begin holds the value of CR3, not an instruction of the image.
\<close>

theorem trampoline_patched:
  assumes "offset + TRAMPOLINE_BASE < 2 ^ 64" and "AP_STACK_INDEX st < NUM_AP_STACKS"
    and "AP_STACKS E + NUM_AP_STACKS * AP_STACK_SIZE < 2 ^ 64"
  shows "\<exists>st'. and_then (load_ap_trampoline p offset E st) (patch_trampoline p offset E) = Inr st' \<and>
    (let t = offset + 0x8000; m = memory st' in
      bytes_at (offset + 0x1000 * unat (8 :: u8)) 8 m = le_bytes 8 (read_cr3 E) \<and>
      bytes_at (t + 8) 8 m = le_bytes 8 (ap_startup_addr E) \<and>
      bytes_at (t + 16) 8 m = le_bytes 8 (of_nat (AP_STACKS E + (AP_STACK_INDEX st + 1) * AP_STACK_SIZE) :: u64) \<and>
      bytes_at (t + 24) 8 m = le_bytes 8 (0 :: u64) \<and> bytes_at (t + 32) 4 m = le_bytes 4 (0 :: u32) \<and>
      (\<forall>i. 36 \<le> i \<and> i < length (AP_TRAMPOLINE_BIN E) \<longrightarrow> m (t + i) = AP_TRAMPOLINE_BIN E ! i) \<and>
      (\<forall>b. b < t \<or> b \<ge> t + max 36 (length (AP_TRAMPOLINE_BIN E)) \<longrightarrow> m b = memory st b))"
  using assms(2)
  by (simp add: load_ap_trampoline_eq [OF assms(1)] patch_trampoline_eq [OF assms(1) _ assms(3)] trampoline_consts Let_def
      bytes_at_write_other) (auto simp: write_u64_def write_u32_def)

theorem trampoline_patched_witness:
  "\<exists>st'. and_then (load_ap_trampoline Debug 0 example_env example_smp) (patch_trampoline Debug 0 example_env) = Inr st' \<and>
    bytes_at 0x8000 8 (memory st') = le_bytes 8 (0x101000 :: u64) \<and> memory st' 0x100 = 0"
  using trampoline_patched [of 0 example_smp example_env Debug]
  by (auto simp: example_env_def example_smp_def trampoline_consts NUM_AP_STACKS_def AP_STACK_SIZE_def Let_def)

end
