(* ===== verification/Framebuffer_Writer.thy ===== *)
theory Framebuffer_Writer
  imports Kernel_Prelude
begin

text \<open>
  The framebuffer console (\<^verbatim>\<open>kernel/src/framebuffer.rs\<close>): a cursor in pixels, characters drawn from
  rasters, the screen cleared when the next character does not fit. The framebuffer is its list of
  bytes and \<open>FrameBufferInfo\<close> the record the bootloader passes. The font of the crate
  \<^verbatim>\<open>noto_sans_mono_bitmap\<close> is a parameter; characters are their code points.
\<close>

section \<open>Data\<close>

datatype pixel_format = Rgb | Bgr | U8 | Unknown

record frame_buffer_info =
  fb_width :: nat
  fb_height :: nat
  pixel_format :: pixel_format
  bytes_per_pixel :: nat
  stride :: nat

record rasterized_char =
  raster :: "u8 list list"
  raster_width :: nat

text \<open>\<open>get_raster\<close> for the weight and height the code fixes, with the two constants of the font.\<close>

record font =
  get_raster :: "nat \<Rightarrow> rasterized_char option"
  CHAR_RASTER_HEIGHT :: nat
  CHAR_RASTER_WIDTH :: nat

definition LINE_SPACING :: nat where "LINE_SPACING = 2"
definition LETTER_SPACING :: nat where "LETTER_SPACING = 0"
definition BORDER_PADDING :: nat where "BORDER_PADDING = 1"
definition INVALID_CHAR :: nat where "INVALID_CHAR = 0xfffd"

record frame_buffer_writer =
  framebuffer :: "u8 list"
  info :: frame_buffer_info
  x_pos :: nat
  y_pos :: nat


section \<open>Operations\<close>

definition get_char_raster :: "font \<Rightarrow> nat \<Rightarrow> rasterized_char res" where
  "get_char_raster F c =
     (case get_raster F c of
        Some r \<Rightarrow> Inr r
      | None \<Rightarrow> expect (get_raster F INVALID_CHAR) ''ERROR: Failed to get invalid char.'')"

definition carriage_return :: "frame_buffer_writer \<Rightarrow> frame_buffer_writer" where
  "carriage_return w = w\<lparr>x_pos := BORDER_PADDING\<rparr>"

definition newline :: "profile \<Rightarrow> font \<Rightarrow> frame_buffer_writer \<Rightarrow> frame_buffer_writer res" where
  "newline p F w =
     and_then (u64_add p (CHAR_RASTER_HEIGHT F) LINE_SPACING) (\<lambda>d.
     and_then (u64_add p (y_pos w) d) (\<lambda>y.
     Inr (carriage_return (w\<lparr>y_pos := y\<rparr>))))"

definition clear :: "frame_buffer_writer \<Rightarrow> frame_buffer_writer" where
  "clear w = w\<lparr>x_pos := BORDER_PADDING, y_pos := BORDER_PADDING,
     framebuffer := replicate (length (framebuffer w)) 0\<rparr>"

definition writer_new :: "u8 list \<Rightarrow> frame_buffer_info \<Rightarrow> frame_buffer_writer" where
  "writer_new fb i = clear \<lparr>framebuffer = fb, info = i, x_pos = 0, y_pos = 0\<rparr>"

definition width :: "frame_buffer_writer \<Rightarrow> nat" where
  "width w = fb_width (info w)"

definition height :: "frame_buffer_writer \<Rightarrow> nat" where
  "height w = fb_height (info w)"

text \<open>The bytes of a pixel. Before the panic the code sets the format to RGB, on a writer that is lost.\<close>

definition pixel_color :: "pixel_format \<Rightarrow> u8 \<Rightarrow> u8 list res" where
  "pixel_color fmt intensity =
     (case fmt of
        Rgb \<Rightarrow> Inr [intensity, intensity, intensity div 2, 0]
      | Bgr \<Rightarrow> Inr [intensity div 2, intensity, intensity, 0]
      | U8 \<Rightarrow> Inr [if intensity > 200 then 0xf else 0, 0, 0, 0]
      | Unknown \<Rightarrow> Inl (Panic ''Unsupported pixel format''))"

text \<open>\<open>buf[a..b].copy_from_slice(&src[..n])\<close>.\<close>

definition copy_to_range :: "'a list \<Rightarrow> nat \<Rightarrow> nat \<Rightarrow> 'a list \<Rightarrow> nat \<Rightarrow> 'a list res" where
  "copy_to_range buf a b src n =
     (if a \<le> b \<and> b \<le> length buf \<and> n \<le> length src \<and> b - a = n then Inr (take a buf @ take n src @ drop b buf)
      else Inl Index_Out_Of_Bounds)"

definition write_pixel :: "profile \<Rightarrow> nat \<Rightarrow> nat \<Rightarrow> u8 \<Rightarrow> frame_buffer_writer \<Rightarrow> frame_buffer_writer res" where
  "write_pixel p x y intensity w =
     and_then (u64_mul p y (stride (info w))) (\<lambda>row.
     and_then (u64_add p row x) (\<lambda>pixel_offset.
     and_then (pixel_color (pixel_format (info w)) intensity) (\<lambda>color.
     let bpp = bytes_per_pixel (info w) in
     and_then (u64_mul p pixel_offset bpp) (\<lambda>byte_offset.
     and_then (u64_add p byte_offset bpp) (\<lambda>end.
     and_then (copy_to_range (framebuffer w) byte_offset end color bpp) (\<lambda>fb.
     and_then (nth_res fb byte_offset) (\<lambda>_.
     Inr (w\<lparr>framebuffer := fb\<rparr>))))))))"

definition write_rendered_char :: "profile \<Rightarrow> rasterized_char \<Rightarrow> frame_buffer_writer \<Rightarrow> frame_buffer_writer res" where
  "write_rendered_char p r w =
     and_then
       (for_each (\<lambda>(y, row) w.
          for_each (\<lambda>(x, byte) w.
            and_then (u64_add p (x_pos w) x) (\<lambda>px.
            and_then (u64_add p (y_pos w) y) (\<lambda>py.
            write_pixel p px py byte w))) (enumerate 0 row) w) (enumerate 0 (raster r)) w) (\<lambda>w1.
     and_then (u64_add p (raster_width r) LETTER_SPACING) (\<lambda>d.
     and_then (u64_add p (x_pos w1) d) (\<lambda>x.
     Inr (w1\<lparr>x_pos := x\<rparr>))))"

definition write_char :: "profile \<Rightarrow> font \<Rightarrow> nat \<Rightarrow> frame_buffer_writer \<Rightarrow> frame_buffer_writer res" where
  "write_char p F c w =
     (if c = 10 then newline p F w
      else if c = 13 then Inr (carriage_return w)
      else
        and_then (u64_add p (x_pos w) (CHAR_RASTER_WIDTH F)) (\<lambda>new_xpos.
        and_then (if new_xpos > width w then newline p F w else Inr w) (\<lambda>w1.
        and_then (u64_add p (y_pos w1) (CHAR_RASTER_HEIGHT F)) (\<lambda>y.
        and_then (u64_add p y BORDER_PADDING) (\<lambda>new_ypos.
        let w2 = (if new_ypos > height w1 then clear w1 else w1) in
        and_then (get_char_raster F c) (\<lambda>r.
        write_rendered_char p r w2))))))"

definition write_str :: "profile \<Rightarrow> font \<Rightarrow> nat list \<Rightarrow> frame_buffer_writer \<Rightarrow> frame_buffer_writer res" where
  "write_str p F s = for_each (write_char p F) s"

text \<open>The static \<open>FRAMEBUFFER_WRITER\<close>, its initialisation and \<open>_print\<close>.\<close>

definition init_framebuffer_writer :: "u8 list \<Rightarrow> frame_buffer_info \<Rightarrow> frame_buffer_writer option" where
  "init_framebuffer_writer fb i = Some (writer_new fb i)"

definition fb_print :: "profile \<Rightarrow> font \<Rightarrow> nat list \<Rightarrow> frame_buffer_writer option \<Rightarrow> frame_buffer_writer option res" where
  "fb_print p F s cell =
     (case cell of
        None \<Rightarrow> Inr None
      | Some w \<Rightarrow> and_then (write_str p F s w) (\<lambda>w'. Inr (Some w')))"


section \<open>The documented shape of fonts and framebuffers\<close>

text \<open>Every raster has the height and width of the font, and the replacement character exists.\<close>

definition font_ok :: "font \<Rightarrow> bool" where
  "font_ok F \<longleftrightarrow> get_raster F INVALID_CHAR \<noteq> None \<and>
     CHAR_RASTER_HEIGHT F < 2 ^ 16 \<and> CHAR_RASTER_WIDTH F < 2 ^ 16 \<and>
     (\<forall>c r. get_raster F c = Some r \<longrightarrow> raster_width r = CHAR_RASTER_WIDTH F \<and>
        length (raster r) = CHAR_RASTER_HEIGHT F \<and> (\<forall>row\<in>set (raster r). length row = CHAR_RASTER_WIDTH F))"

text \<open>
  The bytes cover all rows of the screen, a pixel has one to four bytes of a known format, and one
  character with its border fits on the screen.
\<close>

definition screen_ok :: "font \<Rightarrow> frame_buffer_writer \<Rightarrow> bool" where
  "screen_ok F w \<longleftrightarrow>
     (let i = info w in
      1 \<le> bytes_per_pixel i \<and> bytes_per_pixel i \<le> 4 \<and> pixel_format i \<noteq> Unknown \<and>
      fb_width i \<le> stride i \<and> stride i * fb_height i * bytes_per_pixel i \<le> length (framebuffer w) \<and>
      length (framebuffer w) < 2 ^ 63 \<and> fb_width i < 2 ^ 32 \<and> fb_height i < 2 ^ 32 \<and>
      BORDER_PADDING + CHAR_RASTER_WIDTH F \<le> fb_width i \<and>
      BORDER_PADDING + CHAR_RASTER_HEIGHT F + BORDER_PADDING \<le> fb_height i)"

section \<open>Pictures\<close>

text \<open>
  What the bytes show: byte \<open>k\<close> belongs to the pixel in column \<open>px_of i k\<close> and row \<open>py_of i k\<close>. Drawing a
  picture \<open>g\<close>, a partial map from pixels to intensities, changes exactly the bytes of its pixels.
\<close>

definition px_of :: "frame_buffer_info \<Rightarrow> nat \<Rightarrow> nat" where
  "px_of i k = k div bytes_per_pixel i mod stride i"

definition py_of :: "frame_buffer_info \<Rightarrow> nat \<Rightarrow> nat" where
  "py_of i k = k div bytes_per_pixel i div stride i"

definition color_of :: "pixel_format \<Rightarrow> u8 \<Rightarrow> u8 list" where
  "color_of fmt v = (case pixel_color fmt v of Inr c \<Rightarrow> c | Inl _ \<Rightarrow> [])"

definition draw :: "frame_buffer_info \<Rightarrow> (nat \<Rightarrow> nat \<Rightarrow> u8 option) \<Rightarrow> u8 list \<Rightarrow> u8 list" where
  "draw i g buf =
     map (\<lambda>k. case g (px_of i k) (py_of i k) of
                Some v \<Rightarrow> color_of (pixel_format i) v ! (k mod bytes_per_pixel i)
              | None \<Rightarrow> buf ! k) [0..<length buf]"

definition glyph :: "nat \<Rightarrow> nat \<Rightarrow> u8 list list \<Rightarrow> nat \<Rightarrow> nat \<Rightarrow> nat \<Rightarrow> nat \<Rightarrow> u8 option" where
  "glyph x0 y0 rows cw ch x y =
     (if x0 \<le> x \<and> x < x0 + cw \<and> y0 \<le> y \<and> y < y0 + ch then Some (rows ! (y - y0) ! (x - x0)) else None)"

lemma length_draw [simp]: "length (draw i g buf) = length buf"
  by (simp add: draw_def)

lemma nth_draw:
  "k < length buf \<Longrightarrow> draw i g buf ! k =
    (case g (px_of i k) (py_of i k) of Some v \<Rightarrow> color_of (pixel_format i) v ! (k mod bytes_per_pixel i) | None \<Rightarrow> buf ! k)"
  by (simp add: draw_def split: option.split)

lemma draw_nothing: "(\<And>x y. g x y = None) \<Longrightarrow> draw i g buf = buf"
  by (rule nth_equalityI) (simp_all add: nth_draw)

lemma draw_draw:
  "(\<And>x y. h x y = (case g2 x y of Some v \<Rightarrow> Some v | None \<Rightarrow> g1 x y)) \<Longrightarrow> draw i g2 (draw i g1 buf) = draw i h buf"
  by (rule nth_equalityI) (auto simp: nth_draw split: option.splits)

lemma div_eq_iff_range: "0 < (b::nat) \<Longrightarrow> k div b = n \<longleftrightarrow> n * b \<le> k \<and> k < n * b + b"
  by (metis add.commute div_nat_eqI div_times_less_eq_dividend dividend_less_div_times mult.commute mult_Suc)

lemma pixel_of_byte:
  assumes "0 < bytes_per_pixel i" and "x < stride i"
  shows "px_of i k = x \<and> py_of i k = y \<longleftrightarrow>
    (y * stride i + x) * bytes_per_pixel i \<le> k \<and> k < (y * stride i + x) * bytes_per_pixel i + bytes_per_pixel i"
proof -
  have "px_of i k = x \<and> py_of i k = y \<longleftrightarrow> k div bytes_per_pixel i = y * stride i + x"
    using assms(2) unfolding px_of_def py_of_def by (metis add.commute add_cancel_right_left div_less div_mult_self3 less_nat_zero_code mod_div_decomp mod_less mod_mult_self3)
  then show ?thesis using div_eq_iff_range [OF assms(1)] by blast
qed

lemma screen_ok_fb [simp]: "length fb = length (framebuffer w) \<Longrightarrow> screen_ok F (w\<lparr>framebuffer := fb\<rparr>) = screen_ok F w"
  by (simp add: screen_ok_def)

lemma screen_ok_pos [simp]: "screen_ok F (w\<lparr>x_pos := x\<rparr>) = screen_ok F w" "screen_ok F (w\<lparr>y_pos := y\<rparr>) = screen_ok F w"
  by (simp_all add: screen_ok_def)

text \<open>The bytes of a pixel on the screen lie within the framebuffer.\<close>

lemma pixel_in_range:
  assumes "screen_ok F w" and "x < fb_width (info w)" and "y < fb_height (info w)"
  shows "(y * stride (info w) + x) * bytes_per_pixel (info w) + bytes_per_pixel (info w) \<le> length (framebuffer w)"
    and "x < stride (info w)" and "0 < bytes_per_pixel (info w)"
proof -
  let ?s = "stride (info w)" and ?b = "bytes_per_pixel (info w)"
  show x: "x < ?s" and "0 < ?b" using assms by (auto simp: screen_ok_def Let_def)
  have "Suc y * ?s \<le> fb_height (info w) * ?s" using assms(3) by (intro mult_le_mono1) simp
  then have "y * ?s + x + 1 \<le> ?s * fb_height (info w)" using x by (simp add: mult.commute)
  from mult_le_mono1 [OF this, of ?b] show "(y * ?s + x) * ?b + ?b \<le> length (framebuffer w)"
    using assms(1) by (simp add: screen_ok_def Let_def algebra_simps)
qed

lemma pixel_color_ok:
  "fmt \<noteq> Unknown \<Longrightarrow> pixel_color fmt v = Inr (color_of fmt v)" "fmt \<noteq> Unknown \<Longrightarrow> length (color_of fmt v) = 4"
  by (cases fmt; simp add: pixel_color_def color_of_def)+

lemma write_pixel_draw:
  assumes "screen_ok F w" and "x < fb_width (info w)" and "y < fb_height (info w)"
  shows "write_pixel p x y v w =
    Inr (w\<lparr>framebuffer := draw (info w) (\<lambda>a b. if a = x \<and> b = y then Some v else None) (framebuffer w)\<rparr>)"
proof -
  let ?s = "stride (info w)" and ?b = "bytes_per_pixel (info w)" and ?fb = "framebuffer w"
  let ?o = "(y * ?s + x) * ?b" and ?c = "color_of (pixel_format (info w)) v"
  note r = pixel_in_range [OF assms]
  have ok: "pixel_format (info w) \<noteq> Unknown" "?b \<le> 4" "length ?fb < 2 ^ 63"
    using assms(1) by (auto simp: screen_ok_def Let_def)
  have small: "y * ?s + x < 2 ^ 63" "?o + ?b < 2 ^ 63" "y * ?s < 2 ^ 63" "?o < 2 ^ 63"
  proof -
    have "y * ?s + x \<le> ?o" using r(3) by (cases ?b) auto
    then show "y * ?s + x < 2 ^ 63" "?o + ?b < 2 ^ 63" "y * ?s < 2 ^ 63" "?o < 2 ^ 63" using r(1) ok(3) by linarith+
  qed
  have "take ?o ?fb @ take ?b ?c @ drop (?o + ?b) ?fb =
      draw (info w) (\<lambda>a b. if a = x \<and> b = y then Some v else None) ?fb" (is "?l = ?r")
  proof (rule nth_equalityI)
    show "length ?l = length ?r" using r(1) ok pixel_color_ok(2) [OF ok(1), of v] by simp
    fix k assume "k < length ?l"
    moreover have "k mod ?b = k - ?o" if "?o \<le> k" "k < ?o + ?b"
      using that div_eq_iff_range [OF r(3), of k "y * ?s + x"] by (metis minus_div_mult_eq_mod)
    ultimately show "?l ! k = ?r ! k"
      using pixel_of_byte [OF r(3,2), of k y] r(1) ok pixel_color_ok(2) [OF ok(1), of v]
      by (auto simp: nth_draw nth_append)
  qed
  then show ?thesis
    using small r(1,3) ok pixel_color_ok [OF ok(1), of v]
    by (simp add: write_pixel_def u64_mul_ok u64_add_ok copy_to_range_def)
qed

section \<open>Characters\<close>

lemma draw_step:
  assumes "screen_ok F w" and "x < fb_width (info w)" and "y < fb_height (info w)" and "length fb = length (framebuffer w)"
    and "\<And>a b. h a b = (if a = x \<and> b = y then Some v else g a b)"
  shows "write_pixel p x y v (w\<lparr>framebuffer := draw (info w) g fb\<rparr>) = Inr (w\<lparr>framebuffer := draw (info w) h fb\<rparr>)"
  using write_pixel_draw [of F "w\<lparr>framebuffer := draw (info w) g fb\<rparr>" x y p v] assms
    draw_draw [of h g "\<lambda>a b. if a = x \<and> b = y then Some v else None" "info w" fb]
  by simp

text \<open>One row of a raster, drawn over a picture \<open>g\<close>.\<close>

lemma draw_row:
  assumes "screen_ok F w" and "x_pos w + length row \<le> fb_width (info w)" and "y_pos w + y < fb_height (info w)"
    and "length fb = length (framebuffer w)"
    and "\<And>a b. h a b = (if b = y_pos w + y \<and> x_pos w \<le> a \<and> a < x_pos w + length row then Some (row ! (a - x_pos w)) else g a b)"
  shows "for_each (\<lambda>(x, byte) w. and_then (u64_add p (x_pos w) x) (\<lambda>px. and_then (u64_add p (y_pos w) y) (\<lambda>py.
      write_pixel p px py byte w))) (enumerate 0 row) (w\<lparr>framebuffer := draw (info w) g fb\<rparr>) =
    Inr (w\<lparr>framebuffer := draw (info w) h fb\<rparr>)"
proof -
  let ?g = "\<lambda>j a b. if b = y_pos w + y \<and> x_pos w \<le> a \<and> a < x_pos w + j then Some (row ! (a - x_pos w)) else g a b"
  let ?f = "\<lambda>j. w\<lparr>framebuffer := draw (info w) (?g j) fb\<rparr>"
  have w32: "fb_width (info w) < 2 ^ 32" "fb_height (info w) < 2 ^ 32" using assms(1) by (auto simp: screen_ok_def Let_def)
  let ?body = "\<lambda>(x, byte) w. and_then (u64_add p (x_pos w) x) (\<lambda>px. and_then (u64_add p (y_pos w) y) (\<lambda>py.
      write_pixel p px py byte w))"
  have "for_each ?body (enumerate 0 row) (?f 0) = Inr (?f (length row))"
  proof (rule for_each_enumerate)
    fix j assume j: "j < length row"
    have "write_pixel p (x_pos w + j) (y_pos w + y) (row ! j) (?f j) = Inr (?f (Suc j))"
      using assms(1-4) j by (intro draw_step) auto
    then show "?body (j, row ! j) (?f j) = Inr (?f (Suc j))" using j w32 assms(2,3) by (simp add: u64_add_ok)
  qed
  moreover have "?g (length row) = h" using assms(5) by (intro ext) auto
  moreover have "?g 0 = g" by (intro ext) auto
  ultimately show ?thesis by simp
qed

lemma write_rendered_draw:
  assumes "screen_ok F w" and "x_pos w + cw \<le> fb_width (info w)" and "y_pos w + ch \<le> fb_height (info w)"
    and "length (raster r) = ch" and "\<forall>row\<in>set (raster r). length row = cw" and "raster_width r = cw"
  shows "write_rendered_char p r w =
    Inr (w\<lparr>framebuffer := draw (info w) (glyph (x_pos w) (y_pos w) (raster r) cw ch) (framebuffer w), x_pos := x_pos w + cw\<rparr>)"
proof -
  let ?f = "\<lambda>j. w\<lparr>framebuffer := draw (info w) (glyph (x_pos w) (y_pos w) (raster r) cw j) (framebuffer w)\<rparr>"
  let ?body = "\<lambda>(y, row) w. for_each (\<lambda>(x, byte) w.
            and_then (u64_add p (x_pos w) x) (\<lambda>px.
            and_then (u64_add p (y_pos w) y) (\<lambda>py.
            write_pixel p px py byte w))) (enumerate 0 row) w"
  have "for_each ?body (enumerate 0 (raster r)) (?f 0) = Inr (?f (length (raster r)))"
  proof (rule for_each_enumerate)
    fix j assume j: "j < length (raster r)"
    then have "length (raster r ! j) = cw" using assms(5) by simp
    then show "?body (j, raster r ! j) (?f j) = Inr (?f (Suc j))"
      using assms(1-4) j by (simp, intro draw_row) (auto simp: glyph_def less_Suc_eq)
  qed
  moreover have "?f 0 = w" using draw_nothing [of "glyph (x_pos w) (y_pos w) (raster r) cw 0"] by (simp add: glyph_def)
  moreover have "fb_width (info w) < 2 ^ 32" using assms(1) by (auto simp: screen_ok_def Let_def)
  ultimately show ?thesis
    using assms(2,4,6) by (simp add: write_rendered_char_def LETTER_SPACING_def u64_add_ok)
qed

text \<open>Where the next character goes: the position and the bytes it is drawn on.\<close>

definition place :: "font \<Rightarrow> frame_buffer_writer \<Rightarrow> nat \<times> nat \<times> u8 list" where
  "place F w =
     (let cw = CHAR_RASTER_WIDTH F; ch = CHAR_RASTER_HEIGHT F;
          (x, y) = (if x_pos w + cw > fb_width (info w) then (1, y_pos w + ch + 2) else (x_pos w, y_pos w)) in
      if y + ch + 1 > fb_height (info w) then (1, 1, replicate (length (framebuffer w)) 0)
      else (x, y, framebuffer w))"

lemma get_char_raster_ok:
  assumes "font_ok F"
  obtains r where "get_char_raster F c = Inr r" and "raster_width r = CHAR_RASTER_WIDTH F"
    and "length (raster r) = CHAR_RASTER_HEIGHT F" and "\<forall>row\<in>set (raster r). length row = CHAR_RASTER_WIDTH F"
  using assms by (cases "get_raster F c"; cases "get_raster F INVALID_CHAR") (auto simp: font_ok_def get_char_raster_def)

lemma place_fits:
  assumes "screen_ok F w" and "place F w = (x, y, fb)"
  shows "x + CHAR_RASTER_WIDTH F \<le> fb_width (info w)" and "y + CHAR_RASTER_HEIGHT F + 1 \<le> fb_height (info w)"
    and "length fb = length (framebuffer w)"
  using assms by (auto simp: place_def screen_ok_def Let_def BORDER_PADDING_def split: if_splits)

lemma write_char_draw:
  assumes "font_ok F" and "screen_ok F w" and "x_pos w \<le> fb_width (info w)" and "y_pos w < 2 ^ 63"
    and "c \<noteq> 10" and "c \<noteq> 13" and "place F w = (x, y, fb)"
  obtains r where "get_char_raster F c = Inr r"
    and "write_char p F c w = Inr (w\<lparr>x_pos := x + CHAR_RASTER_WIDTH F, y_pos := y,
      framebuffer := draw (info w) (glyph x y (raster r) (CHAR_RASTER_WIDTH F) (CHAR_RASTER_HEIGHT F)) fb\<rparr>)"
proof -
  obtain r where r: "get_char_raster F c = Inr r" "raster_width r = CHAR_RASTER_WIDTH F"
      "length (raster r) = CHAR_RASTER_HEIGHT F" "\<forall>row\<in>set (raster r). length row = CHAR_RASTER_WIDTH F"
    using get_char_raster_ok [OF assms(1)] by blast
  have small: "CHAR_RASTER_WIDTH F < 2 ^ 16" "CHAR_RASTER_HEIGHT F < 2 ^ 16" "fb_width (info w) < 2 ^ 32"
    using assms(1,2) by (auto simp: font_ok_def screen_ok_def Let_def)
  let ?w = "w\<lparr>x_pos := x, y_pos := y, framebuffer := fb\<rparr>"
  note fits = place_fits [OF assms(2,7)]
  have "write_char p F c w = write_rendered_char p r ?w"
    using assms(3-7) small r(1)
    by (auto simp: write_char_def place_def newline_def carriage_return_def clear_def width_def height_def
        BORDER_PADDING_def LINE_SPACING_def u64_add_ok Let_def split: if_splits) (cases w; simp)
  also have "\<dots> = Inr (?w\<lparr>framebuffer := draw (info w) (glyph x y (raster r) (CHAR_RASTER_WIDTH F) (CHAR_RASTER_HEIGHT F)) fb,
      x_pos := x + CHAR_RASTER_WIDTH F\<rparr>)"
    using write_rendered_draw [of F ?w "CHAR_RASTER_WIDTH F" "CHAR_RASTER_HEIGHT F" r p] assms(2) fits r by simp
  finally show thesis using that [OF r(1)] by simp
qed

section \<open>Properties\<close>

lemma write_char_total:
  assumes "font_ok F" and "screen_ok F w" and "x_pos w \<le> fb_width (info w)" and "y_pos w < 2 ^ 63"
  shows "\<exists>w'. write_char p F c w = Inr w' \<and> screen_ok F w' \<and> x_pos w' \<le> fb_width (info w') \<and>
    y_pos w' \<le> y_pos w + CHAR_RASTER_HEIGHT F + 2 \<and> info w' = info w"
proof (cases "c = 10 \<or> c = 13")
  case True
  have "CHAR_RASTER_HEIGHT F < 2 ^ 16" "1 \<le> fb_width (info w)"
    using assms(1,2) by (auto simp: font_ok_def screen_ok_def Let_def BORDER_PADDING_def)
  with True assms show ?thesis
    by (auto simp: write_char_def newline_def carriage_return_def BORDER_PADDING_def LINE_SPACING_def u64_add_ok)
next
  case False
  obtain x y fb where pl: "place F w = (x, y, fb)" using prod_cases3 by blast
  note fits = place_fits [OF assms(2) pl]
  have y: "y \<le> y_pos w + CHAR_RASTER_HEIGHT F + 2"
    using pl by (auto simp: place_def Let_def split: if_splits)
  obtain r :: rasterized_char where "write_char p F c w = Inr (w\<lparr>x_pos := x + CHAR_RASTER_WIDTH F, y_pos := y,
      framebuffer := draw (info w) (glyph x y (raster r) (CHAR_RASTER_WIDTH F) (CHAR_RASTER_HEIGHT F)) fb\<rparr>)"
    using write_char_draw [OF assms(1-4) _ _ pl] False by blast
  then show ?thesis using assms(2) fits y by simp
qed

lemma write_str_total:
  assumes "font_ok F" and "screen_ok F w" and "x_pos w \<le> fb_width (info w)"
    and "y_pos w + (CHAR_RASTER_HEIGHT F + 2) * length s < 2 ^ 63"
  shows "\<exists>w'. write_str p F s w = Inr w' \<and> screen_ok F w' \<and> x_pos w' \<le> fb_width (info w') \<and> info w' = info w"
  using assms(2-4)
proof (induction s arbitrary: w)
  case (Cons c s)
  have "y_pos w < 2 ^ 63" using Cons.prems(3) by simp
  then obtain w1 where w1: "write_char p F c w = Inr w1" "screen_ok F w1" "x_pos w1 \<le> fb_width (info w1)"
      "y_pos w1 \<le> y_pos w + CHAR_RASTER_HEIGHT F + 2" "info w1 = info w"
    using write_char_total [OF assms(1) Cons.prems(1,2)] by blast
  then show ?case using Cons.IH [OF w1(2,3)] Cons.prems(3) by (simp add: write_str_def algebra_simps)
qed (simp add: write_str_def)

text \<open>A font of two by two pixels and a screen of four by five.\<close>

definition tiny_font :: font where
  "tiny_font = \<lparr>get_raster = (\<lambda>c. if c = 65 \<or> c = 0xfffd then Some \<lparr>raster = [[255, 0], [100, 200]], raster_width = 2\<rparr> else None),
     CHAR_RASTER_HEIGHT = 2, CHAR_RASTER_WIDTH = 2\<rparr>"

definition tiny_screen :: frame_buffer_writer where
  "tiny_screen = writer_new (replicate 60 7)
     \<lparr>fb_width = 4, fb_height = 5, pixel_format = Rgb, bytes_per_pixel = 3, stride = 4\<rparr>"

lemma tiny_font_ok: "font_ok tiny_font"
  by (auto simp: font_ok_def tiny_font_def INVALID_CHAR_def split: if_splits)

lemma tiny_screen_ok: "screen_ok tiny_font tiny_screen"
  by (simp add: screen_ok_def tiny_screen_def tiny_font_def writer_new_def clear_def BORDER_PADDING_def)

text \<open>
  C21. The framebuffer console never panics and never writes outside the framebuffer: on a screen that
  matches its description and holds one character, printing any text returns, whatever the wrap-arounds
  of lines and screens, and the cursor stays on the screen. The bound on the text keeps the row counter,
  which new lines increase without a limit, within its 64 bits.
\<close>

theorem fb_print_total:
  assumes "font_ok F" and "screen_ok F w" and "x_pos w \<le> fb_width (info w)"
    and "y_pos w + (CHAR_RASTER_HEIGHT F + 2) * length s < 2 ^ 63"
  shows "\<exists>w'. fb_print p F s (Some w) = Inr (Some w') \<and> screen_ok F w' \<and> x_pos w' \<le> fb_width (info w') \<and> info w' = info w"
  using write_str_total [OF assms, of p] by (auto simp: fb_print_def)

theorem fb_print_total_witness:
  "\<exists>w'. fb_print Debug tiny_font [65, 66, 10, 67] (Some tiny_screen) = Inr (Some w') \<and> screen_ok tiny_font w' \<and>
    info w' = info tiny_screen"
  using fb_print_total [OF tiny_font_ok tiny_screen_ok, of "[65, 66, 10, 67]" Debug]
  by (auto simp: tiny_screen_def tiny_font_def writer_new_def clear_def BORDER_PADDING_def)

text \<open>
  C22. What a character does to the screen. It is drawn at the cursor, at the start of the next line if
  the line is full, or at the top of a cleared screen if the screen is full; there it fits with its
  border. The bytes of its pixels get the colours of its raster, or that of the replacement character,
  in the pixel format of the screen, and all other bytes keep their values.
\<close>

theorem fb_write_char_draws:
  assumes "font_ok F" and "screen_ok F w" and "x_pos w \<le> fb_width (info w)" and "y_pos w < 2 ^ 63"
    and "c \<noteq> 10" and "c \<noteq> 13" and "place F w = (x, y, fb)"
  shows "\<exists>r w'. get_char_raster F c = Inr r \<and> write_char p F c w = Inr w' \<and>
    x_pos w' = x + CHAR_RASTER_WIDTH F \<and> x_pos w' \<le> fb_width (info w) \<and>
    y_pos w' = y \<and> y + CHAR_RASTER_HEIGHT F + 1 \<le> fb_height (info w) \<and>
    framebuffer w' = draw (info w) (glyph x y (raster r) (CHAR_RASTER_WIDTH F) (CHAR_RASTER_HEIGHT F)) fb"
proof -
  obtain r where "get_char_raster F c = Inr r" "write_char p F c w = Inr (w\<lparr>x_pos := x + CHAR_RASTER_WIDTH F, y_pos := y,
      framebuffer := draw (info w) (glyph x y (raster r) (CHAR_RASTER_WIDTH F) (CHAR_RASTER_HEIGHT F)) fb\<rparr>)"
    using write_char_draw [OF assms] by blast
  then show ?thesis using place_fits [OF assms(2,7)] by simp
qed

theorem fb_write_char_draws_witness:
  "\<exists>r w'. get_char_raster tiny_font 65 = Inr r \<and> write_char Debug tiny_font 65 tiny_screen = Inr w' \<and>
    framebuffer w' = draw (info tiny_screen) (glyph 1 1 (raster r) 2 2) (replicate 60 0)"
proof -
  have "place tiny_font tiny_screen = (1, 1, replicate 60 0)"
    by (simp add: place_def tiny_font_def tiny_screen_def writer_new_def clear_def BORDER_PADDING_def)
  from fb_write_char_draws [OF tiny_font_ok tiny_screen_ok _ _ _ _ this, of 65 Debug] show ?thesis
    by (auto simp: tiny_font_def tiny_screen_def writer_new_def clear_def BORDER_PADDING_def)
qed

end
