(* ===== verification/Kernel_Tasks.thy ===== *)
theory Kernel_Tasks
  imports Apic_Interrupts
begin

text \<open>
  The two tasks the kernel starts (\<open>example_task\<close> of \<^verbatim>\<open>kernel/src/main.rs\<close>, \<open>print_keypresses\<close> of
  \<^verbatim>\<open>task/keyboard.rs\<close>) as futures, run by the executor, with the interrupt handlers in between: the way
  of a scancode from the port of the keyboard to the console.

  An asynchronous function is a state machine: the constructors are the points at which a poll begins.
  The world of a poll is the state the interrupt handlers work on and the text printed so far.
\<close>

datatype 'kb kernel_future = Example_Task | Print_Keypresses | Print_Keypresses_Loop 'kb

datatype 'kc task_output = Async_Number u32 | Key_Output "'kc key_output"

record ('q, 'k, 'kc) task_world =
  irqs :: "('q, 'k) irq_state"
  console :: "'kc task_output list"

definition async_number :: u32 where
  "async_number = 42"

text \<open>\<open>example_task\<close> awaits a future that is ready at once, and prints.\<close>

definition example_task :: "('q, 'k, 'kc) task_world \<Rightarrow> ('q, 'k, 'kc) task_world" where
  "example_task w = (let number = async_number in w\<lparr>console := console w @ [Async_Number number]\<rparr>)"

text \<open>The loop of \<open>print_keypresses\<close> up to the next \<open>await\<close> that is pending, or its end.\<close>

partial_function (option) keypress_loop :: "('q, u8) array_queue_ops \<Rightarrow> 'k atomic_waker_ops \<Rightarrow> ('kb, 'ev, 'kc) pc_keyboard_ops \<Rightarrow>
    task_id \<Rightarrow> 'kb \<Rightarrow> 'kc task_output list \<Rightarrow> ('q, 'k) kbd \<Rightarrow> (poll \<times> 'kb \<times> 'kc task_output list \<times> ('q, 'k) kbd) res option" where
  "keypress_loop Q A K cx kb out st =
     (case poll_next Q A cx st of
        Inl e \<Rightarrow> Some (Inl e)
      | Inr (r, st1) \<Rightarrow>
          (case r of
             Next_Pending \<Rightarrow> Some (Inr (Pending, kb, out, st1))
           | Next_Ready None \<Rightarrow> Some (Inr (Ready, kb, out, st1))
           | Next_Ready (Some scancode) \<Rightarrow>
               let (keys, kb1) = print_keypress K scancode kb in
               keypress_loop Q A K cx kb1 (out @ map Key_Output keys) st1))"

text \<open>
  A poll of either task, for the executor: it needs a total function, so a loop that does not return is a panic here; by
  the lemma \<open>keypress_loop_drains\<close> below it always returns.
\<close>

definition poll_keypresses :: "('q, u8) array_queue_ops \<Rightarrow> 'k atomic_waker_ops \<Rightarrow> ('kb, 'ev, 'kc) pc_keyboard_ops \<Rightarrow>
    'kb \<Rightarrow> task_id \<Rightarrow> ('q, 'k, 'kc) task_world \<Rightarrow> (poll \<times> 'kb kernel_future \<times> task_id list \<times> ('q, 'k, 'kc) task_world) res" where
  "poll_keypresses Q A K kb cx w =
     (case keypress_loop Q A K cx kb (console w) (keyboard (irqs w)) of
        None \<Rightarrow> Inl (Panic ''print_keypresses does not return'')
      | Some (Inl e) \<Rightarrow> Inl e
      | Some (Inr (r, kb', out, st)) \<Rightarrow>
          Inr (r, Print_Keypresses_Loop kb', [], w\<lparr>irqs := (irqs w)\<lparr>keyboard := st\<rparr>, console := out\<rparr>))"

definition kernel_poll :: "('q, u8) array_queue_ops \<Rightarrow> 'k atomic_waker_ops \<Rightarrow> ('kb, 'ev, 'kc) pc_keyboard_ops \<Rightarrow>
    ('kb kernel_future, ('q, 'k, 'kc) task_world) future_poll" where
  "kernel_poll Q A K future cx w =
     (case future of
        Example_Task \<Rightarrow> Inr (Ready, future, [], example_task w)
      | Print_Keypresses \<Rightarrow>
          and_then (scancode_stream_new Q (keyboard (irqs w))) (\<lambda>st.
          poll_keypresses Q A K (kb_new K) cx (w\<lparr>irqs := (irqs w)\<lparr>keyboard := st\<rparr>\<rparr>))
      | Print_Keypresses_Loop kb \<Rightarrow> poll_keypresses Q A K kb cx w)"

text \<open>An interrupt: its handler runs, and the task it wakes goes to the queue of the executor. \<open>s\<close> is what the keyboard's port answers.\<close>

definition interrupt_arrives :: "('t, task_id) array_queue_ops \<Rightarrow> ('q, u8) array_queue_ops \<Rightarrow> 'k atomic_waker_ops \<Rightarrow>
    handler \<times> u8 \<Rightarrow> ('f, 't) executor \<times> ('q, 'k, 'kc) task_world \<Rightarrow> (('f, 't) executor \<times> ('q, 'k, 'kc) task_world) res" where
  "interrupt_arrives QT Q A = (\<lambda>(h, s) (ex, w).
     and_then (run_handler Q A (\<lambda>_. s) h (irqs w)) (\<lambda>(woken, st).
     and_then (for_each (wake_task QT) (case woken of None \<Rightarrow> [] | Some i \<Rightarrow> [i]) (task_queue ex)) (\<lambda>q.
     Inr (ex\<lparr>task_queue := q\<rparr>, w\<lparr>irqs := st\<rparr>))))"

text \<open>The executor between bursts of interrupts: it runs until no task is ready.\<close>

fun run_bursts :: "('t, task_id) array_queue_ops \<Rightarrow> ('q, u8) array_queue_ops \<Rightarrow> 'k atomic_waker_ops \<Rightarrow> ('kb, 'ev, 'kc) pc_keyboard_ops \<Rightarrow>
    (handler \<times> u8) list list \<Rightarrow> ('kb kernel_future, 't) executor \<times> ('q, 'k, 'kc) task_world \<Rightarrow>
    (('kb kernel_future, 't) executor \<times> ('q, 'k, 'kc) task_world) res option" where
  "run_bursts QT Q A K [] s = Some (Inr s)"
| "run_bursts QT Q A K (b # bs) s =
     o_then (Some (for_each (interrupt_arrives QT Q A) b s)) (\<lambda>s1.
     o_then (run_ready_tasks QT (kernel_poll Q A K) s1) (run_bursts QT Q A K bs))"

definition keys :: "(handler \<times> u8) list \<Rightarrow> u8 list" where
  "keys b = map snd (filter (\<lambda>(h, _). h = Handle_Keyboard) b)"


section \<open>The loop of the keyboard task\<close>

context keyboard_task
begin

lemma keypress_loop_drains:
  assumes "SCANCODE_QUEUE st = Some q" and "decode_all K (elems q) kb = (os, kb')"
  shows "\<exists>k' q'. keypress_loop Q A K cx kb out st =
      Some (Inr (Pending, kb', out @ map Key_Output os, \<lparr>WAKER = k', SCANCODE_QUEUE = Some q'\<rparr>)) \<and>
    current k' = Some cx \<and> elems q' = [] \<and> cap q' = cap q"
  using assms
proof (induction "elems q" arbitrary: q st kb os out)
  case Nil
  then obtain q1 q2 where "aq_pop Q q = (None, q1)" "aq_pop Q q1 = (None, q2)" "elems q2 = []" "cap q2 = cap q"
    using scancodes.pop_empty [of q] scancodes.pop_empty by metis
  then show ?case using Nil register_current [of "WAKER st" cx]
    by (cases st) (subst keypress_loop.simps, auto simp: poll_next_def Let_def)
next
  case (Cons s ss)
  obtain q1 where q1: "aq_pop Q q = (Some s, q1)" "elems q1 = ss" "cap q1 = cap q"
    using scancodes.pop_Cons [of q s ss] Cons.hyps(2) by auto
  obtain o1 kb1 where p: "print_keypress K s kb = (o1, kb1)" by fastforce
  obtain o2 where d: "decode_all K (elems q1) kb1 = (o2, kb')" "os = o1 @ o2"
    using Cons.prems(2) p q1(2) by (auto simp: Cons.hyps(2) [symmetric] Let_def split: prod.splits)
  have "keypress_loop Q A K cx kb out st =
      keypress_loop Q A K cx kb1 (out @ map Key_Output o1) (st\<lparr>SCANCODE_QUEUE := Some q1\<rparr>)"
    using Cons.prems(1) q1(1) p by (subst keypress_loop.simps) (simp add: poll_next_def Let_def)
  then show ?case using Cons.hyps(1) [of q1 "st\<lparr>SCANCODE_QUEUE := Some q1\<rparr>" kb1 o2 "out @ map Key_Output o1"] q1 d
    by auto
qed

end

lemma decode_all_append:
  "decode_all K (xs @ ys) kb = (let (os, kb1) = decode_all K xs kb; (os', kb2) = decode_all K ys kb1 in (os @ os', kb2))"
  by (induction xs arbitrary: kb) (simp_all add: Let_def split: prod.split)


section \<open>The executor on the two tasks\<close>

context executor_queue
begin

lemma run_ready_nil:
  assumes "elems (task_queue ex) = []"
  shows "\<exists>q. run_ready_tasks Q poll (ex, w) = Some (Inr (ex\<lparr>task_queue := q\<rparr>, w)) \<and> elems q = [] \<and> cap q = cap (task_queue ex)"
  using pop_empty [OF assms] by (subst run_ready_tasks.simps) auto

lemma run_ready_step:
  assumes "exec_inv ex" and "elems (task_queue ex) = i # rest" and "tasks ex i = Some f" and "poll f i w = Inr (r, f', [], w')"
  obtains ex' where "run_ready_tasks Q poll (ex, w) = run_ready_tasks Q poll (ex', w')" and "exec_inv ex'"
    and "elems (task_queue ex') = rest" and "cap (task_queue ex') = cap (task_queue ex)"
    and "tasks ex' = (tasks ex)(i := (case r of Ready \<Rightarrow> None | Pending \<Rightarrow> Some f'))"
proof -
  obtain q where q: "aq_pop Q (task_queue ex) = (Some i, q)" "elems q = rest" "cap q = cap (task_queue ex)"
    using pop_Cons [OF assms(2)] by blast
  obtain ex' where ex': "run_task Q poll i (ex\<lparr>task_queue := q\<rparr>, w) = Inr (ex', w')" "exec_inv ex'" "task_queue ex' = q"
      "tasks ex' = (tasks ex)(i := (case r of Ready \<Rightarrow> None | Pending \<Rightarrow> Some f'))"
    using run_task_poll [of "ex\<lparr>task_queue := q\<rparr>" i f poll w r f' "[]" w' Q q] assms(1,3,4) by auto
  then show thesis using q by (intro that [of ex']) (subst run_ready_tasks.simps, simp_all)
qed

end

text \<open>
  The keyboard task alone is left, the scancodes \<open>xs\<close> wait for it, and \<open>sofar\<close> has been printed. If there
  are any, it is queued once; if not, its waker is registered.
\<close>

definition waiting :: "('t \<Rightarrow> task_id list) \<Rightarrow> ('t \<Rightarrow> nat) \<Rightarrow> ('q \<Rightarrow> u8 list) \<Rightarrow> ('q \<Rightarrow> nat) \<Rightarrow> ('k \<Rightarrow> task_id option) \<Rightarrow> 'kb \<Rightarrow> u8 list \<Rightarrow>
    'kc task_output list \<Rightarrow> ('kb kernel_future, 't) executor \<times> ('q, 'k, 'kc) task_world \<Rightarrow> bool" where
  "waiting telems tcap elems cap current kb xs sofar = (\<lambda>(ex, w).
     exec_inv ex \<and> tasks ex = [1 \<mapsto> Print_Keypresses_Loop kb] \<and> tcap (task_queue ex) = 100 \<and> APIC_BASE (irqs w) \<noteq> None \<and> console w = sofar \<and>
     (\<exists>q. SCANCODE_QUEUE (keyboard (irqs w)) = Some q \<and> elems q = xs \<and> cap q = 100 \<and>
        (if xs = [] then telems (task_queue ex) = [] \<and> current (WAKER (keyboard (irqs w))) = Some 1
         else telems (task_queue ex) = [1] \<and> current (WAKER (keyboard (irqs w))) = None)))"

locale kernel_tasks = tq: executor_queue QT telems tcap + keyboard_task Q elems cap A current
  for QT :: "('t, task_id) array_queue_ops" and telems and tcap
    and Q :: "('q, u8) array_queue_ops" and elems and cap and A :: "'k atomic_waker_ops" and current
begin

abbreviation ready_for where "ready_for \<equiv> waiting telems tcap elems cap current"

lemma handler_quiet:
  assumes "APIC_BASE st \<noteq> None" and "h \<noteq> Handle_Double_Fault" and "h \<noteq> Handle_Keyboard"
  shows "\<exists>st'. run_handler Q A inb h st = Inr (None, st') \<and> keyboard st' = keyboard st \<and> APIC_BASE st' \<noteq> None"
  using assms by (cases h) (auto simp: handler_defs eoi_some)

lemma handler_key:
  assumes "APIC_BASE st \<noteq> None" and "SCANCODE_QUEUE (keyboard st) = Some q" and "length (elems q) < cap q"
  shows "\<exists>st' q'. run_handler Q A (\<lambda>_. s) Handle_Keyboard st = Inr (current (WAKER (keyboard st)), st') \<and> APIC_BASE st' \<noteq> None \<and>
    SCANCODE_QUEUE (keyboard st') = Some q' \<and> elems q' = elems q @ [s] \<and> cap q' = cap q \<and> current (WAKER (keyboard st')) = None"
proof -
  obtain q' where q': "aq_push Q q s = (True, q')" "elems q' = elems q @ [s]" "cap q' = cap q"
    using scancodes.push_room [OF assms(3)] by blast
  obtain k' where "aw_take A (WAKER (keyboard st)) = (current (WAKER (keyboard st)), k')" "current k' = None"
    using take_current by blast
  then show ?thesis using assms(1,2) q' by (auto simp: handler_defs add_scancode_def eoi_some Let_def)
qed

lemma interrupt_waiting:
  assumes "ready_for kb xs sofar s" and "h \<noteq> Handle_Double_Fault" and "h = Handle_Keyboard \<Longrightarrow> length xs < 100"
  shows "\<exists>s'. interrupt_arrives QT Q A (h, c) s = Inr s' \<and> ready_for kb (xs @ (if h = Handle_Keyboard then [c] else [])) sofar s'"
proof -
  obtain ex w where s: "s = (ex, w)" by fastforce
  obtain q where I: "exec_inv ex" "tasks ex = [1 \<mapsto> Print_Keypresses_Loop kb]" "tcap (task_queue ex) = 100" "APIC_BASE (irqs w) \<noteq> None"
      "console w = sofar" "SCANCODE_QUEUE (keyboard (irqs w)) = Some q" "elems q = xs" "cap q = 100"
      "if xs = [] then telems (task_queue ex) = [] \<and> current (WAKER (keyboard (irqs w))) = Some 1
       else telems (task_queue ex) = [1] \<and> current (WAKER (keyboard (irqs w))) = None"
    using assms(1) unfolding waiting_def s by auto
  show ?thesis
  proof (cases "h = Handle_Keyboard")
    case False
    then obtain st where "run_handler Q A (\<lambda>_. c) h (irqs w) = Inr (None, st)" "keyboard st = keyboard (irqs w)" "APIC_BASE st \<noteq> None"
      using handler_quiet [OF I(4) assms(2)] by blast
    then show ?thesis using I False by (auto simp: interrupt_arrives_def s waiting_def)
  next
    case True
    then have len: "length (elems q) < cap q" using assms(3) I(7,8) by simp
    obtain st q' where st: "run_handler Q A (\<lambda>_. c) h (irqs w) = Inr (current (WAKER (keyboard (irqs w))), st)" "APIC_BASE st \<noteq> None"
        "SCANCODE_QUEUE (keyboard st) = Some q'" "elems q' = xs @ [c]" "cap q' = 100" "current (WAKER (keyboard st)) = None"
      using handler_key [OF I(4,6) len, of c] I(7,8) True by auto
    obtain tq where tq: "for_each (wake_task QT) (case current (WAKER (keyboard (irqs w))) of None \<Rightarrow> [] | Some i \<Rightarrow> [i]) (task_queue ex) = Inr tq"
        "telems tq = [1]" "tcap tq = 100"
      using I(3,9) tq.wake_all [of "task_queue ex" "[1]"] by (cases "xs = []") auto
    show ?thesis using st tq I(1,2,5) True by (auto simp: interrupt_arrives_def s waiting_def)
  qed
qed

lemma burst_waiting:
  assumes "ready_for kb xs sofar s" and "\<forall>(h, _)\<in>set b. h \<noteq> Handle_Double_Fault" and "length xs + length (keys b) \<le> 100"
  shows "\<exists>s'. for_each (interrupt_arrives QT Q A) b s = Inr s' \<and> ready_for kb (xs @ keys b) sofar s'"
  using assms
proof (induction b arbitrary: xs s)
  case (Cons e b)
  obtain h c where e: "e = (h, c)" by fastforce
  obtain s1 where s1: "interrupt_arrives QT Q A (h, c) s = Inr s1" "ready_for kb (xs @ (if h = Handle_Keyboard then [c] else [])) sofar s1"
    using interrupt_waiting [OF Cons.prems(1), of h c] Cons.prems(2,3) e by (auto simp: keys_def split: if_splits)
  have "keys (e # b) = (if h = Handle_Keyboard then [c] else []) @ keys b" by (simp add: keys_def e)
  then show ?case using Cons.IH [OF s1(2)] s1(1) Cons.prems(2,3) e by auto
qed (simp add: keys_def)

text \<open>A poll of the keyboard task prints what has arrived and goes back to waiting.\<close>

lemma poll_keypresses_drains:
  assumes "SCANCODE_QUEUE (keyboard (irqs w)) = Some q" and "decode_all K (elems q) kb = (os, kb')"
  shows "\<exists>w' q'. poll_keypresses Q A K kb cx w = Inr (Pending, Print_Keypresses_Loop kb', [], w') \<and>
    APIC_BASE (irqs w') = APIC_BASE (irqs w) \<and> console w' = console w @ map Key_Output os \<and>
    SCANCODE_QUEUE (keyboard (irqs w')) = Some q' \<and> elems q' = [] \<and> cap q' = cap q \<and> current (WAKER (keyboard (irqs w'))) = Some cx"
  using keypress_loop_drains [OF assms, of cx "console w"] by (auto simp: poll_keypresses_def)

lemma round_waiting:
  assumes "ready_for kb xs sofar s" and "decode_all K xs kb = (os, kb')"
  shows "\<exists>s'. run_ready_tasks QT (kernel_poll Q A K) s = Some (Inr s') \<and> ready_for kb' [] (sofar @ map Key_Output os) s'"
proof -
  obtain ex w where s: "s = (ex, w)" by fastforce
  obtain q where I: "exec_inv ex" "tasks ex = [1 \<mapsto> Print_Keypresses_Loop kb]" "tcap (task_queue ex) = 100" "APIC_BASE (irqs w) \<noteq> None"
      "console w = sofar" "SCANCODE_QUEUE (keyboard (irqs w)) = Some q" "elems q = xs" "cap q = 100"
      "if xs = [] then telems (task_queue ex) = [] \<and> current (WAKER (keyboard (irqs w))) = Some 1
       else telems (task_queue ex) = [1] \<and> current (WAKER (keyboard (irqs w))) = None"
    using assms(1) unfolding waiting_def s by auto
  show ?thesis
  proof (cases "xs = []")
    case True
    then obtain tq where "run_ready_tasks QT (kernel_poll Q A K) (ex, w) = Some (Inr (ex\<lparr>task_queue := tq\<rparr>, w))" "telems tq = []" "tcap tq = 100"
      using tq.run_ready_nil I(3,9) by (metis (full_types))
    then show ?thesis using I assms(2) True by (auto simp: waiting_def s)
  next
    case False
    obtain w' q' where p: "poll_keypresses Q A K kb 1 w = Inr (Pending, Print_Keypresses_Loop kb', [], w')"
        "APIC_BASE (irqs w') \<noteq> None" "console w' = sofar @ map Key_Output os" "SCANCODE_QUEUE (keyboard (irqs w')) = Some q'"
        "elems q' = []" "cap q' = 100" "current (WAKER (keyboard (irqs w'))) = Some 1"
      using poll_keypresses_drains [OF I(6), of K kb os kb' 1] assms(2) I(4,5,7,8) by auto
    obtain ex' where ex': "run_ready_tasks QT (kernel_poll Q A K) (ex, w) = run_ready_tasks QT (kernel_poll Q A K) (ex', w')" "exec_inv ex'"
        "telems (task_queue ex') = []" "tcap (task_queue ex') = 100" "tasks ex' = [1 \<mapsto> Print_Keypresses_Loop kb']"
      using tq.run_ready_step [OF I(1), of 1 "[]" "Print_Keypresses_Loop kb" "kernel_poll Q A K" w Pending "Print_Keypresses_Loop kb'" w']
        I(2,3,9) False p(1) by (auto simp: kernel_poll_def)
    obtain tq where "run_ready_tasks QT (kernel_poll Q A K) (ex', w') = Some (Inr (ex'\<lparr>task_queue := tq\<rparr>, w'))" "telems tq = []" "tcap tq = 100"
      using tq.run_ready_nil [OF ex'(3)] ex'(4) by metis
    then show ?thesis using ex' p by (auto simp: waiting_def s)
  qed
qed

lemma run_bursts_waiting:
  assumes "ready_for kb [] sofar s" and "\<forall>b\<in>set bs. (\<forall>(h, _)\<in>set b. h \<noteq> Handle_Double_Fault) \<and> length (keys b) \<le> 100"
    and "decode_all K (concat (map keys bs)) kb = (os, kb')"
  shows "\<exists>s'. run_bursts QT Q A K bs s = Some (Inr s') \<and> ready_for kb' [] (sofar @ map Key_Output os) s'"
  using assms
proof (induction bs arbitrary: kb sofar s os)
  case (Cons b bs)
  obtain s1 where s1: "for_each (interrupt_arrives QT Q A) b s = Inr s1" "ready_for kb (keys b) sofar s1"
    using burst_waiting [OF Cons.prems(1), of b] Cons.prems(2) by auto
  obtain o1 kb1 where d1: "decode_all K (keys b) kb = (o1, kb1)" by fastforce
  obtain o2 where d2: "decode_all K (concat (map keys bs)) kb1 = (o2, kb')" "os = o1 @ o2"
    using Cons.prems(3) d1 by (auto simp: decode_all_append Let_def split: prod.splits)
  obtain s2 where s2: "run_ready_tasks QT (kernel_poll Q A K) s1 = Some (Inr s2)" "ready_for kb1 [] (sofar @ map Key_Output o1) s2"
    using round_waiting [OF s1(2) d1] by blast
  then show ?case using Cons.IH [OF s2(2) _ d2(1)] Cons.prems(2) s1(1) d2(2) by auto
qed simp

lemma first_round:
  assumes "exec_inv ex" and "tasks ex = [0 \<mapsto> Example_Task, 1 \<mapsto> Print_Keypresses]" and "telems (task_queue ex) = [0, 1]"
    and "tcap (task_queue ex) = 100" and "APIC_BASE (irqs w) \<noteq> None" and "keyboard (irqs w) = kbd_init A" and "console w = []"
  shows "\<exists>s'. run_ready_tasks QT (kernel_poll Q A K) (ex, w) = Some (Inr s') \<and> ready_for (kb_new K) [] [Async_Number 42] s'"
proof -
  let ?poll = "kernel_poll Q A K"
  have p0: "?poll Example_Task 0 w = Inr (Ready, Example_Task, [], w\<lparr>console := [Async_Number 42]\<rparr>)"
    by (simp add: kernel_poll_def example_task_def async_number_def assms(7))
  obtain ex1 where e1: "run_ready_tasks QT ?poll (ex, w) = run_ready_tasks QT ?poll (ex1, w\<lparr>console := [Async_Number 42]\<rparr>)" "exec_inv ex1"
      "telems (task_queue ex1) = [1]" "tcap (task_queue ex1) = 100" "tasks ex1 = [1 \<mapsto> Print_Keypresses]"
    using tq.run_ready_step [of ex 0 "[1]" Example_Task ?poll w Ready Example_Task] assms(1-4) p0 by (auto simp: fun_upd_twist)
  define w1 where "w1 = w\<lparr>console := [Async_Number 42], irqs := (irqs w)\<lparr>keyboard := (kbd_init A)\<lparr>SCANCODE_QUEUE := Some (aq_new Q 100)\<rparr>\<rparr>\<rparr>"
  obtain w' q' where p: "poll_keypresses Q A K (kb_new K) 1 w1 = Inr (Pending, Print_Keypresses_Loop (kb_new K), [], w')"
      "APIC_BASE (irqs w') \<noteq> None" "console w' = [Async_Number 42]" "SCANCODE_QUEUE (keyboard (irqs w')) = Some q'"
      "elems q' = []" "cap q' = 100" "current (WAKER (keyboard (irqs w'))) = Some 1"
    using poll_keypresses_drains [of w1 "aq_new Q 100" K "kb_new K" "[]" "kb_new K" 1] scancodes.new_elems [of 100] scancodes.new_cap [of 100] assms(5)
    by (auto simp: w1_def)
  have p1: "?poll Print_Keypresses 1 (w\<lparr>console := [Async_Number 42]\<rparr>) = Inr (Pending, Print_Keypresses_Loop (kb_new K), [], w')"
    using p(1) assms(6) by (simp add: kernel_poll_def scancode_stream_new_def kbd_init_def w1_def)
  obtain ex2 where e2: "run_ready_tasks QT ?poll (ex1, w\<lparr>console := [Async_Number 42]\<rparr>) = run_ready_tasks QT ?poll (ex2, w')" "exec_inv ex2"
      "telems (task_queue ex2) = []" "tcap (task_queue ex2) = 100" "tasks ex2 = [1 \<mapsto> Print_Keypresses_Loop (kb_new K)]"
    using tq.run_ready_step [OF e1(2,3), of Print_Keypresses ?poll, OF _ p1] e1(4,5) by auto
  obtain tq where "run_ready_tasks QT ?poll (ex2, w') = Some (Inr (ex2\<lparr>task_queue := tq\<rparr>, w'))" "telems tq = []" "tcap tq = 100"
    using tq.run_ready_nil [OF e2(3)] e2(4) by metis
  then show ?thesis using e1(1) e2 p by (auto simp: waiting_def)
qed

lemma typed_is_printed:
  assumes "exec_inv ex" and "tasks ex = [0 \<mapsto> Example_Task, 1 \<mapsto> Print_Keypresses]" and "telems (task_queue ex) = [0, 1]"
    and "tcap (task_queue ex) = 100" and "APIC_BASE st \<noteq> None" and "keyboard st = kbd_init A"
    and "\<forall>b\<in>set bs. (\<forall>(h, _)\<in>set b. h \<noteq> Handle_Double_Fault) \<and> length (keys b) \<le> 100"
  shows "\<exists>ex' w'. o_then (run_ready_tasks QT (kernel_poll Q A K) (ex, \<lparr>irqs = st, console = []\<rparr>)) (run_bursts QT Q A K bs) = Some (Inr (ex', w')) \<and>
    console w' = Async_Number 42 # map Key_Output (fst (decode_all K (concat (map keys bs)) (kb_new K))) \<and>
    dom (tasks ex') = {1} \<and> telems (task_queue ex') = []"
proof -
  obtain s1 where s1: "run_ready_tasks QT (kernel_poll Q A K) (ex, \<lparr>irqs = st, console = []\<rparr>) = Some (Inr s1)"
      "ready_for (kb_new K) [] [Async_Number 42] s1"
    using first_round [OF assms(1-4), of "\<lparr>irqs = st, console = []\<rparr>" K] assms(5,6) by auto
  obtain os kb' where d: "decode_all K (concat (map keys bs)) (kb_new K) = (os, kb')" by fastforce
  show ?thesis using run_bursts_waiting [OF s1(2) assms(7) d] s1(1) d by (auto simp: waiting_def)
qed

end

interpretation list_tasks: kernel_tasks list_queue snd fst list_queue snd fst cell_waker "\<lambda>k. k"
  by unfold_locales

end
