(* ===== verification/Kernel_Boot.thy ===== *)
theory Kernel_Boot
  imports Memory_Init Segment_Tables Smp_Startup Framebuffer_Writer Kernel_Tasks
begin

text \<open>
  The boot sequence: \<open>kernel_main\<close> (\<^verbatim>\<open>kernel/src/main.rs\<close>) with \<^verbatim>\<open>init/graphics.rs\<close>,
  \<^verbatim>\<open>init/acpi.rs\<close>, the mapping functions of \<^verbatim>\<open>kernel_acpi.rs\<close>, the remapping of the trampoline page
  (\<^verbatim>\<open>init/multicore.rs\<close>) and \<open>init_gdt_idt\<close> of \<^verbatim>\<open>lib.rs\<close>. It composes the components of the other
  theories in the order of the code. The tables of the crate \<^verbatim>\<open>acpi\<close> are a parameter, a function from the
  address of the root pointer to what the kernel takes from them.
\<close>

section \<open>Mapping physical memory\<close>

record physical_mapping =
  physical_start :: nat
  virtual_start :: nat
  region_length :: nat
  mapped_length :: nat

definition map_physical_region :: "profile \<Rightarrow> nat \<Rightarrow> nat \<Rightarrow> nat \<Rightarrow> physical_mapping res" where
  "map_physical_region p offset physical_address region_size =
     (let phys_base_page = align_down physical_address in
      and_then (u64_sub p physical_address phys_base_page) (\<lambda>offset_in_page.
      and_then (u64_add p offset_in_page region_size) (\<lambda>mapped_size.
      and_then (u64_add p offset phys_base_page) (\<lambda>virt_base.
      and_then (u64_add p virt_base offset_in_page) (\<lambda>t_virtual.
      if t_virtual = 0 then Inl (Panic ''Mapping must not be null'')
      else Inr \<lparr>physical_start = physical_address, virtual_start = t_virtual, region_length = region_size,
                mapped_length = mapped_size\<rparr>)))))"

definition map_physical_page :: "profile \<Rightarrow> x86_addr_ops \<Rightarrow> ('m, 'f) paging_traits \<Rightarrow> nat \<Rightarrow> nat \<Rightarrow> nat \<Rightarrow>
    ('m, 'f) page_allocator \<Rightarrow> ('m, 'f) page_allocator res" where
  "map_physical_page p X T phys_addr virt_base i pa =
     and_then (u64_mul p i PAGE_SIZE) (\<lambda>off.
     and_then (u64_add p phys_addr off) (\<lambda>phys.
     and_then (u64_add p virt_base off) (\<lambda>virt.
     and_then (virt_addr_new X virt) (\<lambda>va.
     let page = page_containing X va in
     and_then (phys_addr_new X phys) (\<lambda>pha.
     let phys_frame = phys_frame_containing X pha in
     and_then (map_to T (pa_mapper pa) page phys_frame {PRESENT, WRITABLE} (pa_frames pa)) (\<lambda>(r, m, f).
     case r of
       Inr _ \<Rightarrow> Inr (pa\<lparr>pa_mapper := m, pa_frames := f\<rparr>)
     | Inl e \<Rightarrow> Inl (Panic ''map_to failed'')))))))"

definition map_physical :: "profile \<Rightarrow> x86_addr_ops \<Rightarrow> ('m, 'f) paging_traits \<Rightarrow> nat \<Rightarrow> nat \<Rightarrow>
    ('m, 'f) page_allocator option \<Rightarrow> (nat \<times> ('m, 'f) page_allocator option) res" where
  "map_physical p X T phys_addr num_pages g =
     and_then (expect g ''PAGE_ALLOCATOR uninitialized'') (\<lambda>pa.
     and_then (u64_add p KERNEL_HEAP_START phys_addr) (\<lambda>virt_base.
     and_then (for_each (map_physical_page p X T phys_addr virt_base) [0..<num_pages] pa) (\<lambda>pa'.
     Inr (virt_base, Some pa'))))"

text \<open>\<open>unmap\<close>, or the known frame if the page was not mapped, then \<open>map_to\<close> without caching.\<close>

definition remap_trampoline_uncacheable :: "x86_addr_ops \<Rightarrow> ('m, 'f) paging_traits \<Rightarrow>
    ('m, 'f) page_allocator option \<Rightarrow> ('m, 'f) page_allocator option res" where
  "remap_trampoline_uncacheable X T g =
     and_then (virt_addr_new X TRAMPOLINE_BASE) (\<lambda>va.
     let page = page_containing X va in
     and_then (expect g ''PageAlloc uninit'') (\<lambda>pa.
     and_then (unmap T (pa_mapper pa) page) (\<lambda>(r, m).
     and_then (case r of
                 Inr frame \<Rightarrow> Inr frame
               | Inl e \<Rightarrow> (case e of
                    PageNotMapped \<Rightarrow> and_then (phys_addr_new X TRAMPOLINE_BASE) (\<lambda>a. Inr (phys_frame_containing X a))
                  | _ \<Rightarrow> Inl (Panic ''failed to unmap trampoline page''))) (\<lambda>frame.
     and_then (map_to T m page frame {PRESENT, WRITABLE, NO_CACHE} (pa_frames pa)) (\<lambda>(r2, m2, f2).
     case r2 of
       Inr _ \<Rightarrow> Inr (Some (pa\<lparr>pa_mapper := m2, pa_frames := f2\<rparr>))
     | Inl _ \<Rightarrow> Inl (Panic ''mapping trampoline failed''))))))"


section \<open>Graphics and ACPI\<close>

definition init_framebuffer :: "(u8 list \<times> frame_buffer_info) option \<Rightarrow> frame_buffer_writer option res" where
  "init_framebuffer fb =
     (case fb of
        Some (buffer, i) \<Rightarrow> Inr (init_framebuffer_writer buffer i)
      | None \<Rightarrow> Inl (Panic ''No framebuffer available in BootInfo''))"

record platform =
  interrupt_model :: interrupt_model
  processor_info :: "processor list option"
  hpet_address :: "nat option"

definition init_acpi :: "(nat \<Rightarrow> platform option) \<Rightarrow> nat option \<Rightarrow> platform res" where
  "init_acpi acpi_tables rsdp_addr =
     (case rsdp_addr of
        None \<Rightarrow> Inl (Panic ''RSDP address not provided by bootloader'')
      | Some a \<Rightarrow> expect (acpi_tables a) ''Failed to parse ACPI tables'')"


section \<open>The boot sequence\<close>

record boot_info =
  boot_framebuffer :: "(u8 list \<times> frame_buffer_info) option"
  boot_mem :: boot_memory
  rsdp_addr :: "nat option"

text \<open>Everything \<open>kernel_main\<close> calls that is not kernel code.\<close>

record ('m, 'b, 'q, 'g, 'd) platform_ops =
  addr_ops :: x86_addr_ops
  bit_ops :: "'b bit_slice_ops"
  paging_ops :: "('m, 'b bitmap_frame_allocator) paging_traits"
  offset_page_table :: "nat \<Rightarrow> nat \<Rightarrow> 'm"
  segment_ops :: "('g, 'd) gdt_ops"
  STACK :: nat
  boot_bytes :: "nat \<Rightarrow> u8"
  acpi_tables :: "nat \<Rightarrow> platform option"
  rd32 :: "trace \<Rightarrow> nat \<Rightarrow> u32"
  rd64 :: "trace \<Rightarrow> nat \<Rightarrow> u64"
  smp_image :: smp_env
  task_queues :: "('q, task_id) array_queue_ops"

record ('m, 'b, 'q, 'k, 'g) kernel =
  segments :: "u16 set \<times> 'g segment_cpu"
  idt_loaded :: bool
  interrupts_on :: bool
  FRAMEBUFFER_WRITER :: "frame_buffer_writer option"
  mem_state :: "('m, 'b bitmap_frame_allocator) page_allocator memory_state"
  irq :: "('q, 'k) irq_state"
  HPET_BASE :: nat
  smp :: smp_state

text \<open>The descriptor table of the interrupts is a constant; the double fault has a stack of its own.\<close>

definition init_idt :: "('m, 'b, 'q, 'k, 'g) kernel \<Rightarrow> ('m, 'b, 'q, 'k, 'g) kernel" where
  "init_idt k = k\<lparr>idt_loaded := True\<rparr>"

definition idt_stack_index :: "handler \<Rightarrow> nat option" where
  "idt_stack_index h = (if h = Handle_Double_Fault then Some DOUBLE_FAULT_IST_INDEX else None)"

definition init_gdt_idt :: "('m, 'b, 'r, 'g, 'd) platform_ops \<Rightarrow> ('m, 'b, 'q, 'k, 'g) kernel \<Rightarrow> ('m, 'b, 'q, 'k, 'g) kernel res" where
  "init_gdt_idt P k =
     and_then (gdt_init (addr_ops P) (segment_ops P) (STACK P) (segments k)) (\<lambda>s.
     Inr (init_idt (k\<lparr>segments := s\<rparr>)))"

text \<open>\<open>kernel_main\<close> up to and including \<open>interrupts::enable\<close>. It also returns what it read of the ACPI tables.\<close>

definition boot_devices :: "profile \<Rightarrow> ('m, 'b, 'r, 'g, 'd) platform_ops \<Rightarrow> boot_info \<Rightarrow> ('m, 'b, 'q, 'k, 'g) kernel \<Rightarrow>
    (platform \<times> ('m, 'b, 'q, 'k, 'g) kernel) res option" where
  "boot_devices p P bi k0 =
      o_then (Some (init_gdt_idt P k0)) (\<lambda>k1.
      o_then (Some (init_framebuffer (boot_framebuffer bi))) (\<lambda>fb.
      o_then (Some (init_memory p (addr_ops P) (bit_ops P) (paging_ops P) (offset_page_table P) (read_cr3 (smp_image P)) (boot_bytes P)
        (boot_mem bi) (mem_state k1))) (\<lambda>ms.
      o_then (Some (init_acpi (acpi_tables P) (rsdp_addr bi))) (\<lambda>platform.
      o_then (map_option Inr (get_offset_u64 ms)) (\<lambda>offset.
      o_then (Some (init_apic p (rd32 P) offset (interrupt_model platform) (irq k1))) (\<lambda>irq1.
      o_then (case hpet_address platform of
                None \<Rightarrow> Some (Inr (HPET_BASE k1, io irq1))
              | Some a \<Rightarrow> Some (init_hpet p (rd64 P) a offset (io irq1))) (\<lambda>(hb, tr).
      Some (Inr (platform, k1\<lparr>FRAMEBUFFER_WRITER := fb, mem_state := ms, irq := irq1\<lparr>io := tr\<rparr>, HPET_BASE := hb,
        interrupts_on := True\<rparr>)))))))))"

text \<open>The part that prepares and starts the other processors.\<close>

definition boot_processors :: "profile \<Rightarrow> ('m, 'b, 'r, 'g, 'd) platform_ops \<Rightarrow> platform \<Rightarrow> ('m, 'b, 'q, 'k, 'g) kernel \<Rightarrow>
    ('m, 'b, 'q, 'k, 'g) kernel res option" where
  "boot_processors p P platform k =
     o_then (Some (remap_trampoline_uncacheable (addr_ops P) (paging_ops P) (PAGE_ALLOCATOR (heap (mem_state k))))) (\<lambda>g.
     let k1 = k\<lparr>mem_state := (mem_state k)\<lparr>heap := (heap (mem_state k))\<lparr>PAGE_ALLOCATOR := g\<rparr>\<rparr>\<rparr> in
     o_then (map_option Inr (get_offset_u64 (mem_state k1))) (\<lambda>offset.
     o_then (Some (load_ap_trampoline p offset (smp_image P) (smp k1))) (\<lambda>s1.
     let s2 = init_stack_top (smp_image P) s1 in
     case processor_info platform of
       None \<Rightarrow> Some (Inr (k1\<lparr>smp := s2\<rparr>))
     | Some aps \<Rightarrow>
         o_then (Some (expect (APIC_BASE (irq k1)) ''BSP APIC uninitalized!'')) (\<lambda>lapic.
         o_then (init_smp p (rd32 P) (rd64 P) offset (smp_image P) lapic (HPET_BASE k1) aps (s2\<lparr>smp_io := io (irq k1)\<rparr>)) (\<lambda>s3.
         Some (Inr (k1\<lparr>smp := s3, irq := (irq k1)\<lparr>io := smp_io s3\<rparr>\<rparr>)))))))"

text \<open>The tasks, and the whole of \<open>kernel_main\<close> before \<open>executor.run()\<close>, which does not return.\<close>

definition boot_tasks :: "('q, task_id) array_queue_ops \<Rightarrow> task_id \<Rightarrow> ('kb kernel_future, 'q) executor res" where
  "boot_tasks Q NEXT_ID =
     (let ex = executor_new Q; (t1, n1) = task_new Example_Task NEXT_ID in
      and_then (spawn Q ex t1) (\<lambda>ex1.
      let (t2, n2) = task_new Print_Keypresses n1 in spawn Q ex1 t2))"

definition kernel_main :: "profile \<Rightarrow> ('m, 'b, 'r, 'g, 'd) platform_ops \<Rightarrow> boot_info \<Rightarrow> ('m, 'b, 'q, 'k, 'g) kernel \<Rightarrow>
    (('m, 'b, 'q, 'k, 'g) kernel \<times> ('kb kernel_future, 'r) executor) res option" where
  "kernel_main p P bi k0 =
     o_then (boot_devices p P bi k0) (\<lambda>(platform, k1).
     o_then (boot_processors p P platform k1) (\<lambda>k2.
     o_then (Some (boot_tasks (task_queues P) 0)) (\<lambda>ex.
     Some (Inr (k2, ex)))))"

section \<open>Properties\<close>

lemma map_physical_region_eq:
  assumes "offset + phys < 2 ^ 64" and "4096 + region_size < 2 ^ 64" and "0 < offset + phys"
  shows "map_physical_region p offset phys region_size = Inr \<lparr>physical_start = phys, virtual_start = offset + phys,
    region_length = region_size, mapped_length = phys - align_down phys + region_size\<rparr>"
  using assms align_down_le [of phys] align_down_gt [of phys]
  by (simp add: map_physical_region_def u64_sub_ok u64_add_ok)

text \<open>
  \<open>map_physical\<close> maps into the area of the heap: the address it chooses for physical address \<open>phys\<close> is
  \<open>phys\<close> bytes into that area, so it panics if the heap has a page there.
\<close>

lemma map_physical_hits_heap:
  assumes "paging X T free finv owned mapping" and "finv (pa_frames pa)" and "phys < KERNEL_HEAP_SIZE" and "0 < n"
    and "mapping (pa_mapper pa) (align_down (KERNEL_HEAP_START + phys)) \<noteq> None"
  shows "map_physical p X T phys n (Some pa) = Inl (Panic ''map_to failed'')"
proof -
  let ?v = "KERNEL_HEAP_START + phys"
  have v: "?v < 2 ^ 64" "canonical ?v" "phys < 2 ^ 52"
    using assms(3) by (simp_all add: KERNEL_HEAP_START_def KERNEL_HEAP_SIZE_def canonical_def)
  have x: "x86_addr X" using assms(1) by (rule paging.axioms)
  obtain r m f where mt: "map_to T (pa_mapper pa) (align_down ?v) (align_down phys) {PRESENT, WRITABLE} (pa_frames pa) = Inr (r, m, f)"
      "case r of Inl e \<Rightarrow> mapping m = mapping (pa_mapper pa) | Inr _ \<Rightarrow> mapping (pa_mapper pa) (align_down ?v) = None \<and>
        mapping m = (mapping (pa_mapper pa))(align_down ?v \<mapsto> (align_down phys, {PRESENT, WRITABLE}))"
    using paging.map_to_total [OF assms(1,2)] by blast
  then obtain e where "r = Inl e" using assms(5) by (cases r) auto
  then have "map_physical_page p X T phys ?v 0 pa = Inl (Panic ''map_to failed'')"
    using mt(1) v x by (simp add: map_physical_page_def u64_mul_ok u64_add_ok x86_addr.virt_new_ok x86_addr.phys_new_ok
        x86_addr.page_containing_eq x86_addr.frame_containing)
  then show ?thesis using v(1) assms(4) by (cases n) (simp_all add: map_physical_def u64_add_ok upt_conv_Cons del: upt_Suc)
qed

lemma init_hpet_returns: "a + offset < 2 ^ 64 \<Longrightarrow> \<exists>tr'. init_hpet p rd a offset tr = Inr (a + offset, tr')"
  by (simp add: init_hpet_def u64_add_ok read64_def Let_def)

lemma boot_tasks_queue:
  fixes Q :: "('q, task_id) array_queue_ops"
  assumes "array_queue Q elems cap"
  shows "\<exists>ex :: ('kb kernel_future, 'q) executor. boot_tasks Q 0 = Inr ex \<and> exec_inv ex \<and> tasks ex = [0 \<mapsto> Example_Task, 1 \<mapsto> Print_Keypresses] \<and>
    elems (task_queue ex) = [0, 1] \<and> cap (task_queue ex) = 100"
proof -
  define ex0 :: "('kb kernel_future, 'q) executor" where "ex0 = executor_new Q"
  let ?t0 = "\<lparr>t_id = 0, t_future = Example_Task\<rparr>" and ?t1 = "\<lparr>t_id = 1, t_future = Print_Keypresses\<rparr>"
  have q: "executor_queue Q elems cap" using assms by (rule executor_queue.intro)
  have new: "elems (task_queue ex0) = []" "cap (task_queue ex0) = 100" "tasks ex0 = Map.empty"
    using array_queue.new_elems [OF assms, of 100] array_queue.new_cap [OF assms, of 100] by (simp_all add: ex0_def executor_new_def)
  obtain q1 where 1: "spawn Q ex0 ?t0 = Inr (ex0\<lparr>tasks := [0 \<mapsto> Example_Task], task_queue := q1\<rparr>)"
      "elems q1 = [0]" "cap q1 = 100"
    using executor_queue.spawn_fresh [OF q, of ex0 ?t0] new by auto
  define ex1 where "ex1 = ex0\<lparr>tasks := [0 \<mapsto> Example_Task], task_queue := q1\<rparr>"
  obtain q2 where 2: "spawn Q ex1 ?t1 = Inr (ex1\<lparr>tasks := [0 \<mapsto> Example_Task, 1 \<mapsto> Print_Keypresses], task_queue := q2\<rparr>)"
      "elems q2 = [0, 1]" "cap q2 = 100"
    using executor_queue.spawn_fresh [OF q, of ex1 ?t1] 1 by (auto simp: ex1_def)
  have "exec_inv ex0" unfolding ex0_def by (rule exec_inv_new)
  then have "exec_inv (ex1\<lparr>tasks := [0 \<mapsto> Example_Task, 1 \<mapsto> Print_Keypresses], task_queue := q2\<rparr>)"
    using exec_inv_spawn [OF 2(1)] exec_inv_spawn [OF 1(1)] unfolding ex1_def by blast
  then show ?thesis using 1 2 by (auto simp: boot_tasks_def task_new_def task_id_new_def ex0_def ex1_def)
qed

text \<open>What the rest of the kernel relies on once interrupts are enabled.\<close>

definition devices_ready :: "('q, u8) array_queue_ops \<Rightarrow> 'k atomic_waker_ops \<Rightarrow> ('m, 'b, 'r, 'g, 'd) platform_ops \<Rightarrow>
    ('m, 'b, 'q, 'k, 'g) kernel \<Rightarrow> bool" where
  "devices_ready Q A P k \<longleftrightarrow> interrupts_on k \<and> idt_loaded k \<and> FRAMEBUFFER_WRITER k \<noteq> None \<and>
     PAGE_ALLOCATOR (heap (mem_state k)) \<noteq> None \<and> get_offset_u64 (mem_state k) \<noteq> None \<and>
     (\<exists>t. descriptor_at (segment_ops P) (snd (segments k)) (segment_regs (snd (segments k)) Reg_TR) = Some (tss_segment (segment_ops P) t) \<and>
        (\<forall>h i. idt_stack_index h = Some i \<longrightarrow> i < length (interrupt_stack_table t) \<and> interrupt_stack_table t ! i = STACK P + STACK_SIZE)) \<and>
     (\<forall>inb vec h. IDT vec = Some h \<and> h \<noteq> Handle_Double_Fault \<longrightarrow> (\<exists>r. run_handler Q A inb h (irq k) = Inr r))"

lemma handlers_run:
  assumes "APIC_BASE st = Some b" and "h \<noteq> Handle_Double_Fault"
  shows "\<exists>r. run_handler Q A inb h st = Inr r"
  using assms by (cases h) (auto simp: handler_defs eoi_some Let_def split: prod.split)

text \<open>
  A machine the kernel boots on: a framebuffer, a valid memory map with room for the bitmap, nothing mapped in the heap area,
  and the ACPI tables of a platform with APICs.
\<close>

locale bootable =
  fixes P :: "('m, 'b, 'r, 'g, 'd) platform_ops" and bi :: boot_info and k0 :: "('m, 'b, 'q, 'k, 'g) kernel"
    and offset :: nat and pl :: platform and apic :: apic_info
    and mapping :: "'m \<Rightarrow> page_map" and elems :: "'r \<Rightarrow> task_id list" and cap :: "'r \<Rightarrow> nat"
    and room :: "'g \<Rightarrow> nat" and slots :: "'d \<Rightarrow> nat"
  assumes bits: "bit_slice (bit_ops P)" and queues: "array_queue (task_queues P) elems cap"
    and paging: "paging (addr_ops P) (paging_ops P) (free_frames (bit_ops P)) (bfa_inv (bit_ops P)) managed_frames mapping"
    and gdt: "gdt_crate (segment_ops P) room slots" "canonical (STACK P)" "canonical (STACK P + STACK_SIZE)" "fst (segments k0) = {}"
    and screen: "boot_framebuffer bi \<noteq> None"
    and boot: "physical_memory_offset (boot_mem bi) = Some offset" "canonical offset" "PHYSICAL_MEMORY_OFFSET (mem_state k0) = None"
      "canonical (offset + cr3_frame (read_cr3 (smp_image P)))"
    and map: "valid_memory_map (memory_regions (boot_mem bi)) offset" "length (ILLEGAL_REGIONS (mem_state k0)) = MAX_ILLEGAL"
      "length (filter (\<lambda>r. r_kind r \<noteq> Usable) (memory_regions (boot_mem bi))) < MAX_ILLEGAL"
      "\<exists>r\<in>set (memory_regions (boot_mem bi)). holds_bitmap (fill_illegal (memory_regions (boot_mem bi)) (ILLEGAL_REGIONS (mem_state k0)))
         (map_bytes_needed (memory_regions (boot_mem bi))) r"
    and unmapped: "\<forall>pg\<ge>KERNEL_HEAP_START. mapping (offset_page_table P (offset + cr3_frame (read_cr3 (smp_image P))) offset) pg = None"
    and no_heap: "\<exists>nx g. heap (mem_state k0) = heap_boot nx g"
    and acpi: "\<exists>a. rsdp_addr bi = Some a \<and> acpi_tables P a = Some pl" "interrupt_model pl = Apic apic"
    and addr: "offset + local_apic_address apic < 2 ^ 64" "offset + 0xfec00000 < 2 ^ 64"
      "\<forall>h. hpet_address pl = Some h \<longrightarrow> h + offset < 2 ^ 64"
begin

lemma init_memory_boots:
  obtains ms pa where "init_memory p (addr_ops P) (bit_ops P) (paging_ops P) (offset_page_table P) (read_cr3 (smp_image P))
      (boot_bytes P) (boot_mem bi) (mem_state k0) = Inr ms" and "PHYSICAL_MEMORY_OFFSET ms = Some offset"
    and "PAGE_ALLOCATOR (heap ms) = Some pa" and "bfa_inv (bit_ops P) (pa_frames pa)"
proof -
  obtain al bm where init: "bitmap_init p (bit_ops P) (boot_bytes P) (ILLEGAL_REGIONS (mem_state k0)) (memory_regions (boot_mem bi)) offset =
      Inr (al, fill_illegal (memory_regions (boot_mem bi)) (ILLEGAL_REGIONS (mem_state k0)))" "bfa_inv (bit_ops P) al"
    using bitmap_init_safe [OF bits map, of p "boot_bytes P"] by blast
  obtain nx g where h0: "heap (mem_state k0) = heap_boot nx g" using no_heap by blast
  obtain ms F where M: "init_memory p (addr_ops P) (bit_ops P) (paging_ops P) (offset_page_table P) (read_cr3 (smp_image P))
        (boot_bytes P) (boot_mem bi) (mem_state k0) = Inr ms"
      "PHYSICAL_MEMORY_OFFSET ms = Some offset"
      "heap_inv (pa_inv (free_frames (bit_ops P) al) (free_frames (bit_ops P)) (bfa_inv (bit_ops P)) managed_frames mapping) current_virt
        (heap_pages mapping) F (heap ms) (\<lambda>_. None)"
    using init_memory_total [where opt = "offset_page_table P", OF paging boot(2,1,4) init unmapped h0] boot(3) by auto
  obtain pa where "PAGE_ALLOCATOR (heap ms) = Some pa"
      "pa_inv (free_frames (bit_ops P) al) (free_frames (bit_ops P)) (bfa_inv (bit_ops P)) managed_frames mapping pa"
    using M(3) by (rule heap_invE)
  moreover from this(2) have "bfa_inv (bit_ops P) (pa_frames pa)" by (simp add: pa_inv_def)
  ultimately show thesis using M(1,2) by (intro that)
qed

lemma boot_devices_ok:
  obtains k1 pa where "boot_devices p P bi k0 = Some (Inr (pl, k1))" and "devices_ready Q A P k1" and "smp k1 = smp k0"
    and "APIC_BASE (irq k1) = Some (offset + local_apic_address apic)"
    and "\<And>h. hpet_address pl = Some h \<Longrightarrow> HPET_BASE k1 = h + offset"
    and "keyboard (irq k1) = keyboard (irq k0)"
    and "get_offset_u64 (mem_state k1) = Some offset" and "PAGE_ALLOCATOR (heap (mem_state k1)) = Some pa"
    and "bfa_inv (bit_ops P) (pa_frames pa)"
proof -
  obtain ms pa where M: "init_memory p (addr_ops P) (bit_ops P) (paging_ops P) (offset_page_table P) (read_cr3 (smp_image P))
        (boot_bytes P) (boot_mem bi) (mem_state k0) = Inr ms" "PHYSICAL_MEMORY_OFFSET ms = Some offset"
      "PAGE_ALLOCATOR (heap ms) = Some pa" "bfa_inv (bit_ops P) (pa_frames pa)"
    by (rule init_memory_boots)
  obtain irq1 where irq1: "init_apic p (rd32 P) offset (Apic apic) (irq k0) = Inr irq1"
      "APIC_BASE irq1 = Some (offset + local_apic_address apic)" "keyboard irq1 = keyboard (irq k0)"
    using init_apic_eq [OF addr(1,2), of p "rd32 P" "irq k0"] by auto
  obtain hb tr where hp: "(case hpet_address pl of None \<Rightarrow> Some (Inr (HPET_BASE k0, io irq1))
      | Some a \<Rightarrow> Some (init_hpet p (rd64 P) a offset (io irq1))) = Some (Inr (hb, tr))"
      "\<And>h. hpet_address pl = Some h \<Longrightarrow> hb = h + offset"
    using init_hpet_returns addr(3) by (cases "hpet_address pl") force+
  obtain sg cs t where sg: "gdt_init (addr_ops P) (segment_ops P) (STACK P) (segments k0) = Inr (sg, cs)"
      "descriptor_at (segment_ops P) cs (segment_regs cs Reg_TR) = Some (tss_segment (segment_ops P) t)"
      "interrupt_stack_table t ! 0 = STACK P + STACK_SIZE" "0 < length (interrupt_stack_table t)"
    using gdt_init_tss [OF gdt(1) paging.axioms(1) [OF paging] gdt(2-4)] by blast
  obtain fbuf fbinfo where fb: "boot_framebuffer bi = Some (fbuf, fbinfo)" using screen by auto
  define k1 where "k1 = (init_idt (k0\<lparr>segments := (sg, cs)\<rparr>))\<lparr>FRAMEBUFFER_WRITER := init_framebuffer_writer fbuf fbinfo, mem_state := ms,
      irq := irq1\<lparr>io := tr\<rparr>, HPET_BASE := hb, interrupts_on := True\<rparr>"
  have "boot_devices p P bi k0 = Some (Inr (pl, k1))"
    using sg(1) fb M(1,2) acpi irq1(1) hp(1) by (cases "hpet_address pl")
      (auto simp: boot_devices_def k1_def init_gdt_idt_def init_idt_def init_framebuffer_def init_acpi_def get_offset_u64_def Let_def)
  moreover have "devices_ready Q A P k1"
    using M(2,3) sg(2-4) handlers_run [of "irq1\<lparr>io := tr\<rparr>"] irq1(2)
    by (auto simp: devices_ready_def k1_def init_idt_def get_offset_u64_def init_framebuffer_writer_def idt_stack_index_def
        DOUBLE_FAULT_IST_INDEX_def)
  ultimately show thesis using M(2-4) irq1(2,3) hp(2) by (intro that [of k1 pa]) (simp_all add: k1_def init_idt_def get_offset_u64_def)
qed

end


definition example_platform :: platform where
  "example_platform = \<lparr>interrupt_model = Apic example_apic,
     processor_info = Some [\<lparr>local_apic_id = 1, processor_state = WaitingForSipi\<rparr>], hpet_address = Some 0xfed00000\<rparr>"

text \<open>A timer of 100 ns per tick that counts the accesses, and a processor that has answered.\<close>

definition example_ops :: "profile \<Rightarrow> (page_map, 8 word list, nat \<times> task_id list, gdt_descriptor option list, gdt_descriptor) platform_ops" where
  "example_ops p = \<lparr>addr_ops = x86_std, bit_ops = lsb0, paging_ops = kernel_traits p, offset_page_table = (\<lambda>_ _ _. None),
     segment_ops = list_gdt, STACK = 0xFFFFFF8000200000,
     boot_bytes = (\<lambda>_. 0), acpi_tables = (\<lambda>_. Some example_platform), rd32 = (\<lambda>_ _. 1),
     rd64 = counting_hpet (0xfed00000 + example_offset),
     smp_image = example_env, task_queues = list_queue\<rparr>"

definition example_boot :: boot_info where
  "example_boot = \<lparr>boot_framebuffer = Some (replicate 60 0, info tiny_screen),
     boot_mem = \<lparr>physical_memory_offset = Some example_offset, memory_regions = example_map\<rparr>, rsdp_addr = Some 0xe0000\<rparr>"

definition power_on :: "(page_map, 8 word list, nat \<times> u8 list, task_id option, gdt_descriptor option list) kernel" where
  "power_on = \<lparr>segments = ({}, reset_cpu), idt_loaded = False, interrupts_on = False, FRAMEBUFFER_WRITER = None,
     mem_state = \<lparr>PHYSICAL_MEMORY_OFFSET = None, ILLEGAL_REGIONS = ILLEGAL_REGIONS_init, heap = heap_boot (\<lambda>_. None) None\<rparr>,
     irq = example_irq_state, HPET_BASE = 0, smp = example_smp\<rparr>"

lemma example_canonical:
  "canonical example_offset" "canonical (example_offset + cr3_frame (read_cr3 example_env))"
  "canonical 0xFFFFFF8000200000" "canonical (0xFFFFFF8000200000 + STACK_SIZE)"
  by (simp_all add: canonical_def example_offset_def cr3_frame_def example_env_def STACK_SIZE_def)

interpretation example_machine: bootable "example_ops p" example_boot power_on example_offset example_platform example_apic
  id snd fst "\<lambda>g. 8 - length g" "\<lambda>d. length (descriptor_entries d)" for p
proof (rule bootable.intro)
  show "\<exists>r\<in>set (memory_regions (boot_mem example_boot)). holds_bitmap (fill_illegal (memory_regions (boot_mem example_boot))
      (ILLEGAL_REGIONS (mem_state power_on))) (map_bytes_needed (memory_regions (boot_mem example_boot))) r"
    using example_holds_bitmap by (simp add: example_boot_def power_on_def)
qed (use example_canonical example_map_valid example_illegal_fits in \<open>auto simp: example_ops_def example_boot_def power_on_def
    example_platform_def example_apic_def example_offset_def lsb0.bit_slice_axioms list_queue.array_queue_axioms
    list_gdt.gdt_crate_axioms kernel_paging.paging_axioms\<close>)


text \<open>
  The trampoline page is mapped without caching to the frame it was mapped to, or to the frame at its
  own address if it was not mapped; no other page changes.
\<close>

lemma remap_trampoline_ok:
  assumes "paging X T free finv owned mapping" and "finv (pa_frames pa)"
    and "\<And>m fr fl f. mapping m TRAMPOLINE_BASE = None \<Longrightarrow> finv f \<Longrightarrow> \<exists>m' f'. map_to T m TRAMPOLINE_BASE fr fl f = Inr (Inr (), m', f')"
    and "\<And>m. mapping m TRAMPOLINE_BASE = None \<Longrightarrow> \<exists>m'. unmap T m TRAMPOLINE_BASE = Inr (Inl PageNotMapped, m')"
  shows "\<exists>pa'. remap_trampoline_uncacheable X T (Some pa) = Inr (Some pa') \<and>
    mapping (pa_mapper pa') = (mapping (pa_mapper pa))(TRAMPOLINE_BASE \<mapsto>
      (case mapping (pa_mapper pa) TRAMPOLINE_BASE of Some (fr, _) \<Rightarrow> fr | None \<Rightarrow> TRAMPOLINE_BASE, {PRESENT, WRITABLE, NO_CACHE}))"
proof -
  have x: "x86_addr X" using assms(1) by (rule paging.axioms)
  define fr where "fr = (case mapping (pa_mapper pa) TRAMPOLINE_BASE of Some (fr, _) \<Rightarrow> fr | None \<Rightarrow> TRAMPOLINE_BASE)"
  have a: "virt_addr_new X TRAMPOLINE_BASE = Inr TRAMPOLINE_BASE" "phys_addr_new X TRAMPOLINE_BASE = Inr TRAMPOLINE_BASE"
      "page_containing X TRAMPOLINE_BASE = TRAMPOLINE_BASE" "phys_frame_containing X TRAMPOLINE_BASE = TRAMPOLINE_BASE"
    using x by (simp_all add: x86_addr.virt_new_ok x86_addr.phys_new_ok x86_addr.page_containing_eq x86_addr.frame_containing
        canonical_def TRAMPOLINE_BASE_def align_down_def)
  obtain r m where u: "unmap T (pa_mapper pa) TRAMPOLINE_BASE = Inr (r, m)" "mapping m = (mapping (pa_mapper pa))(TRAMPOLINE_BASE := None)"
      "r = Inr fr \<or> r = Inl PageNotMapped \<and> fr = TRAMPOLINE_BASE"
  proof (cases "mapping (pa_mapper pa) TRAMPOLINE_BASE")
    case None
    obtain e m where "unmap T (pa_mapper pa) TRAMPOLINE_BASE = Inr (Inl e, m)" "mapping m = mapping (pa_mapper pa)"
      using paging.unmap_unmapped [OF assms(1) None] by blast
    then show thesis using assms(4) [OF None] None by (intro that [of "Inl e" m]) (auto simp: fr_def)
  next
    case (Some y)
    then show thesis using paging.unmap_mapped [OF assms(1)] that by (cases y) (fastforce simp: fr_def)
  qed
  let ?fl = "{PRESENT, WRITABLE, NO_CACHE}"
  obtain m' f' where mt: "map_to T m TRAMPOLINE_BASE fr ?fl (pa_frames pa) = Inr (Inr (), m', f')"
    using assms(2) assms(3) [of m "pa_frames pa"] u(2) by fastforce
  then have "mapping m' = (mapping m)(TRAMPOLINE_BASE \<mapsto> (fr, ?fl))"
    using paging.map_to_total [OF assms(1,2), of m TRAMPOLINE_BASE fr ?fl] by auto
  moreover have "remap_trampoline_uncacheable X T (Some pa) = Inr (Some (pa\<lparr>pa_mapper := m', pa_frames := f'\<rparr>))"
    using u(1,3) mt a by (auto simp: remap_trampoline_uncacheable_def)
  ultimately show ?thesis using u(2) unfolding fr_def [symmetric] by simp
qed

text \<open>A bootable machine on which the low page can be mapped, the timer runs and the other processors answer.\<close>

locale smp_machine = bootable P bi k0 offset pl apic mapping elems cap room slots
  for P :: "('m, 'b, 'r, 'g, 'd) platform_ops" and bi :: boot_info and k0 :: "('m, 'b, 'q, 'k, 'g) kernel"
    and offset :: nat and pl :: platform and apic :: apic_info
    and mapping :: "'m \<Rightarrow> page_map" and elems :: "'r \<Rightarrow> task_id list" and cap :: "'r \<Rightarrow> nat"
    and room :: "'g \<Rightarrow> nat" and slots :: "'d \<Rightarrow> nat" +
  assumes map_low: "mapping m TRAMPOLINE_BASE = None \<Longrightarrow> bfa_inv (bit_ops P) f \<Longrightarrow>
      \<exists>m' f'. map_to (paging_ops P) m TRAMPOLINE_BASE fr fl f = Inr (Inr (), m', f')"
    and unmap_low: "mapping m TRAMPOLINE_BASE = None \<Longrightarrow> \<exists>m'. unmap (paging_ops P) m TRAMPOLINE_BASE = Inr (Inl PageNotMapped, m')"
    and timer: "processor_info pl \<noteq> None \<Longrightarrow> \<exists>h. hpet_address pl = Some h \<and> hpet_runs (rd64 P) (h + offset)"
    and answer: "rd32 P tr (offset + TRAMPOLINE_BASE + COMMWORD_OFFSET) = 1"
    and stacks: "offset + TRAMPOLINE_BASE + COMMWORD_OFFSET < 2 ^ 64" "AP_STACK_INDEX (smp k0) < NUM_AP_STACKS"
      "AP_STACKS (smp_image P) + NUM_AP_STACKS * AP_STACK_SIZE < 2 ^ 64"
begin

lemma boot_processors_ok:
  assumes "smp k = smp k0" and "APIC_BASE (irq k) = Some l" and "\<And>h. hpet_address pl = Some h \<Longrightarrow> HPET_BASE k = h + offset"
    and "get_offset_u64 (mem_state k) = Some offset" and "PAGE_ALLOCATOR (heap (mem_state k)) = Some pa" and "bfa_inv (bit_ops P) (pa_frames pa)"
  shows "\<exists>k'. boot_processors Release P pl k = Some (Inr k') \<and> APIC_BASE (irq k') = APIC_BASE (irq k) \<and> keyboard (irq k') = keyboard (irq k)"
proof -
  obtain pa' where pa': "remap_trampoline_uncacheable (addr_ops P) (paging_ops P) (Some pa) = Inr (Some pa')"
    using remap_trampoline_ok [OF paging assms(6) map_low unmap_low] by blast
  have o: "offset + TRAMPOLINE_BASE < 2 ^ 64" using stacks(1) by simp
  obtain s1 where s1: "load_ap_trampoline Release offset (smp_image P) (smp k0) = Inr s1" "AP_STACK_INDEX s1 = AP_STACK_INDEX (smp k0)"
    using load_ap_trampoline_eq [OF o] by simp
  have "\<exists>s3. init_smp Release (rd32 P) (rd64 P) offset (smp_image P) l (HPET_BASE k) aps
      ((init_stack_top (smp_image P) s1)\<lparr>smp_io := io (irq k)\<rparr>) = Some (Inr s3)" if "processor_info pl = Some aps" for aps
  proof -
    have runs: "hpet_runs (rd64 P) (HPET_BASE k)" using timer that assms(3) by auto
    have free: "AP_STACK_INDEX ((init_stack_top (smp_image P) s1)\<lparr>smp_io := io (irq k)\<rparr>) < NUM_AP_STACKS"
      using stacks(2) s1(2) by (simp add: init_stack_top_def)
    obtain s2 where "and_then (load_ap_trampoline Release offset (smp_image P) ((init_stack_top (smp_image P) s1)\<lparr>smp_io := io (irq k)\<rparr>))
        (patch_trampoline Release offset (smp_image P)) = Inr s2"
      by (rule trampoline_ready [OF stacks(1) free stacks(3)])
    then show ?thesis using start_all_aps [of "rd64 P" "HPET_BASE k" "rd32 P" offset l aps "smp_io s2", OF runs answer stacks(1)] by (auto simp: init_smp_def)
  qed
  then show ?thesis using assms pa' s1(1)
    by (cases "processor_info pl") (fastforce simp: boot_processors_def get_offset_u64_def Let_def)+
qed

lemma kernel_main_ok:
  shows "\<exists>k (ex :: ('kb kernel_future, 'r) executor). kernel_main Release P bi k0 = Some (Inr (k, ex)) \<and> APIC_BASE (irq k) \<noteq> None \<and> keyboard (irq k) = keyboard (irq k0) \<and>
    exec_inv ex \<and> tasks ex = [0 \<mapsto> Example_Task, 1 \<mapsto> Print_Keypresses] \<and> elems (task_queue ex) = [0, 1] \<and> cap (task_queue ex) = 100"
proof -
  obtain k1 pa where k1: "boot_devices Release P bi k0 = Some (Inr (pl, k1))" "smp k1 = smp k0"
      "APIC_BASE (irq k1) = Some (offset + local_apic_address apic)" "\<And>h. hpet_address pl = Some h \<Longrightarrow> HPET_BASE k1 = h + offset"
      "keyboard (irq k1) = keyboard (irq k0)" "get_offset_u64 (mem_state k1) = Some offset"
      "PAGE_ALLOCATOR (heap (mem_state k1)) = Some pa" "bfa_inv (bit_ops P) (pa_frames pa)"
    by (rule boot_devices_ok [of Release]) blast
  obtain k where "boot_processors Release P pl k1 = Some (Inr k)" "APIC_BASE (irq k) = APIC_BASE (irq k1)" "keyboard (irq k) = keyboard (irq k1)"
    using boot_processors_ok [OF k1(2-4,6-8)] by blast
  moreover obtain ex :: "('kb kernel_future, 'r) executor" where "boot_tasks (task_queues P) 0 = Inr ex" "exec_inv ex"
      "tasks ex = [0 \<mapsto> Example_Task, 1 \<mapsto> Print_Keypresses]" "elems (task_queue ex) = [0, 1]" "cap (task_queue ex) = 100"
    using boot_tasks_queue [OF queues] by blast
  ultimately show ?thesis using k1(1,3,5) by (auto simp: kernel_main_def)
qed

end

interpretation example_smp_machine: smp_machine "example_ops p" example_boot power_on example_offset example_platform example_apic
  id snd fst "\<lambda>g. 8 - length g" "\<lambda>d. length (descriptor_entries d)" for p
proof (rule smp_machine.intro)
  show "bootable (example_ops p) example_boot power_on example_offset example_platform example_apic id snd fst
      (\<lambda>g. 8 - length g) (\<lambda>d. length (descriptor_entries d))" by (rule example_machine.bootable_axioms)
  show "smp_machine_axioms (example_ops p) power_on example_offset example_platform id"
    by (rule smp_machine_axioms.intro)
      (auto simp: example_ops_def power_on_def example_platform_def kernel_traits_def flat_map_to_def flat_unmap_def counting_hpet_runs
        example_offset_def example_smp_def example_env_def trampoline_consts NUM_AP_STACKS_def AP_STACK_SIZE_def)
qed

end
