(* ===== verification/Vga_Writer.thy ===== *)
theory Vga_Writer
  imports Kernel_Prelude
begin

text \<open>
  The VGA text buffer (\<^verbatim>\<open>kernel/src/vga_buffer.rs\<close>): colours, the 25 rows of 80 cells and the
  writer that prints on the last row and scrolls. The buffer is a list of rows; every indexing checks
  its bounds, as Rust does. \<open>Volatile\<close> accesses are reads and writes of a cell. Strings are their bytes.
\<close>

unbundle bit_operations_syntax

section \<open>Colours and cells\<close>

datatype Color =
    Black | Blue | Green | Cyan | Red | Magenta | Brown | LightGray
  | DarkGray | LightBlue | LightGreen | LightCyan | LightRed | Pink | Yellow | White

fun color_u8 :: "Color \<Rightarrow> u8" where
  "color_u8 Black = 0"
| "color_u8 Blue = 1"
| "color_u8 Green = 2"
| "color_u8 Cyan = 3"
| "color_u8 Red = 4"
| "color_u8 Magenta = 5"
| "color_u8 Brown = 6"
| "color_u8 LightGray = 7"
| "color_u8 DarkGray = 8"
| "color_u8 LightBlue = 9"
| "color_u8 LightGreen = 10"
| "color_u8 LightCyan = 11"
| "color_u8 LightRed = 12"
| "color_u8 Pink = 13"
| "color_u8 Yellow = 14"
| "color_u8 White = 15"

definition color_code_new :: "Color \<Rightarrow> Color \<Rightarrow> u8" where
  "color_code_new foreground background = (push_bit 4 (color_u8 background) OR color_u8 foreground)"

record screen_char =
  ascii_character :: u8
  char_color :: u8

definition BUFFER_HEIGHT :: nat where
  "BUFFER_HEIGHT = 25"

definition BUFFER_WIDTH :: nat where
  "BUFFER_WIDTH = 80"

type_synonym buffer = "screen_char list list"

record writer =
  column_position :: nat
  color_code :: u8
  chars :: buffer

definition read_cell :: "buffer \<Rightarrow> nat \<Rightarrow> nat \<Rightarrow> screen_char res" where
  "read_cell b row col =
     (if row < length b \<and> col < length (b ! row) then Inr (b ! row ! col) else Inl Index_Out_Of_Bounds)"

definition write_cell :: "buffer \<Rightarrow> nat \<Rightarrow> nat \<Rightarrow> screen_char \<Rightarrow> buffer res" where
  "write_cell b row col c =
     (if row < length b \<and> col < length (b ! row) then Inr (b[row := (b ! row)[col := c]]) else Inl Index_Out_Of_Bounds)"


section \<open>The writer\<close>

definition clear_row :: "nat \<Rightarrow> writer \<Rightarrow> writer res" where
  "clear_row row w =
     (let blank = \<lparr>ascii_character = 0x20, char_color = color_code w\<rparr> in
      and_then (for_each (\<lambda>col b. write_cell b row col blank) [0..<BUFFER_WIDTH] (chars w)) (\<lambda>b.
      Inr (w\<lparr>chars := b\<rparr>)))"

definition copy_row :: "nat \<Rightarrow> buffer \<Rightarrow> buffer res" where
  "copy_row row b =
     for_each (\<lambda>col b. and_then (read_cell b row col) (\<lambda>character. write_cell b (row - 1) col character))
       [0..<BUFFER_WIDTH] b"

definition new_line :: "writer \<Rightarrow> writer res" where
  "new_line w =
     and_then (for_each copy_row [1..<BUFFER_HEIGHT] (chars w)) (\<lambda>b.
     and_then (clear_row (BUFFER_HEIGHT - 1) (w\<lparr>chars := b\<rparr>)) (\<lambda>w1.
     Inr (w1\<lparr>column_position := 0\<rparr>)))"

definition write_byte :: "u8 \<Rightarrow> writer \<Rightarrow> writer res" where
  "write_byte byte w =
     (if byte = 10 then new_line w
      else and_then (if column_position w \<ge> BUFFER_WIDTH then new_line w else Inr w) (\<lambda>w1.
        let row = BUFFER_HEIGHT - 1; col = column_position w1; code = color_code w1 in
        and_then (write_cell (chars w1) row col \<lparr>ascii_character = byte, char_color = code\<rparr>) (\<lambda>b.
        Inr (w1\<lparr>chars := b, column_position := column_position w1 + 1\<rparr>))))"

definition printable :: "u8 \<Rightarrow> bool" where
  "printable byte \<longleftrightarrow> 0x20 \<le> byte \<and> byte \<le> 0x7e \<or> byte = 10"

definition write_string :: "u8 list \<Rightarrow> writer \<Rightarrow> writer res" where
  "write_string s = for_each (\<lambda>byte. write_byte (if printable byte then byte else 0xfe)) s"

text \<open>The static \<open>WRITER\<close>, over what the screen memory holds at boot.\<close>

definition WRITER_init :: "buffer \<Rightarrow> writer" where
  "WRITER_init b = \<lparr>column_position = 0, color_code = color_code_new Yellow Black, chars = b\<rparr>"


section \<open>Scrolling\<close>

definition wf_buffer :: "buffer \<Rightarrow> bool" where
  "wf_buffer b \<longleftrightarrow> length b = 25 \<and> (\<forall>r\<in>set b. length r = 80)"

definition blank_cell :: "u8 \<Rightarrow> screen_char" where
  "blank_cell code = \<lparr>ascii_character = 0x20, char_color = code\<rparr>"

lemma wf_bufferD: "wf_buffer b \<Longrightarrow> length b = 25" "wf_buffer b \<Longrightarrow> i < 25 \<Longrightarrow> length (b ! i) = 80"
  by (auto simp: wf_buffer_def)

lemma copy_row_eq:
  assumes "wf_buffer b" and "0 < row" and "row < 25"
  shows "copy_row row b = Inr (b[row - 1 := b ! row])"
proof -
  let ?f = "\<lambda>i. b[row - 1 := take i (b ! row) @ drop i (b ! (row - 1))]"
  have "copy_row row (?f 0) = Inr (?f 80)"
    unfolding copy_row_def BUFFER_WIDTH_def
  proof (rule for_each_upt)
    fix i assume "(i::nat) < 80"
    have "(take i (b ! row) @ drop i (b ! (row - 1)))[i := b ! row ! i] =
        take (Suc i) (b ! row) @ drop (Suc i) (b ! (row - 1))"
      using assms \<open>i < 80\<close> by (simp add: wf_bufferD list_update_append take_Suc_conv_app_nth
          Cons_nth_drop_Suc [symmetric])
    then show "and_then (read_cell (?f i) row i) (write_cell (?f i) (row - 1) i) = Inr (?f (Suc i))"
      using assms \<open>i < 80\<close> by (simp add: read_cell_def write_cell_def wf_bufferD)
  qed simp
  then show ?thesis using assms by (simp add: wf_bufferD)
qed

lemma scroll_rows:
  assumes "wf_buffer b"
  shows "for_each copy_row [1..<BUFFER_HEIGHT] b = Inr (tl b @ [last b])"
proof -
  let ?f = "\<lambda>i. map (\<lambda>j. b ! (if j < i - 1 then Suc j else j)) [0..<length b]"
  have l: "length b = 25" using assms by (rule wf_bufferD)
  have "for_each copy_row [1..<25] (?f 1) = Inr (?f 25)"
  proof (rule for_each_upt)
    fix i :: nat assume i: "1 \<le> i" "i < 25"
    have "wf_buffer (?f i)" using assms i by (auto simp: wf_buffer_def)
    moreover have "(?f i)[i - 1 := ?f i ! i] = ?f (Suc i)"
      using i l by (intro nth_equalityI) (auto simp: nth_list_update)
    ultimately show "copy_row i (?f i) = Inr (?f (Suc i))" using i copy_row_eq by simp
  qed simp
  moreover have "?f 1 = b" by (simp add: map_nth)
  moreover have "?f 25 = tl b @ [last b]"
  proof (rule nth_equalityI)
    fix j assume "j < length (?f 25)"
    then show "?f 25 ! j = (tl b @ [last b]) ! j"
      using l last_conv_nth [of b] by (cases "b = []"; cases "j = 24") (auto simp: nth_append nth_tl)
  qed (simp add: l)
  ultimately show ?thesis by (simp add: BUFFER_HEIGHT_def)
qed

lemma clear_row_eq:
  assumes "wf_buffer (chars w)" and "row < 25"
  shows "clear_row row w = Inr (w\<lparr>chars := (chars w)[row := replicate 80 (blank_cell (color_code w))]\<rparr>)"
proof -
  let ?c = "blank_cell (color_code w)"
  let ?f = "\<lambda>i. (chars w)[row := replicate i ?c @ drop i (chars w ! row)]"
  have "for_each (\<lambda>col b. write_cell b row col ?c) [0..<80] (?f 0) = Inr (?f 80)"
  proof (rule for_each_upt)
    fix i assume "(i::nat) < 80"
    have "(replicate i ?c @ drop i (chars w ! row))[i := ?c] = replicate (Suc i) ?c @ drop (Suc i) (chars w ! row)"
      using assms \<open>i < 80\<close> by (simp add: wf_bufferD list_update_append replicate_append_same [symmetric]
          Cons_nth_drop_Suc [symmetric])
    then show "write_cell (?f i) row i ?c = Inr (?f (Suc i))"
      using assms \<open>i < 80\<close> by (simp add: write_cell_def wf_bufferD)
  qed simp
  then show ?thesis using assms
    by (simp add: clear_row_def BUFFER_WIDTH_def blank_cell_def wf_bufferD)
qed

lemma new_line_eq:
  assumes "wf_buffer (chars w)"
  shows "new_line w = Inr (w\<lparr>chars := tl (chars w) @ [replicate 80 (blank_cell (color_code w))], column_position := 0\<rparr>)"
proof -
  have l: "length (chars w) = 25" using assms by (rule wf_bufferD)
  have wf: "wf_buffer (tl (chars w) @ [last (chars w)])"
    using assms l unfolding wf_buffer_def by (cases "chars w") auto
  have "(tl (chars w) @ [last (chars w)])[24 := r] = tl (chars w) @ [r]" for r
    using l by (simp add: list_update_append)
  then show ?thesis
    using scroll_rows [OF assms] clear_row_eq [of "w\<lparr>chars := tl (chars w) @ [last (chars w)]\<rparr>" 24] wf
    by (simp add: new_line_def BUFFER_HEIGHT_def)
qed

section \<open>The screen is the end of everything printed\<close>

text \<open>
  A terminal without a size: the list of its lines, none longer than 80 bytes, the last one being
  written. The screen shows the last 25 of them, below what it showed before.
\<close>

definition tty_byte :: "u8 \<Rightarrow> u8 list list \<Rightarrow> u8 list list" where
  "tty_byte b lines =
     (if b = 10 then lines @ [[]]
      else if length (last lines) \<ge> 80 then lines @ [[b]]
      else butlast lines @ [last lines @ [b]])"

definition tty :: "u8 list \<Rightarrow> u8 list list \<Rightarrow> u8 list list" where
  "tty s = fold (\<lambda>b. tty_byte (if printable b then b else 0xfe)) s"

definition lastn :: "nat \<Rightarrow> 'a list \<Rightarrow> 'a list" where
  "lastn n xs = drop (length xs - n) xs"

definition pad_line :: "u8 \<Rightarrow> u8 list \<Rightarrow> screen_char list" where
  "pad_line code line =
     map (\<lambda>b. \<lparr>ascii_character = b, char_color = code\<rparr>) line @ replicate (80 - length line) (blank_cell code)"

definition shows_tty :: "buffer \<Rightarrow> u8 list list \<Rightarrow> writer \<Rightarrow> bool" where
  "shows_tty old lines w \<longleftrightarrow>
     chars w = lastn 25 (old @ map (pad_line (color_code w)) lines) \<and> wf_buffer (chars w) \<and>
     lines \<noteq> [] \<and> column_position w = length (last lines) \<and> length (last lines) \<le> 80"

lemma lastn_snoc: "0 < n \<Longrightarrow> n \<le> length xs \<Longrightarrow> lastn n (xs @ [x]) = tl (lastn n xs) @ [x]"
  by (simp add: lastn_def Suc_diff_le drop_Suc tl_drop)

lemma length_lastn: "length (lastn n xs) = min n (length xs)"
  by (auto simp: lastn_def)

lemma lastn_last: "0 < n \<Longrightarrow> lastn n (xs @ [x]) = lastn (n - 1) xs @ [x]"
  by (auto simp: lastn_def)

lemma lastn_update: "length xs + 1 \<ge> n \<Longrightarrow> 0 < n \<Longrightarrow> (lastn n (xs @ [x]))[n - 1 := y] = lastn n (xs @ [y])"
  by (simp add: lastn_last length_lastn list_update_append)

lemma pad_line_Nil: "pad_line code [] = replicate 80 (blank_cell code)"
  by (simp add: pad_line_def)

lemma length_pad_line [simp]: "length line \<le> 80 \<Longrightarrow> length (pad_line code line) = 80"
  by (simp add: pad_line_def)

lemma pad_line_snoc:
  "length line < 80 \<Longrightarrow>
    (pad_line code line)[length line := \<lparr>ascii_character = b, char_color = code\<rparr>] = pad_line code (line @ [b])"
  by (simp add: pad_line_def list_update_append Suc_diff_Suc [symmetric])

lemma wf_buffer_scroll: "wf_buffer b \<Longrightarrow> length r = 80 \<Longrightarrow> wf_buffer (tl b @ [r])"
  by (cases b) (auto simp: wf_buffer_def)

lemma wf_buffer_put: "wf_buffer b \<Longrightarrow> length r = 80 \<Longrightarrow> wf_buffer (b[i := r])"
  by (auto simp: wf_buffer_def dest!: set_update_subset_insert [THEN subsetD])

lemma shows_tty_length: "shows_tty old lines w \<Longrightarrow> 25 \<le> length old + length lines"
  by (auto simp: shows_tty_def wf_buffer_def length_lastn)

text \<open>A new line, and a byte on a line with room, keep the screen in step with the terminal.\<close>

lemma new_line_tty:
  assumes "shows_tty old lines w"
  shows "\<exists>w'. new_line w = Inr w' \<and> shows_tty old (lines @ [[]]) w' \<and> color_code w' = color_code w"
  using assms new_line_eq [of w] shows_tty_length [OF assms]
    lastn_snoc [of 25 "old @ map (pad_line (color_code w)) lines" "pad_line (color_code w) []"]
  by (auto simp: shows_tty_def wf_buffer_scroll pad_line_Nil)

lemma put_byte_tty:
  assumes "shows_tty old (lines @ [line]) w" and "length line < 80" and "b \<noteq> 10"
  shows "\<exists>w'. write_byte b w = Inr w' \<and> shows_tty old (lines @ [line @ [b]]) w' \<and> color_code w' = color_code w"
proof -
  let ?code = "color_code w" and ?c = "\<lparr>ascii_character = b, char_color = color_code w\<rparr>"
  define rows where "rows = old @ map (pad_line ?code) lines"
  have wf: "wf_buffer (chars w)" using assms(1) unfolding shows_tty_def by blast
  have chars: "chars w = lastn 25 (rows @ [pad_line ?code line])"
    and col: "column_position w = length line" and len: "25 \<le> length rows + 1"
    using assms(1) shows_tty_length [OF assms(1)] unfolding shows_tty_def rows_def by simp_all
  have last: "chars w ! 24 = pad_line ?code line"
    using chars len by (simp add: lastn_last nth_append length_lastn)
  have upd: "(chars w)[24 := pad_line ?code (line @ [b])] = lastn 25 (rows @ [pad_line ?code (line @ [b])])"
    using chars lastn_update [of 25 rows] len by simp
  have "write_cell (chars w) 24 (length line) ?c = Inr ((chars w)[24 := pad_line ?code (line @ [b])])"
    using wf last assms(2) pad_line_snoc by (simp add: write_cell_def wf_bufferD)
  then have "write_byte b w = Inr (w\<lparr>chars := (chars w)[24 := pad_line ?code (line @ [b])],
      column_position := length line + 1\<rparr>)"
    using assms(2,3) col by (simp add: write_byte_def BUFFER_HEIGHT_def BUFFER_WIDTH_def)
  moreover have "wf_buffer ((chars w)[24 := pad_line ?code (line @ [b])])"
    using wf assms(2) by (intro wf_buffer_put) simp_all
  ultimately show ?thesis using upd assms(2) by (simp add: shows_tty_def rows_def)
qed

lemma write_byte_wrap:
  assumes "column_position w \<ge> 80" and "b \<noteq> 10" and "new_line w = Inr w1" and "column_position w1 = 0"
  shows "write_byte b w = write_byte b w1"
  using assms by (simp add: write_byte_def BUFFER_WIDTH_def)

lemma write_byte_tty:
  assumes "shows_tty old lines w"
  shows "\<exists>w'. write_byte b w = Inr w' \<and> shows_tty old (tty_byte b lines) w' \<and> color_code w' = color_code w"
proof (cases "b = 10")
  case True
  then show ?thesis using new_line_tty [OF assms] by (simp add: write_byte_def tty_byte_def)
next
  case False
  have ne: "lines = butlast lines @ [last lines]" and col: "column_position w = length (last lines)"
    using assms by (simp_all add: shows_tty_def)
  show ?thesis
  proof (cases "length (last lines) \<ge> 80")
    case True
    obtain w1 where w1: "new_line w = Inr w1" "shows_tty old (lines @ [[]]) w1" "color_code w1 = color_code w"
      using new_line_tty [OF assms] by blast
    have "column_position w1 = 0" using w1(2) by (simp add: shows_tty_def)
    then have "write_byte b w = write_byte b w1" using write_byte_wrap [OF _ False w1(1)] True col by simp
    then show ?thesis using put_byte_tty [OF w1(2) _ False] w1(3) True False by (simp add: tty_byte_def)
  next
    case room: False
    then show ?thesis using put_byte_tty [of old "butlast lines" "last lines" w b] assms ne False
      by (simp add: tty_byte_def)
  qed
qed

lemma write_string_tty:
  "shows_tty old lines w \<Longrightarrow>
    \<exists>w'. write_string s w = Inr w' \<and> shows_tty old (tty s lines) w' \<and> color_code w' = color_code w"
proof (induction s arbitrary: lines w)
  case (Cons b s)
  let ?b = "if printable b then b else 0xfe"
  obtain w1 where w1: "write_byte ?b w = Inr w1" "shows_tty old (tty_byte ?b lines) w1" "color_code w1 = color_code w"
    using write_byte_tty [OF Cons.prems, of ?b] by blast
  then show ?case using Cons.IH [OF w1(2)] by (simp add: write_string_def tty_def)
qed (simp add: write_string_def tty_def)

section \<open>Properties\<close>

lemma fresh_line_tty:
  assumes "wf_buffer (chars w)"
  shows "\<exists>w'. write_string (10 # s) w = Inr w' \<and> shows_tty (chars w) (tty s [[]]) w' \<and> color_code w' = color_code w"
proof -
  let ?w = "w\<lparr>chars := tl (chars w) @ [pad_line (color_code w) []], column_position := 0\<rparr>"
  have "write_byte 10 w = Inr ?w" using new_line_eq [OF assms] by (simp add: write_byte_def pad_line_Nil)
  moreover have "shows_tty (chars w) [[]] ?w"
    using assms lastn_snoc [of 25 "chars w" "pad_line (color_code w) []"]
    by (simp add: shows_tty_def wf_buffer_scroll wf_bufferD lastn_def)
  ultimately show ?thesis using write_string_tty [of "chars w" "[[]]" ?w s]
    by (simp add: write_string_def printable_def)
qed

lemma tty_line: "length line + length s \<le> 80 \<Longrightarrow> \<forall>b\<in>set s. printable b \<and> b \<noteq> 10 \<Longrightarrow> tty s [line] = [line @ s]"
proof (induction s arbitrary: line)
  case (Cons b s)
  then have "tty (b # s) [line] = tty s [line @ [b]]" by (simp add: tty_def tty_byte_def)
  then show ?case using Cons.IH [of "line @ [b]"] Cons.prems by simp
qed (simp add: tty_def)

lemma tty_append: "tty (s @ t) lines = tty t (tty s lines)"
  by (simp add: tty_def)

definition writer_inv :: "u8 \<Rightarrow> writer \<Rightarrow> bool" where
  "writer_inv code w \<longleftrightarrow> wf_buffer (chars w) \<and> column_position w \<le> 80 \<and> color_code w = code"

lemma new_line_inv:
  "writer_inv code w \<Longrightarrow> \<exists>w'. new_line w = Inr w' \<and> writer_inv code w' \<and> column_position w' = 0"
  by (simp add: writer_inv_def new_line_eq wf_buffer_scroll)

lemma put_byte_inv:
  assumes "writer_inv code w" and "column_position w < 80"
  shows "\<exists>b. write_cell (chars w) 24 (column_position w) c = Inr b \<and> wf_buffer b"
  using assms by (simp add: writer_inv_def write_cell_def wf_bufferD wf_buffer_put)

lemma write_byte_inv:
  assumes "writer_inv code w"
  shows "\<exists>w'. write_byte b w = Inr w' \<and> writer_inv code w'"
proof (cases "b = 10")
  case True
  then show ?thesis using new_line_inv [OF assms] by (auto simp: write_byte_def)
next
  case False
  obtain w1 where w1: "(if column_position w \<ge> BUFFER_WIDTH then new_line w else Inr w) = Inr w1"
      "writer_inv code w1" "column_position w1 < 80"
    using new_line_inv [OF assms] assms by (cases "column_position w \<ge> 80") (auto simp: BUFFER_WIDTH_def)
  obtain buf where "write_cell (chars w1) 24 (column_position w1) \<lparr>ascii_character = b, char_color = color_code w1\<rparr> = Inr buf"
      "wf_buffer buf"
    using put_byte_inv [OF w1(2,3)] by blast
  with w1 False show ?thesis by (simp add: write_byte_def BUFFER_HEIGHT_def writer_inv_def)
qed

text \<open>The screen memory of the examples: every row filled with zero bytes.\<close>

abbreviation zero_screen :: buffer where
  "zero_screen \<equiv> replicate 25 (replicate 80 \<lparr>ascii_character = 0, char_color = 0\<rparr>)"

text \<open>
  C19. The screen is a window on an unbounded terminal. Whatever it showed, printing a new line and then
  any bytes returns, and the 25 rows are the end of the old rows followed by the lines of the text: cut
  at each new line and after 80 bytes, unprintable bytes replaced by \<open>0xfe\<close>, padded with blanks; the
  next byte goes behind the last one.
\<close>

theorem vga_screen_is_tty:
  assumes "wf_buffer (chars w)"
  shows "\<exists>w'. write_string (10 # s) w = Inr w' \<and> wf_buffer (chars w') \<and>
    chars w' = lastn 25 (chars w @ map (pad_line (color_code w)) (tty s [[]])) \<and>
    column_position w' = length (last (tty s [[]])) \<and> column_position w' \<le> 80"
  using fresh_line_tty [OF assms, of s] unfolding shows_tty_def by auto

theorem vga_screen_is_tty_witness:
  "\<exists>w'. write_string [10, 0x48, 0x69] (WRITER_init zero_screen) = Inr w' \<and>
    chars w' = lastn 25 (zero_screen @ map (pad_line (color_code_new Yellow Black)) (tty [0x48, 0x69] [[]]))"
  using vga_screen_is_tty [of "WRITER_init zero_screen" "[0x48, 0x69]"]
  by (auto simp: WRITER_init_def wf_buffer_def)

text \<open>
  What \<^verbatim>\<open>test_println_output\<close> checks, for every line that fits: after a new line, the line and
  another new line, the row above the last one shows the line, byte by byte, and the last row is blank.
\<close>

lemma vga_println_visible:
  assumes "wf_buffer (chars w)" and "length s \<le> 80" and "\<forall>b\<in>set s. printable b \<and> b \<noteq> 10"
  shows "\<exists>w'. write_string (10 # s @ [10]) w = Inr w' \<and>
    map ascii_character (chars w' ! (BUFFER_HEIGHT - 2)) = s @ replicate (80 - length s) 0x20 \<and>
    chars w' ! (BUFFER_HEIGHT - 1) = replicate 80 (blank_cell (color_code w)) \<and> column_position w' = 0"
proof -
  have "tty (s @ [10]) [[]] = [s, []]"
    using tty_line [of "[]" s] assms(2,3) by (simp add: tty_append) (simp add: tty_def tty_byte_def printable_def)
  then obtain w' where w': "write_string (10 # s @ [10]) w = Inr w'" "column_position w' = 0"
      "chars w' = lastn 25 ((chars w @ [pad_line (color_code w) s]) @ [pad_line (color_code w) []])"
    using fresh_line_tty [OF assms(1), of "s @ [10]"] by (auto simp: shows_tty_def)
  have "length (chars w) = 25" using assms(1) by (rule wf_bufferD)
  then have "chars w' ! 23 = pad_line (color_code w) s" "chars w' ! 24 = pad_line (color_code w) []"
    unfolding w'(3) by (simp_all only: lastn_last) (simp_all add: nth_append length_lastn lastn_last)
  then show ?thesis using w'(1,2) assms(2)
    by (simp add: BUFFER_HEIGHT_def pad_line_def blank_cell_def o_def)
qed

text \<open>
  C20. The writer keeps its type and never panics: from every well-formed buffer and column, writing any bytes returns a
  well-formed buffer of 25 rows of 80 cells, a column of at most 80, and the same colour.
\<close>

theorem vga_writer_total:
  assumes "wf_buffer (chars w)" and "column_position w \<le> 80"
  shows "\<exists>w'. write_string s w = Inr w' \<and> wf_buffer (chars w') \<and> column_position w' \<le> 80 \<and> color_code w' = color_code w"
  unfolding write_string_def
  using for_each_total [of "\<lambda>_. writer_inv (color_code w)" w s "\<lambda>byte. write_byte (if printable byte then byte else 0xfe)"]
    write_byte_inv assms unfolding writer_inv_def by blast

theorem vga_writer_total_witness:
  "\<exists>w. write_string (replicate 81 65 @ [10, 200]) (WRITER_init zero_screen) = Inr w \<and> wf_buffer (chars w) \<and> column_position w \<le> 80 \<and>
    color_code w = color_code (WRITER_init zero_screen)"
  by (rule vga_writer_total) (simp_all add: WRITER_init_def wf_buffer_def)

text \<open>
  A colour code holds both colours: the low four bits are the foreground, the next four the
  background, so different pairs have different codes.
\<close>

lemma color_code_roundtrip:
  "color_code_new fg bg AND 0xf = color_u8 fg \<and> drop_bit 4 (color_code_new fg bg) = color_u8 bg"
  by (cases fg; cases bg; simp add: color_code_new_def)

end
