(* ===== verification/Serial_Port.thy ===== *)
theory Serial_Port
  imports Kernel_Prelude
begin

text \<open>
  Text output: the formatting of numbers that the kernel's messages use, the pointer type of
  \<^verbatim>\<open>kernel/src/apic_ptr.rs\<close> with its \<^verbatim>\<open>LowerHex\<close>, and the serial port of \<^verbatim>\<open>kernel/src/serial.rs\<close>. The
  driver of the port is the crate \<^verbatim>\<open>uart_16550\<close>, a parameter with the contract \<open>serial_uart\<close>. That
  \<open>_print\<close> masks interrupts while it holds the lock is the subject of \<open>Console_Lock\<close>.
\<close>

section \<open>Formatting\<close>

definition digit_char :: "nat \<Rightarrow> char" where
  "digit_char d = ''0123456789abcdef'' ! d"

text \<open>\<^verbatim>\<open>Display\<close> (radix 10) and \<^verbatim>\<open>LowerHex\<close> (radix 16) of an unsigned integer.\<close>

function fmt_radix :: "nat \<Rightarrow> nat \<Rightarrow> string" where
  "fmt_radix r n = (if n < r \<or> r < 2 then [digit_char n] else fmt_radix r (n div r) @ [digit_char (n mod r)])"
  by auto
termination by (relation "measure snd") auto

declare fmt_radix.simps [simp del]

text \<open>A format string with its arguments: the pieces of text, in order.\<close>

type_synonym fmt_args = "string list"

definition line_feed :: string where
  "line_feed = [CHR 0x0A]"

record apic_ptr =
  ap_ptr :: u64

definition apic_ptr_new :: "u64 \<Rightarrow> apic_ptr" where
  "apic_ptr_new ptr = \<lparr>ap_ptr = ptr\<rparr>"

definition as_ptr :: "apic_ptr \<Rightarrow> u64" where
  "as_ptr self = ap_ptr self"

definition as_u64 :: "apic_ptr \<Rightarrow> u64" where
  "as_u64 self = ap_ptr self"

definition as_apic_ptr :: "u64 \<Rightarrow> apic_ptr" where
  "as_apic_ptr ptr = apic_ptr_new ptr"

definition u32_to_apic_ptr :: "u64 \<Rightarrow> apic_ptr" where
  "u32_to_apic_ptr ptr = apic_ptr_new ptr"

definition apic_ptr_lower_hex :: "apic_ptr \<Rightarrow> fmt_args" where
  "apic_ptr_lower_hex self = [fmt_radix 16 (unat (ap_ptr self))]"


section \<open>The serial port\<close>

record 'u uart_ops =
  uart_new :: "nat \<Rightarrow> 'u"
  uart_init :: "'u \<Rightarrow> 'u"
  uart_write_str :: "'u \<Rightarrow> string \<Rightarrow> bool \<times> 'u"

text \<open>\<open>SERIAL1\<close> is lazy: \<open>None\<close> until its first use, which creates and initialises the port.\<close>

definition SERIAL1 :: "'u uart_ops \<Rightarrow> 'u option \<Rightarrow> 'u" where
  "SERIAL1 U cell = (case cell of None \<Rightarrow> uart_init U (uart_new U 0x3F8) | Some u \<Rightarrow> u)"

text \<open>\<open>write_fmt\<close> writes the pieces one by one and stops at the first error.\<close>

fun write_fmt :: "'u uart_ops \<Rightarrow> fmt_args \<Rightarrow> 'u \<Rightarrow> bool \<times> 'u" where
  "write_fmt U [] u = (True, u)"
| "write_fmt U (s # args) u = (case uart_write_str U u s of (ok, u') \<Rightarrow> if ok then write_fmt U args u' else (False, u'))"

definition serial_write :: "'u uart_ops \<Rightarrow> fmt_args \<Rightarrow> 'u option \<Rightarrow> 'u option res" where
  "serial_write U args cell =
     (case write_fmt U args (SERIAL1 U cell) of (ok, u) \<Rightarrow>
        if ok then Inr (Some u) else Inl (Panic ''An error occurred while writing to the serial port''))"

text \<open>The macros \<open>serial_print!\<close> and \<open>serial_println!\<close>; the latter ends the text with a line feed.\<close>

definition serial_print_args :: "'u uart_ops \<Rightarrow> fmt_args \<Rightarrow> 'u option \<Rightarrow> 'u option res" where
  "serial_print_args U args = serial_write U args"

definition serial_println_args :: "'u uart_ops \<Rightarrow> fmt_args \<Rightarrow> 'u option \<Rightarrow> 'u option res" where
  "serial_println_args U args = serial_print_args U (args @ [line_feed])"


section \<open>Numbers are read back\<close>

definition digit_value :: "char \<Rightarrow> nat" where
  "digit_value c = the (position (\<lambda>d. d = c) ''0123456789abcdef'')"

definition radix_value :: "nat \<Rightarrow> string \<Rightarrow> nat" where
  "radix_value r s = foldl (\<lambda>v c. v * r + digit_value c) 0 s"

lemma digit_value_char: "d < 16 \<Longrightarrow> digit_value (digit_char d) = d"
proof -
  have "\<forall>d\<in>set [0..<16]. digit_value (digit_char d) = d" by code_simp
  then show "d < 16 \<Longrightarrow> digit_value (digit_char d) = d" by auto
qed

lemma radix_value_fmt: "2 \<le> r \<Longrightarrow> r \<le> 16 \<Longrightarrow> radix_value r (fmt_radix r n) = n"
proof (induction r n rule: fmt_radix.induct)
  case (1 r n)
  show ?case
  proof (cases "n < r")
    case True
    then show ?thesis using 1(3) by (subst fmt_radix.simps) (simp add: radix_value_def digit_value_char)
  next
    case False
    have "n mod r < 16" using 1(2,3) mod_less_divisor [of r n] by linarith
    moreover have "radix_value r (fmt_radix r (n div r)) = n div r" using 1 False by simp
    ultimately show ?thesis using False 1(2) by (subst fmt_radix.simps) (simp add: radix_value_def digit_value_char)
  qed
qed

text \<open>The address of the APIC can be read back from its printed form.\<close>

lemma apic_ptr_printed: "radix_value 16 (concat (apic_ptr_lower_hex (as_apic_ptr a))) = unat (as_u64 (as_apic_ptr a))"
  by (simp add: apic_ptr_lower_hex_def as_apic_ptr_def as_u64_def apic_ptr_new_def radix_value_fmt)

lemma apic_ptr_roundtrip: "as_u64 (as_apic_ptr a) = a" "as_ptr (u32_to_apic_ptr a) = a"
  by (simp_all add: as_u64_def as_ptr_def as_apic_ptr_def u32_to_apic_ptr_def apic_ptr_new_def)


section \<open>What arrives at the port\<close>

text \<open>
  The contract of the driver: a new port, once initialised, has taken no text; it takes every text, at the end of what
  it has taken before. \<open>taken\<close> is defined for initialised ports only.
\<close>

locale serial_uart =
  fixes U :: "'u uart_ops" and taken :: "'u \<Rightarrow> string option"
  assumes init_empty: "taken (uart_init U (uart_new U base)) = Some []"
    and write_appends: "taken u = Some t \<Longrightarrow> \<exists>u'. uart_write_str U u s = (True, u') \<and> taken u' = Some (t @ s)"
begin

lemma write_fmt_appends: "taken u = Some t \<Longrightarrow> \<exists>u'. write_fmt U args u = (True, u') \<and> taken u' = Some (t @ concat args)"
proof (induction args arbitrary: u t)
  case (Cons s args)
  then obtain u1 where "uart_write_str U u s = (True, u1)" "taken u1 = Some (t @ s)" using write_appends by blast
  then show ?case using Cons.IH [of u1 "t @ s"] by auto
qed simp

lemma serial_write_appends:
  assumes "taken (SERIAL1 U cell) = Some t"
  obtains u where "serial_write U args cell = Inr (Some u)" and "taken u = Some (t @ concat args)"
  using write_fmt_appends [OF assms, of args] that by (auto simp: serial_write_def)

lemma serial_writes_in_order:
  assumes "taken (SERIAL1 U cell) = Some t"
  shows "\<exists>cell'. for_each (serial_write U) prints cell = Inr cell' \<and> taken (SERIAL1 U cell') = Some (t @ concat (concat prints))"
  using assms
proof (induction prints arbitrary: cell t)
  case (Cons args prints)
  obtain u where "serial_write U args cell = Inr (Some u)" "taken u = Some (t @ concat args)" by (rule serial_write_appends [OF Cons.prems])
  then show ?case using Cons.IH [of "Some u" "t @ concat args"] by (simp add: SERIAL1_def)
qed simp

end

text \<open>A port that collects its text once it is initialised.\<close>

definition text_uart :: "(nat \<times> string option) uart_ops" where
  "text_uart = \<lparr>uart_new = (\<lambda>base. (base, None)), uart_init = (\<lambda>u. (fst u, Some [])),
     uart_write_str = (\<lambda>u s. case snd u of None \<Rightarrow> (False, u) | Some t \<Rightarrow> (True, (fst u, Some (t @ s))))\<rparr>"

interpretation text_uart: serial_uart text_uart snd
  by unfold_locales (simp_all add: text_uart_def)

end
