(* ===== verification/Kernel_Tests.thy ===== *)
theory Kernel_Tests
  imports Kernel_Boot Vga_Writer Serial_Port
begin

text \<open>
  The test framework of the library (\<^verbatim>\<open>kernel/src/lib.rs\<close>), the tests in the sources of the library
  (\<^verbatim>\<open>lib.rs\<close>, \<^verbatim>\<open>vga_buffer.rs\<close>), and the kernel of \<^verbatim>\<open>tests/should_panic.rs\<close>.

  A test is a function on the state \<open>machine\<close> of what it exercises, and may panic. The serial output is
  the list of what the framework prints on it, and \<open>exits\<close> the accesses to QEMU's exit port; \<open>line_args\<close> gives the
  text of each print. The loops that halt the processor at the end of each kernel are left out.
\<close>

section \<open>The test framework\<close>

datatype qemu_exit_code = Success | Failed

fun qemu_exit_u32 :: "qemu_exit_code \<Rightarrow> u32" where
  "qemu_exit_u32 Success = 0x10"
| "qemu_exit_u32 Failed = 0x11"

datatype serial_line =
    Running_Tests nat | Test_Name string | Test_Ok | Test_Failed | Error_Message panic | Test_Did_Not_Panic
  | Tests_Returned qemu_exit_code | Test_Header string | Handler_Ok

text \<open>
  What each print passes to \<open>serial_print!\<close>. How a panic is shown is the argument \<open>show_info\<close>: the text has
  source locations.
\<close>

fun exit_code_debug :: "qemu_exit_code \<Rightarrow> string" where
  "exit_code_debug Success = ''Success''"
| "exit_code_debug Failed = ''Failed''"

fun line_args :: "(panic \<Rightarrow> string) \<Rightarrow> serial_line \<Rightarrow> fmt_args" where
  "line_args show_info (Running_Tests n) = [''Running '', fmt_radix 10 n, '' tests'', line_feed]"
| "line_args show_info (Test_Name t) = [t, ''.........'']"
| "line_args show_info Test_Ok = [''[OK]'', line_feed]"
| "line_args show_info Test_Failed = [''[failed]'' @ line_feed, line_feed]"
| "line_args show_info (Error_Message e) = [''Error: '', show_info e, line_feed, line_feed]"
| "line_args show_info Test_Did_Not_Panic = [''[test did not panic]'', line_feed]"
| "line_args show_info (Tests_Returned c) = [''Tests returned: '', exit_code_debug c, ''!'' @ line_feed @ ''Exiting QEMU...'', line_feed]"
| "line_args show_info (Test_Header t) = [t, [CHR 0x09]]"
| "line_args show_info Handler_Ok = [''[ok]'', line_feed]"

record 's test_state =
  serial :: "serial_line list"
  exits :: trace
  machine :: 's

type_synonym 's testable = "string \<times> ('s \<Rightarrow> 's res)"

definition serial_println :: "serial_line \<Rightarrow> 's test_state \<Rightarrow> 's test_state" where
  "serial_println l s = s\<lparr>serial := serial s @ [l]\<rparr>"

definition exit_qemu :: "qemu_exit_code \<Rightarrow> 's test_state \<Rightarrow> 's test_state" where
  "exit_qemu exit_code s =
     (let s1 = serial_println (Tests_Returned exit_code) s in
      s1\<lparr>exits := exits s1 @ [Port_Out32 0xf4 (qemu_exit_u32 exit_code)]\<rparr>)"

text \<open>A panic comes with the state the framework left; what the test changed before it is not kept.\<close>

definition testable_run :: "'s testable \<Rightarrow> 's test_state \<Rightarrow> panic \<times> 's test_state + 's test_state" where
  "testable_run test s =
     (let s1 = serial_println (Test_Name (fst test)) s in
      case snd test (machine s1) of
        Inl e \<Rightarrow> Inl (e, s1)
      | Inr m \<Rightarrow> Inr (serial_println Test_Ok (s1\<lparr>machine := m\<rparr>)))"

definition test_panic_handler :: "panic \<Rightarrow> 's test_state \<Rightarrow> 's test_state" where
  "test_panic_handler e s = exit_qemu Failed (serial_println (Error_Message e) (serial_println Test_Failed s))"

definition test_runner :: "'s testable list \<Rightarrow> 's test_state \<Rightarrow> panic \<times> 's test_state + 's test_state" where
  "test_runner tests s =
     and_then (for_each testable_run tests (serial_println (Running_Tests (length tests)) s)) (\<lambda>s1.
     Inr (exit_qemu Success s1))"

text \<open>\<open>test_main\<close>, which the compiler generates, with the panic handler of the test configurations.\<close>

definition test_main :: "'s testable list \<Rightarrow> 's test_state \<Rightarrow> 's test_state" where
  "test_main tests s = (case test_runner tests s of Inl (e, s1) \<Rightarrow> test_panic_handler e s1 | Inr s1 \<Rightarrow> s1)"

text \<open>
  The entry point of the library's test kernel. A panic anywhere goes to \<open>panic\<close> of the test
  configuration, which is \<open>test_panic_handler\<close>.
\<close>

definition test_kernel_main :: "('m, 'b, 'r, 'g, 'd) platform_ops \<Rightarrow> 's testable list \<Rightarrow>
    ('m, 'b, 'q, 'k, 'g) kernel \<Rightarrow> 's test_state \<Rightarrow> ('m, 'b, 'q, 'k, 'g) kernel \<times> 's test_state" where
  "test_kernel_main P tests k s =
     (case init_gdt_idt P k of
        Inl e \<Rightarrow> (k, test_panic_handler e s)
      | Inr k1 \<Rightarrow> (k1, test_main tests s))"

text \<open>The kernel of \<^verbatim>\<open>should_panic.rs\<close>, whose own handler turns the panic into a success.\<close>

definition should_fail :: "'s test_state \<Rightarrow> panic \<times> 's test_state + 's test_state" where
  "should_fail s =
     (let s1 = serial_println (Test_Header ''should_panic::should_fail.........'') s in
      if (0 :: int) = 1 then Inr s1 else Inl (Panic ''assertion `left == right` failed'', s1))"

definition should_panic_start :: "'s test_state \<Rightarrow> 's test_state" where
  "should_panic_start s =
     (case should_fail s of
        Inr s1 \<Rightarrow> exit_qemu Failed (serial_println Test_Did_Not_Panic s1)
      | Inl (_, s1) \<Rightarrow> exit_qemu Success (serial_println Test_Ok s1))"

text \<open>
  The interrupt table and the handler of \<^verbatim>\<open>stack_overflow.rs\<close>: for each vector with a handler, the stack that its
  entry asks for. The endless recursion itself is not modelled.
\<close>

definition TEST_IDT :: "u8 \<rightharpoonup> nat option" where
  "TEST_IDT = [8 \<mapsto> Some DOUBLE_FAULT_IST_INDEX]"

definition test_double_fault_handler :: "'s test_state \<Rightarrow> 's test_state" where
  "test_double_fault_handler s = exit_qemu Success (serial_println Handler_Ok s)"


section \<open>The tests of the library\<close>

record ('q, 'k) lib_machine =
  WRITER :: writer
  fb_cell :: "frame_buffer_writer option"
  test_irqs :: "('q, 'k) irq_state"

definition test_breakpoint_exception :: "('q, 'k) lib_machine \<Rightarrow> ('q, 'k) lib_machine res" where
  "test_breakpoint_exception m = and_then (breakpoint_handler (test_irqs m)) (\<lambda>(_, st). Inr (m\<lparr>test_irqs := st\<rparr>))"

text \<open>\<open>println!\<close> prints to the framebuffer, also in the tests of the VGA buffer.\<close>

definition println :: "profile \<Rightarrow> font \<Rightarrow> string \<Rightarrow> ('q, 'k) lib_machine \<Rightarrow> ('q, 'k) lib_machine res" where
  "println p F s m = and_then (fb_print p F (map of_char s @ [10]) (fb_cell m)) (\<lambda>cell. Inr (m\<lparr>fb_cell := cell\<rparr>))"

definition test_println_simple :: "profile \<Rightarrow> font \<Rightarrow> ('q, 'k) lib_machine \<Rightarrow> ('q, 'k) lib_machine res" where
  "test_println_simple p F = println p F ''test_println_simple output''"

definition test_println_many :: "profile \<Rightarrow> font \<Rightarrow> ('q, 'k) lib_machine \<Rightarrow> ('q, 'k) lib_machine res" where
  "test_println_many p F = for_each (\<lambda>_. println p F ''test_println_many output'') [0..<200]"

definition test_line :: "u8 list" where
  "test_line = map of_char ''Some test string that we can fit on one line''"

definition check_char :: "buffer \<Rightarrow> nat \<times> u8 \<Rightarrow> unit \<Rightarrow> unit res" where
  "check_char b = (\<lambda>(i, c) _.
     and_then (read_cell b (BUFFER_HEIGHT - 2) i) (\<lambda>screen_char.
     if ascii_character screen_char = c then Inr () else Inl (Panic ''assertion `left == right` failed'')))"

definition test_println_output :: "('q, 'k) lib_machine \<Rightarrow> ('q, 'k) lib_machine res" where
  "test_println_output m =
     and_then (write_string (10 # test_line @ [10]) (WRITER m)) (\<lambda>w.
     and_then (for_each (check_char (chars w)) (enumerate 0 test_line) ()) (\<lambda>_.
     Inr (m\<lparr>WRITER := w\<rparr>)))"

definition library_tests :: "profile \<Rightarrow> font \<Rightarrow> ('q, 'k) lib_machine testable list" where
  "library_tests p F = [(''rust_kernel::test_breakpoint_exception'', test_breakpoint_exception),
     (''rust_kernel::vga_buffer::test_println_simple'', test_println_simple p F),
     (''rust_kernel::vga_buffer::test_println_many'', test_println_many p F),
     (''rust_kernel::vga_buffer::test_println_output'', test_println_output)]"

text \<open>The one test of the kernel binary (\<^verbatim>\<open>main.rs\<close>), and \<^verbatim>\<open>tests/basic_boot.rs\<close>, which runs without any initialisation.\<close>

definition trivial_assertion :: "'s \<Rightarrow> 's res" where
  "trivial_assertion m = (if (1 :: int) = 1 then Inr m else Inl (Panic ''assertion `left == right` failed''))"

definition basic_boot_start :: "profile \<Rightarrow> font \<Rightarrow> ('q, 'k) lib_machine test_state \<Rightarrow> ('q, 'k) lib_machine test_state" where
  "basic_boot_start p F = test_main [(''basic_boot::test_println'', println p F ''test_println output'')]"

text \<open>The panic handler of the kernel proper prints to the framebuffer and halts.\<close>

definition kernel_panic :: "profile \<Rightarrow> font \<Rightarrow> (panic \<Rightarrow> string) \<Rightarrow> panic \<Rightarrow> ('q, 'k) lib_machine \<Rightarrow> ('q, 'k) lib_machine res" where
  "kernel_panic p F show_info e = println p F (show_info e)"

text \<open>The state of the test kernel: a screen of the right size, and no framebuffer.\<close>

definition lib_ok :: "('q, 'k) lib_machine \<Rightarrow> bool" where
  "lib_ok m \<longleftrightarrow> wf_buffer (chars (WRITER m)) \<and> fb_cell m = None"

definition test_passes :: "('s \<Rightarrow> bool) \<Rightarrow> ('s \<Rightarrow> 's res) \<Rightarrow> bool" where
  "test_passes I t \<longleftrightarrow> (\<forall>m. I m \<longrightarrow> (\<exists>m'. t m = Inr m' \<and> I m'))"

text \<open>A list of tests, each of which may end in the panics \<open>E i\<close>: either all are reported, or those before the first that panics.\<close>

lemma run_tests:
  assumes "\<forall>i m. i < length tests \<longrightarrow> I i m \<longrightarrow> returns (E i) (I (Suc i)) (snd (tests ! i) m)" and "I 0 (machine s)"
  shows "(\<exists>s'. for_each testable_run tests s = Inr s' \<and> I (length tests) (machine s') \<and> exits s' = exits s \<and>
      serial s' = serial s @ concat (map (\<lambda>t. [Test_Name (fst t), Test_Ok]) tests)) \<or>
    (\<exists>i<length tests. \<exists>e\<in>E i. \<exists>s'. for_each testable_run tests s = Inl (e, s') \<and> exits s' = exits s \<and>
      serial s' = serial s @ concat (map (\<lambda>t. [Test_Name (fst t), Test_Ok]) (take i tests)) @ [Test_Name (fst (tests ! i))])"
  using assms
proof (induction tests arbitrary: s I E)
  case (Cons t tests)
  have t: "returns (E 0) (I (Suc 0)) (snd t (machine s))" using Cons.prems(1) [rule_format, of 0] Cons.prems(2) by simp
  show ?case
  proof (cases "snd t (machine s)")
    case (Inl e)
    then have "testable_run t s = Inl (e, serial_println (Test_Name (fst t)) s)" by (simp add: testable_run_def serial_println_def)
    then show ?thesis using t Inl by (intro disjI2 exI [of _ 0]) (simp add: serial_println_def)
  next
    case (Inr m)
    let ?s = "s\<lparr>serial := serial s @ [Test_Name (fst t), Test_Ok], machine := m\<rparr>"
    have run: "testable_run t s = Inr ?s" using Inr by (simp add: testable_run_def serial_println_def)
    have step: "\<forall>i m. i < length tests \<longrightarrow> I (Suc i) m \<longrightarrow> returns (E (Suc i)) (I (Suc (Suc i))) (snd (tests ! i) m)"
      using Cons.prems(1) [rule_format, of "Suc _"] by simp
    have "I (Suc 0) (machine ?s)" using t Inr by simp
    from Cons.IH [of "\<lambda>i. I (Suc i)" "\<lambda>i. E (Suc i)" ?s, OF step this] show ?thesis
    proof (elim disjE exE conjE bexE)
      fix i e s' assume "i < length tests" "e \<in> E (Suc i)" "for_each testable_run tests ?s = Inl (e, s')" "exits s' = exits ?s"
        "serial s' = serial ?s @ concat (map (\<lambda>t. [Test_Name (fst t), Test_Ok]) (take i tests)) @ [Test_Name (fst (tests ! i))]"
      then show ?thesis using run by (intro disjI2 exI [of _ "Suc i"]) auto
    qed (simp_all add: run)
  qed
qed simp

lemma run_passing_tests:
  assumes "\<forall>t\<in>set tests. test_passes I (snd t)" and "I (machine s)"
  shows "\<exists>s'. for_each testable_run tests s = Inr s' \<and> I (machine s') \<and> exits s' = exits s \<and>
    serial s' = serial s @ concat (map (\<lambda>t. [Test_Name (fst t), Test_Ok]) tests)"
proof -
  have "\<forall>i m. i < length tests \<longrightarrow> I m \<longrightarrow> returns {} I (snd (tests ! i) m)"
    using assms(1) by (metis nth_mem returns_simps(2) test_passes_def)
  from run_tests [of tests "\<lambda>_. I" "\<lambda>_. {}", OF this assms(2)] show ?thesis by simp
qed

lemma run_failing_test:
  assumes "\<forall>t\<in>set pre. test_passes I (snd t)" and "I (machine s)" and "\<And>m. I m \<Longrightarrow> snd t m = Inl e"
  shows "\<exists>s'. for_each testable_run (pre @ t # post) s = Inl (e, s') \<and> exits s' = exits s \<and>
    serial s' = serial s @ concat (map (\<lambda>t. [Test_Name (fst t), Test_Ok]) pre) @ [Test_Name (fst t)]"
proof -
  obtain s1 where "for_each testable_run pre s = Inr s1" "I (machine s1)" "exits s1 = exits s"
      "serial s1 = serial s @ concat (map (\<lambda>t. [Test_Name (fst t), Test_Ok]) pre)"
    using run_passing_tests [OF assms(1,2)] by blast
  then show ?thesis using assms(3) by (simp add: for_each_append testable_run_def serial_println_def)
qed

lemma println_nowhere: "fb_cell m = None \<Longrightarrow> println p F s m = Inr m"
  by (simp add: println_def fb_print_def)

lemma println_loop_nowhere: "fb_cell m = None \<Longrightarrow> for_each (\<lambda>_. println p F s) xs m = Inr m"
  by (induction xs) (simp_all add: println_nowhere)

lemma test_line_fits: "length test_line \<le> 80" "\<forall>b\<in>set test_line. printable b \<and> b \<noteq> 10"
  by (simp_all add: test_line_def printable_def)

lemma check_chars:
  "\<forall>i<length s. \<exists>c. read_cell b (BUFFER_HEIGHT - 2) (n + i) = Inr c \<and> ascii_character c = s ! i \<Longrightarrow>
    for_each (check_char b) (enumerate n s) () = Inr ()"
proof (induction s arbitrary: n)
  case (Cons x s)
  have "check_char b (n, x) () = Inr ()" using Cons.prems [rule_format, of 0] by (auto simp: check_char_def)
  moreover have "for_each (check_char b) (enumerate (Suc n) s) () = Inr ()"
    using Cons.prems [rule_format, of "Suc _"] by (intro Cons.IH) auto
  ultimately show ?case by simp
qed simp

lemma test_println_output_passes: "test_passes lib_ok test_println_output"
  unfolding test_passes_def
proof (intro allI impI)
  fix m :: "('q, 'k) lib_machine"
  assume m: "lib_ok m"
  obtain w where w: "write_string (10 # test_line @ [10]) (WRITER m) = Inr w"
      "map ascii_character (chars w ! (BUFFER_HEIGHT - 2)) = test_line @ replicate (80 - length test_line) 0x20"
    using vga_println_visible [of "WRITER m", OF _ test_line_fits] m by (auto simp: lib_ok_def)
  then have wf: "wf_buffer (chars w)"
    using fresh_line_tty [of "WRITER m" "test_line @ [10]"] m by (auto simp: lib_ok_def shows_tty_def)
  have "length (chars w ! (BUFFER_HEIGHT - 2)) = 80" using wf by (simp add: wf_bufferD BUFFER_HEIGHT_def)
  then have "\<exists>c. read_cell (chars w) (BUFFER_HEIGHT - 2) (0 + i) = Inr c \<and> ascii_character c = test_line ! i"
    if "i < length test_line" for i
    using that test_line_fits(1) wf w(2) [THEN arg_cong, of "\<lambda>r. r ! i"]
    by (auto simp: read_cell_def wf_bufferD BUFFER_HEIGHT_def nth_append)
  then have "for_each (check_char (chars w)) (enumerate 0 test_line) () = Inr ()" by (intro check_chars) auto
  then show "\<exists>m'. test_println_output m = Inr m' \<and> lib_ok m'"
    using w(1) wf m by (simp add: test_println_output_def lib_ok_def)
qed

lemma library_test_passes: "t \<in> set (library_tests p F) \<Longrightarrow> test_passes lib_ok (snd t)"
  using test_println_output_passes
  by (auto simp: library_tests_def test_passes_def test_breakpoint_exception_def breakpoint_handler_def lib_ok_def
      test_println_simple_def test_println_many_def println_nowhere println_loop_nowhere simp del: upt_conv_Cons)

lemma init_gdt_idt_ok:
  assumes "gdt_crate (segment_ops P) room slots" and "x86_addr (addr_ops P)" and "canonical (STACK P)"
    and "canonical (STACK P + STACK_SIZE)" and "fst (segments k) = {}"
  obtains k1 where "init_gdt_idt P k = Inr k1" and "idt_loaded k1"
  using gdt_init_tss [OF assms] that by (fastforce simp: init_gdt_idt_def init_idt_def)

text \<open>
  C35. The test kernel reports its tests. On a machine whose tables can be loaded, with a VGA screen and no
  framebuffer, any selection of the library's tests in any order passes: each is reported with its name and
  \<open>[OK]\<close>, and QEMU is left with the code for success. If a test that panics stands between them, the ones
  before it are reported, it is reported as failed with its panic, no later one runs, and QEMU is left with the code for failure.
\<close>

theorem library_tests_reported:
  assumes "gdt_crate (segment_ops P) room slots" and "x86_addr (addr_ops P)" and "canonical (STACK P)"
    and "canonical (STACK P + STACK_SIZE)" and "fst (segments k) = {}"
    and "set tests \<subseteq> set (library_tests p F)" and "lib_ok m" and "\<And>m. snd bad m = Inl e"
  shows "let out = (\<lambda>ts. snd (test_kernel_main P ts k \<lparr>serial = [], exits = [], machine = m\<rparr>));
      passed = concat (map (\<lambda>t. [Test_Name (fst t), Test_Ok]) tests) in
    serial (out tests) = Running_Tests (length tests) # passed @ [Tests_Returned Success] \<and>
    exits (out tests) = [Port_Out32 0xf4 0x10] \<and>
    serial (out (tests @ bad # rest)) = Running_Tests (length (tests @ bad # rest)) # passed @
      [Test_Name (fst bad), Test_Failed, Error_Message e, Tests_Returned Failed] \<and>
    exits (out (tests @ bad # rest)) = [Port_Out32 0xf4 0x11]"
proof -
  have pass: "\<forall>t\<in>set tests. test_passes lib_ok (snd t)" using assms(6) library_test_passes by blast
  obtain k1 where k1: "init_gdt_idt P k = Inr k1" by (rule init_gdt_idt_ok [OF assms(1-5)])
  let ?s = "\<lambda>n. \<lparr>serial = [Running_Tests n], exits = [], machine = m\<rparr>"
  obtain s1 where "for_each testable_run tests (?s (length tests)) = Inr s1" "exits s1 = []"
      "serial s1 = Running_Tests (length tests) # concat (map (\<lambda>t. [Test_Name (fst t), Test_Ok]) tests)"
    using run_passing_tests [OF pass, of "?s (length tests)"] assms(7) by auto
  moreover obtain s2 where "for_each testable_run (tests @ bad # rest) (?s (length (tests @ bad # rest))) = Inl (e, s2)" "exits s2 = []"
      "serial s2 = Running_Tests (length (tests @ bad # rest)) # concat (map (\<lambda>t. [Test_Name (fst t), Test_Ok]) tests) @ [Test_Name (fst bad)]"
    using run_failing_test [OF pass, of "?s (length (tests @ bad # rest))" bad e rest] assms(7,8) by auto
  ultimately show ?thesis using k1
    by (simp add: test_kernel_main_def test_main_def test_runner_def serial_println_def exit_qemu_def test_panic_handler_def Let_def)
qed

theorem library_tests_reported_witness:
  "let out = snd (test_kernel_main (example_ops Debug)
      (library_tests Debug tiny_font @ [(''bad'', \<lambda>_. Inl Cpu_Fault)]) power_on
      \<lparr>serial = [], exits = [], machine = \<lparr>WRITER = WRITER_init zero_screen, fb_cell = None, test_irqs = irq power_on\<rparr>\<rparr>) in
    exits out = [Port_Out32 0xf4 0x11] \<and> length (serial out) = 13"
proof -
  let ?m = "\<lparr>WRITER = WRITER_init zero_screen, fb_cell = None, test_irqs = irq power_on\<rparr>"
  have "lib_ok ?m" by (simp add: lib_ok_def WRITER_init_def wf_buffer_def)
  then show ?thesis
    using library_tests_reported [of "example_ops Debug" "\<lambda>g. 8 - length g" "\<lambda>d. length (descriptor_entries d)" power_on
        "library_tests Debug tiny_font" Debug tiny_font ?m "(''bad'', \<lambda>_. Inl Cpu_Fault)" Cpu_Fault "[]"]
      example_machine.gdt paging.axioms(1) [OF example_machine.paging]
    by (simp add: Let_def library_tests_def)
qed

text \<open>The kernel of \<^verbatim>\<open>should_panic.rs\<close> always succeeds, whatever it runs on.\<close>

lemma should_panic_succeeds:
  "should_panic_start s = s\<lparr>serial := serial s @ [Test_Header ''should_panic::should_fail.........'', Test_Ok, Tests_Returned Success],
     exits := exits s @ [Port_Out32 0xf4 0x10]\<rparr>"
  by (simp add: should_panic_start_def should_fail_def exit_qemu_def serial_println_def)

text \<open>That of \<^verbatim>\<open>basic_boot.rs\<close> succeeds without a console.\<close>

lemma basic_boot_succeeds:
  assumes "fb_cell (machine s) = None"
  shows "basic_boot_start p F s = s\<lparr>serial := serial s @ [Running_Tests 1, Test_Name ''basic_boot::test_println'', Test_Ok, Tests_Returned Success],
     exits := exits s @ [Port_Out32 0xf4 0x10]\<rparr>"
  using assms by (simp add: basic_boot_start_def test_main_def test_runner_def testable_run_def println_nowhere exit_qemu_def serial_println_def)

text \<open>Once \<open>gdt::init\<close> has run, the double fault that ends \<^verbatim>\<open>stack_overflow.rs\<close> finds its handler and a stack other than the one that overflowed.\<close>

lemma overflow_stack_switched:
  assumes "gdt_crate (segment_ops P) room slots" and "x86_addr (addr_ops P)" and "canonical (STACK P)"
    and "canonical (STACK P + STACK_SIZE)" and "fst (segments k) = {}"
  obtains sg cs t i where "gdt_init (addr_ops P) (segment_ops P) (STACK P) (segments k) = Inr (sg, cs)"
    and "descriptor_at (segment_ops P) cs (segment_regs cs Reg_TR) = Some (tss_segment (segment_ops P) t)"
    and "TEST_IDT 8 = Some (Some i)" and "i < length (interrupt_stack_table t)" and "interrupt_stack_table t ! i = STACK P + STACK_SIZE"
  using gdt_init_tss [OF assms] that by (fastforce simp: TEST_IDT_def DOUBLE_FAULT_IST_INDEX_def)

text \<open>
  What the framework reports arrives at the serial port as text, in order, whatever panics look like: the port is initialised
  by the first print.
\<close>

lemma report_taken:
  assumes "serial_uart U taken"
  shows "\<exists>cell. for_each (\<lambda>l. serial_write U (line_args show_info l)) ls None = Inr cell \<and>
    taken (SERIAL1 U cell) = Some (concat (concat (map (line_args show_info) ls)))"
proof -
  have map: "for_each (\<lambda>l. serial_write U (line_args show_info l)) ls c = for_each (serial_write U) (map (line_args show_info) ls) c" for c
    by (induction ls arbitrary: c) (auto intro: and_then_cong)
  have "taken (SERIAL1 U None) = Some []" by (simp add: SERIAL1_def serial_uart.init_empty [OF assms])
  from serial_uart.serial_writes_in_order [OF assms this] show ?thesis unfolding map by simp
qed

end
