(* ===== verification/Heap_Tests.thy ===== *)
theory Heap_Tests
  imports Heap_Bytes Kernel_Tests
begin

text \<open>
  The test kernels \<^verbatim>\<open>kernel/tests/heap_allocation.rs\<close> and \<^verbatim>\<open>heap_deallocation.rs\<close>: boxes and a vector on the heap of
  \<open>Heap_Bytes\<close>, run by the test framework of \<open>Kernel_Tests\<close> after the memory has been brought up. The theorem at the end follows
  the values from the memory map of the machine to the assertions of the tests.
\<close>

section \<open>Values on the heap\<close>

text \<open>
  What the tests use of the standard library: \<open>Box::new\<close>, reading and dropping a box of an \<^verbatim>\<open>i32\<close>, \<open>Vec::push\<close> with its growth
  policy, and \<open>realloc\<close>, which the allocator of the kernel inherits. The message of a failed allocation is without its size.
\<close>

definition alloc_error :: panic where
  "alloc_error = Panic ''memory allocation failed''"

definition alloc_or_panic :: "profile \<Rightarrow> 'pa palloc \<Rightarrow> 'pa byte_heap \<Rightarrow> layout \<Rightarrow> (nat \<times> 'pa byte_heap) res" where
  "alloc_or_panic p palloc b l =
     and_then (byte_alloc p palloc b l) (\<lambda>(a, b'). if a = 0 then Inl alloc_error else Inr (a, b'))"

definition assert_eq :: "'v \<Rightarrow> 'v \<Rightarrow> unit res" where
  "assert_eq x y = (if x = y then Inr () else Inl (Panic ''assertion `left == right` failed''))"

definition i32_layout :: layout where
  "i32_layout = \<lparr>l_size = 4, l_align = 4\<rparr>"

definition box_new :: "profile \<Rightarrow> 'pa palloc \<Rightarrow> u32 \<Rightarrow> 'pa byte_heap \<Rightarrow> (nat \<times> 'pa byte_heap) res" where
  "box_new p palloc v b =
     and_then (alloc_or_panic p palloc b i32_layout) (\<lambda>(a, b').
     Inr (a, b'\<lparr>heap_bytes := write_u32 a v (heap_bytes b')\<rparr>))"

definition box_get :: "'pa byte_heap \<Rightarrow> nat \<Rightarrow> u32" where
  "box_get b a = le_read (bytes_at a 4 (heap_bytes b))"

definition box_drop :: "profile \<Rightarrow> 'pa pdealloc \<Rightarrow> nat \<Rightarrow> 'pa byte_heap \<Rightarrow> 'pa byte_heap res" where
  "box_drop p pdealloc a b = byte_dealloc p pdealloc b a i32_layout"

text \<open>The default \<open>GlobalAlloc::realloc\<close>: a new block, a copy, and the old block given back.\<close>

definition realloc :: "profile \<Rightarrow> 'pa palloc \<Rightarrow> 'pa pdealloc \<Rightarrow> 'pa byte_heap \<Rightarrow> nat \<Rightarrow> layout \<Rightarrow> nat \<Rightarrow> (nat \<times> 'pa byte_heap) res" where
  "realloc p palloc pdealloc b ptr l new_size =
     and_then (byte_alloc p palloc b \<lparr>l_size = new_size, l_align = l_align l\<rparr>) (\<lambda>(new_ptr, b1).
     if new_ptr = 0 then Inr (0, b1)
     else let bs = bytes_at ptr (min (l_size l) new_size) (heap_bytes b1);
              b2 = b1\<lparr>heap_bytes := write_bytes new_ptr bs (heap_bytes b1)\<rparr> in
       and_then (byte_dealloc p pdealloc b2 ptr l) (\<lambda>b3. Inr (new_ptr, b3)))"

text \<open>A \<^verbatim>\<open>Vec<u64>\<close>.\<close>

record vec =
  v_ptr :: nat
  v_cap :: nat
  v_len :: nat

definition vec_new :: vec where
  "vec_new = \<lparr>v_ptr = 8, v_cap = 0, v_len = 0\<rparr>"

definition vec_layout :: "nat \<Rightarrow> layout" where
  "vec_layout cap = \<lparr>l_size = 8 * cap, l_align = 8\<rparr>"

definition grow_one :: "profile \<Rightarrow> 'pa palloc \<Rightarrow> 'pa pdealloc \<Rightarrow> vec \<Rightarrow> 'pa byte_heap \<Rightarrow> (vec \<times> 'pa byte_heap) res" where
  "grow_one p palloc pdealloc v b =
     (let cap = max 4 (max (2 * v_cap v) (v_cap v + 1)) in
      if 2 ^ 63 - 1 < 8 * cap then Inl (Panic ''capacity overflow'')
      else and_then (if v_cap v = 0 then byte_alloc p palloc b (vec_layout cap)
                     else realloc p palloc pdealloc b (v_ptr v) (vec_layout (v_cap v)) (8 * cap)) (\<lambda>(a, b').
        if a = 0 then Inl alloc_error else Inr (v\<lparr>v_ptr := a, v_cap := cap\<rparr>, b')))"

definition vec_push :: "profile \<Rightarrow> 'pa palloc \<Rightarrow> 'pa pdealloc \<Rightarrow> u64 \<Rightarrow> vec \<times> 'pa byte_heap \<Rightarrow> (vec \<times> 'pa byte_heap) res" where
  "vec_push p palloc pdealloc x = (\<lambda>(v, b).
     and_then (if v_len v = v_cap v then grow_one p palloc pdealloc v b else Inr (v, b)) (\<lambda>(v', b').
     Inr (v'\<lparr>v_len := v_len v' + 1\<rparr>, b'\<lparr>heap_bytes := write_u64 (v_ptr v' + 8 * v_len v') x (heap_bytes b')\<rparr>)))"

definition vec_get :: "'pa byte_heap \<Rightarrow> vec \<Rightarrow> nat \<Rightarrow> u64" where
  "vec_get b v i = le_read (bytes_at (v_ptr v + 8 * i) 8 (heap_bytes b))"

definition vec_sum :: "profile \<Rightarrow> 'pa byte_heap \<Rightarrow> vec \<Rightarrow> nat res" where
  "vec_sum p b v = for_each (\<lambda>i acc. u64_add p acc (unat (vec_get b v i))) [0..<v_len v] 0"

definition vec_drop :: "profile \<Rightarrow> 'pa pdealloc \<Rightarrow> vec \<Rightarrow> 'pa byte_heap \<Rightarrow> 'pa byte_heap res" where
  "vec_drop p pdealloc v b = (if v_cap v = 0 then Inr b else byte_dealloc p pdealloc b (v_ptr v) (vec_layout (v_cap v)))"


section \<open>The tests\<close>

definition simple_allocation :: "profile \<Rightarrow> 'pa palloc \<Rightarrow> 'pa pdealloc \<Rightarrow> 'pa byte_heap \<Rightarrow> 'pa byte_heap res" where
  "simple_allocation p palloc pdealloc b =
     and_then (box_new p palloc 41 b) (\<lambda>(heap_value_1, b).
     and_then (box_new p palloc 13 b) (\<lambda>(heap_value_2, b).
     and_then (assert_eq (box_get b heap_value_1) 41) (\<lambda>_.
     and_then (assert_eq (box_get b heap_value_2) 13) (\<lambda>_.
     and_then (box_drop p pdealloc heap_value_2 b) (\<lambda>b.
     box_drop p pdealloc heap_value_1 b)))))"

definition large_vec :: "profile \<Rightarrow> 'pa palloc \<Rightarrow> 'pa pdealloc \<Rightarrow> 'pa byte_heap \<Rightarrow> 'pa byte_heap res" where
  "large_vec p palloc pdealloc b =
     (let n = 500 in
      and_then (for_each (\<lambda>i. vec_push p palloc pdealloc (of_nat i)) [0..<n] (vec_new, b)) (\<lambda>(vec, b).
      and_then (vec_sum p b vec) (\<lambda>sum.
      and_then (u64_sub p n 1) (\<lambda>m.
      and_then (u64_mul p m n) (\<lambda>k.
      and_then (assert_eq sum (k div 2)) (\<lambda>_.
      vec_drop p pdealloc vec b))))))"

definition box_round :: "profile \<Rightarrow> 'pa palloc \<Rightarrow> 'pa pdealloc \<Rightarrow> nat \<Rightarrow> 'pa byte_heap \<Rightarrow> 'pa byte_heap res" where
  "box_round p palloc pdealloc i b =
     and_then (box_new p palloc (of_nat i) b) (\<lambda>(x, b).
     and_then (assert_eq (box_get b x) (of_nat i)) (\<lambda>_.
     box_drop p pdealloc x b))"

definition many_boxes :: "profile \<Rightarrow> 'pa palloc \<Rightarrow> 'pa pdealloc \<Rightarrow> 'pa byte_heap \<Rightarrow> 'pa byte_heap res" where
  "many_boxes p palloc pdealloc = for_each (box_round p palloc pdealloc) [0..<1000]"

definition many_boxes_long_lived :: "profile \<Rightarrow> 'pa palloc \<Rightarrow> 'pa pdealloc \<Rightarrow> 'pa byte_heap \<Rightarrow> 'pa byte_heap res" where
  "many_boxes_long_lived p palloc pdealloc b =
     and_then (box_new p palloc 1 b) (\<lambda>(long_lived, b).
     and_then (for_each (box_round p palloc pdealloc) [0..<1000] b) (\<lambda>b.
     and_then (assert_eq (box_get b long_lived) 1) (\<lambda>_.
     box_drop p pdealloc long_lived b)))"

definition simple_deallocation :: "profile \<Rightarrow> 'pa palloc \<Rightarrow> 'pa pdealloc \<Rightarrow> 'pa byte_heap \<Rightarrow> 'pa byte_heap res" where
  "simple_deallocation p palloc pdealloc b =
     and_then (box_new p palloc 41 b) (\<lambda>(heap_value_1, b).
     byte_dealloc p pdealloc b heap_value_1 i32_layout)"

definition page_deallocation :: "profile \<Rightarrow> 'pa palloc \<Rightarrow> 'pa pdealloc \<Rightarrow> 'pa byte_heap \<Rightarrow> 'pa byte_heap res" where
  "page_deallocation p palloc pdealloc b =
     (let l = \<lparr>l_size = 4096 * 2, l_align = 1\<rparr> in
      and_then (alloc_or_panic p palloc b l) (\<lambda>(a, b).
      byte_dealloc p pdealloc (b\<lparr>heap_bytes := write_bytes a (replicate (4096 * 2) 0) (heap_bytes b)\<rparr>) a l))"

definition heap_allocation_tests :: "profile \<Rightarrow> 'pa palloc \<Rightarrow> 'pa pdealloc \<Rightarrow> 'pa byte_heap testable list" where
  "heap_allocation_tests p palloc pdealloc =
     [(''heap_allocation::simple_allocation'', simple_allocation p palloc pdealloc),
      (''heap_allocation::large_vec'', large_vec p palloc pdealloc),
      (''heap_allocation::many_boxes'', many_boxes p palloc pdealloc),
      (''heap_allocation::many_boxes_long_lived'', many_boxes_long_lived p palloc pdealloc)]"

definition heap_deallocation_tests :: "profile \<Rightarrow> 'pa palloc \<Rightarrow> 'pa pdealloc \<Rightarrow> 'pa byte_heap testable list" where
  "heap_deallocation_tests p palloc pdealloc =
     [(''heap_deallocation::simple_deallocation'', simple_deallocation p palloc pdealloc),
      (''heap_deallocation::page_deallocation'', page_deallocation p palloc pdealloc)]"

text \<open>
  \<open>main\<close> of both test kernels: the memory is set up as in \<^verbatim>\<open>init_memory\<close>, but in the function itself and without
  the static for the offset; then the tests run.
\<close>

definition heap_test_init :: "profile \<Rightarrow> ('m, 'b, 'r, 'g, 'd) platform_ops \<Rightarrow> boot_memory \<Rightarrow> ('m, 'b, 'q, 'k, 'g) kernel \<Rightarrow>
    ('m, 'b bitmap_frame_allocator) page_allocator byte_heap \<Rightarrow>
    (('m, 'b, 'q, 'k, 'g) kernel \<times> ('m, 'b bitmap_frame_allocator) page_allocator byte_heap) res" where
  "heap_test_init p P boot_info k0 b =
     and_then (init_gdt_idt P k0) (\<lambda>k.
     case physical_memory_offset boot_info of
       None \<Rightarrow> Inl (Panic ''Physical memory offset not provided by bootloader'')
     | Some physical_offset \<Rightarrow>
         and_then (virt_addr_new (addr_ops P) physical_offset) (\<lambda>va.
         and_then (memory_init (addr_ops P) (offset_page_table P) (read_cr3 (smp_image P)) va) (\<lambda>mapper.
         and_then (bitmap_init p (bit_ops P) (boot_bytes P) (ILLEGAL_REGIONS (mem_state k)) (memory_regions boot_info) physical_offset)
           (\<lambda>(test_allocator, illegal).
         let g = init_page_allocator mapper test_allocator (page_cell b) in
         and_then (expect g ''PAGE_ALLOCATOR not initialized'') (\<lambda>page_alloc'.
         and_then (byte_heap_init p (page_alloc p (addr_ops P) (paging_ops P)) (b\<lparr>page_cell := g\<rparr>) page_alloc') (\<lambda>(b', pa').
         Inr (k\<lparr>mem_state := (mem_state k)\<lparr>ILLEGAL_REGIONS := illegal\<rparr>\<rparr>, b'\<lparr>page_cell := Some pa'\<rparr>)))))))"

definition heap_test_main :: "profile \<Rightarrow> ('m, 'b, 'r, 'g, 'd) platform_ops \<Rightarrow>
    ('m, 'b bitmap_frame_allocator) page_allocator byte_heap testable list \<Rightarrow> boot_memory \<Rightarrow> ('m, 'b, 'q, 'k, 'g) kernel \<Rightarrow>
    ('m, 'b bitmap_frame_allocator) page_allocator byte_heap test_state \<Rightarrow>
    ('m, 'b bitmap_frame_allocator) page_allocator byte_heap test_state" where
  "heap_test_main p P tests boot_info k s =
     (case heap_test_init p P boot_info k (machine s) of
        Inl e \<Rightarrow> test_panic_handler e s
      | Inr (k1, b) \<Rightarrow> test_main tests (s\<lparr>machine := b\<rparr>))"

section \<open>What the tests need\<close>


text \<open>
  What a state of the heap has in store: \<open>d\<close> more blocks of the smallest class that it will take back, \<open>e\<close> entries
  of the table for large blocks, and, if the heap got its first page, \<open>c\<close> blocks of the smallest class.
\<close>

definition stocked :: "('pa \<Rightarrow> bool) \<Rightarrow> ('pa \<Rightarrow> nat) \<Rightarrow> ('pa \<Rightarrow> nat set) \<Rightarrow> bool \<Rightarrow> nat \<Rightarrow> nat \<Rightarrow> nat \<Rightarrow>
    'pa byte_heap \<Rightarrow> (nat \<rightharpoonup> layout) \<Rightarrow> bool" where
  "stocked pinv mark mapped got c d e b live \<longleftrightarrow> (\<exists>F. byte_inv pinv mark mapped F b live \<and> (got \<longrightarrow> c \<le> length (F 0))) \<and>
     list_lengths b ! 0 + d \<le> MAX_LIST_LENGTH \<and> e \<le> free_slots (large_slots b)"

definition out_of_memory :: "bool \<Rightarrow> panic set" where
  "out_of_memory got = (if got then {} else {alloc_error})"

lemma out_of_memory_sub: "out_of_memory got \<subseteq> {alloc_error}"
  by (simp add: out_of_memory_def)

lemma i32_ok: "list_index i32_layout = Some 0" "layout_ok i32_layout" "l_size i32_layout = 4"
proof -
  show "list_index i32_layout = Some 0" by (simp add: list_index_def i32_layout_def BLOCK_SIZES_def)
  show "layout_ok i32_layout" by (simp add: layout_ok_def i32_layout_def MAX_PAGES_def exI [of _ 2])
  show "l_size i32_layout = 4" by (simp add: i32_layout_def)
qed

lemma stocked_write:
  assumes "stocked pinv mark mapped got c d e b live" and "live a = Some l" and "\<And>x. x \<notin> blk (a, l_size l) \<Longrightarrow> m x = heap_bytes b x"
  shows "stocked pinv mark mapped got c d e (b\<lparr>heap_bytes := m\<rparr>) live" and "keeps (live(a := None)) b (b\<lparr>heap_bytes := m\<rparr>)"
proof -
  obtain F where F: "byte_inv pinv mark mapped F b live" "got \<longrightarrow> c \<le> length (F 0)" using assms(1) by (auto simp: stocked_def)
  note w = byte_inv_write [OF F(1) assms(2,3)]
  show "stocked pinv mark mapped got c d e (b\<lparr>heap_bytes := m\<rparr>) live"
    unfolding stocked_def using w(1) F(2) assms(1) by (auto simp: stocked_def)
  show "keeps (live(a := None)) b (b\<lparr>heap_bytes := m\<rparr>)" by (rule w(2))
qed

context page_source
begin

lemma alloc_large_class:
  assumes st: "stocked pinv mark mapped got c d (e + (if list_index l = None then 1 else 0)) b live" and ok: "layout_ok l" "list_index l \<noteq> Some 0"
  shows "\<exists>a b'. byte_alloc p palloc b l = Inr (a, b') \<and> (a \<noteq> 0 \<longrightarrow> live a = None \<and> keeps live b b' \<and>
    stocked pinv mark mapped got c d e b' (live(a \<mapsto> l)))"
proof -
  obtain F where F: "byte_inv pinv mark mapped F b live" "got \<longrightarrow> c \<le> length (F 0)" using st by (auto simp: stocked_def)
  have room: "None \<in> set (large_slots b)" if "list_index l = None"
    using st that by (auto simp: stocked_def simp flip: free_slots_pos)
  then obtain a b' F' where r: "byte_alloc p palloc b l = Inr (a, b')" "keeps live b b'" "list_lengths b' = list_lengths b"
      "\<forall>j. list_index l \<noteq> Some j \<longrightarrow> F' j = F j" "a \<noteq> 0 \<longrightarrow> live a = None \<and> byte_inv pinv mark mapped F' b' (live(a \<mapsto> l))"
    using byte_alloc_total [OF F(1) ok(1), of p] by (smt (verit))
  then have "F' 0 = F 0" using ok(2) by simp
  then show ?thesis using r F(2) st byte_alloc_slots [OF r(1)] by (auto simp: stocked_def split: if_splits)
qed

lemma dealloc_large_class:
  assumes st: "stocked pinv mark mapped got c d e b live" and l: "live a = Some l" "list_index l \<noteq> Some 0"
  shows "\<exists>b'. byte_dealloc p pdealloc b a l = Inr b' \<and> keeps (live(a := None)) b b' \<and> stocked pinv mark mapped got c d e b' (live(a := None))"
proof -
  obtain F where F: "byte_inv pinv mark mapped F b live" "got \<longrightarrow> c \<le> length (F 0)" using st by (auto simp: stocked_def)
  obtain b' F' where "byte_dealloc p pdealloc b a l = Inr b'" "byte_inv pinv mark mapped F' b' (live(a := None))" "keeps (live(a := None)) b b'"
      "F' 0 = F 0" "list_lengths b' ! 0 = list_lengths b ! 0"
    using byte_dealloc_total [OF F(1) l(1), of p] l(2) by blast
  then show ?thesis using F(2) st byte_dealloc_slots by (fastforce simp: stocked_def)
qed

lemma alloc_box:
  assumes st: "stocked pinv mark mapped got (Suc c) d e b live"
  shows "\<exists>a b'. byte_alloc p palloc b i32_layout = Inr (a, b') \<and> (got \<longrightarrow> a \<noteq> 0) \<and> (a \<noteq> 0 \<longrightarrow> live a = None \<and> keeps live b b' \<and>
    stocked pinv mark mapped got c d e b' (live(a \<mapsto> i32_layout)))"
proof -
  obtain F where F: "byte_inv pinv mark mapped F b live" "got \<longrightarrow> Suc c \<le> length (F 0)" using st by (auto simp: stocked_def)
  show ?thesis
  proof (cases got)
    case True
    obtain pa where "lists_ok F (node_view b)" using F(1) by (rule heap_invE)
    then have "chain (read_node (heap_bytes b)) (list_heads b ! 0) (F 0)" using lists_okD(1) [of F "node_view b" 0] by simp
    then obtain a where "list_heads b ! 0 = Some a" using F(2) True by (cases "list_heads b ! 0") auto
    then obtain b' where r: "byte_alloc p palloc b i32_layout = Inr (a, b')" "0 < a" "live a = None" "keeps live b b'" "list_lengths b' = list_lengths b"
        "byte_inv pinv mark mapped (F(0 := tl (F 0))) b' (live(a \<mapsto> i32_layout))"
      using byte_alloc_pop [OF F(1) i32_ok(2,1), of a p palloc] by blast
    moreover have "c \<le> length ((F(0 := tl (F 0))) 0)" using F(2) True by simp
    ultimately show ?thesis using st byte_alloc_slots [OF r(1)] i32_ok(1) unfolding stocked_def by (intro exI [of _ a] exI [of _ b']) auto
  next
    case False
    obtain a b' F' where r: "byte_alloc p palloc b i32_layout = Inr (a, b')" "keeps live b b'" "list_lengths b' = list_lengths b"
        "a \<noteq> 0 \<longrightarrow> live a = None \<and> byte_inv pinv mark mapped F' b' (live(a \<mapsto> i32_layout))"
      using byte_alloc_total [OF F(1) i32_ok(2), of p] i32_ok(1) by (smt (verit) option.distinct(1))
    then show ?thesis using st False byte_alloc_slots [OF r(1)] i32_ok(1) unfolding stocked_def by (intro exI [of _ a] exI [of _ b']) auto
  qed
qed

lemma box_new_ok:
  assumes st: "stocked pinv mark mapped got (Suc c) d e b live"
  shows "returns (out_of_memory got) (\<lambda>(a, b'). live a = None \<and> keeps live b b' \<and> box_get b' a = v \<and>
    stocked pinv mark mapped got c d e b' (live(a \<mapsto> i32_layout))) (box_new p palloc v b)"
proof -
  obtain a b' where r: "byte_alloc p palloc b i32_layout = Inr (a, b')" "got \<longrightarrow> a \<noteq> 0" "a \<noteq> 0 \<longrightarrow> live a = None \<and> keeps live b b' \<and>
      stocked pinv mark mapped got c d e b' (live(a \<mapsto> i32_layout))" using alloc_box [OF st] by blast
  show ?thesis
  proof (cases "a = 0")
    case True
    then show ?thesis using r by (simp add: box_new_def alloc_or_panic_def out_of_memory_def)
  next
    case False
    let ?b = "b'\<lparr>heap_bytes := write_u32 a v (heap_bytes b')\<rparr>"
    note a = r(3) [rule_format, OF False, THEN conjunct2, THEN conjunct2]
    have w: "stocked pinv mark mapped got c d e ?b (live(a \<mapsto> i32_layout))" "keeps (live(a \<mapsto> i32_layout, a := None)) b' ?b"
      using stocked_write [OF a, of a i32_layout "write_u32 a v (heap_bytes b')"] write_outside(2) i32_ok(3) by simp_all
    have "keeps live b ?b" using r(3) False w(2) by (auto simp: fun_upd_idem keeps_def)
    then show ?thesis using r False w(1) by (simp add: box_new_def alloc_or_panic_def box_get_def le_read_bytes)
  qed
qed

lemma box_drop_ok:
  assumes st: "stocked pinv mark mapped got c (Suc d) e b live" and l: "live a = Some i32_layout"
  shows "\<exists>b'. byte_dealloc p pdealloc b a i32_layout = Inr b' \<and> keeps (live(a := None)) b b' \<and>
    stocked pinv mark mapped got (Suc c) d e b' (live(a := None))"
proof -
  obtain F where F: "byte_inv pinv mark mapped F b live" "got \<longrightarrow> c \<le> length (F 0)" using st by (auto simp: stocked_def)
  have len: "list_lengths b ! 0 < MAX_LIST_LENGTH" using st by (simp add: stocked_def)
  have "0 < length (list_lengths b)" using F(1) lists_okD(5) [of F "node_view b" 0] by (auto elim!: heap_invE)
  moreover obtain b' where r: "byte_dealloc p pdealloc b a i32_layout = Inr b'" "byte_inv pinv mark mapped (F(0 := a # F 0)) b' (live(a := None))"
      "keeps (live(a := None)) b b'" "list_lengths b' = (list_lengths b)[0 := list_lengths b ! 0 + 1]"
    using byte_dealloc_small [OF F(1) l i32_ok(1) mark_bound, of p pdealloc] len by auto
  ultimately show ?thesis using F(2) st byte_dealloc_slots [OF r(1)] unfolding stocked_def by (intro exI [of _ b']) auto
qed

lemma box_get_keeps: "keeps live b b' \<Longrightarrow> live a = Some i32_layout \<Longrightarrow> box_get b' a = box_get b a"
  using keeps_bytes_at [of live b b' a i32_layout 0 4] by (simp add: box_get_def i32_ok)

lemma box_round_ok:
  assumes "stocked pinv mark mapped got (Suc c) (Suc d) e b live"
  shows "returns (out_of_memory got) (\<lambda>b'. stocked pinv mark mapped got (Suc c) d e b' live \<and> keeps live b b') (box_round p palloc pdealloc i b)"
  unfolding box_round_def
proof (rule returns_bind [OF box_new_ok [OF assms]], clarify)
  fix a b1
  assume a: "live a = None" "keeps live b b1" "box_get b1 a = of_nat i" "stocked pinv mark mapped got c (Suc d) e b1 (live(a \<mapsto> i32_layout))"
  then have live: "(live(a \<mapsto> i32_layout))(a := None) = live" by (simp add: fun_upd_idem)
  obtain b2 where "byte_dealloc p pdealloc b1 a i32_layout = Inr b2" "keeps live b1 b2" "stocked pinv mark mapped got (Suc c) d e b2 live"
    using box_drop_ok [OF a(4), of a p] unfolding live by auto
  then show "returns (out_of_memory got) (\<lambda>b'. stocked pinv mark mapped got (Suc c) d e b' live \<and> keeps live b b')
      (and_then (assert_eq (box_get b1 a) (of_nat i)) (\<lambda>_. box_drop p pdealloc a b1))"
    using a(3) keeps_trans [OF a(2), of live b2] by (simp add: assert_eq_def box_drop_def)
qed

lemma box_rounds_ok:
  assumes "stocked pinv mark mapped got (Suc c) (length xs + d) e b live"
  shows "returns (out_of_memory got) (\<lambda>b'. stocked pinv mark mapped got (Suc c) d e b' live \<and> keeps live b b')
    (for_each (box_round p palloc pdealloc) xs b)"
  using assms
proof (induction xs arbitrary: b)
  case (Cons x xs)
  have "stocked pinv mark mapped got (Suc c) (Suc (length xs + d)) e b live" using Cons.prems by simp
  then show ?case unfolding for_each.simps
  proof (rule returns_bind [OF box_round_ok])
    fix b1 assume b1: "stocked pinv mark mapped got (Suc c) (length xs + d) e b1 live \<and> keeps live b b1"
    show "returns (out_of_memory got) (\<lambda>b'. stocked pinv mark mapped got (Suc c) d e b' live \<and> keeps live b b')
        (for_each (box_round p palloc pdealloc) xs b1)"
      by (rule returns_mono [OF Cons.IH]) (use b1 keeps_trans [of live b b1 live] in auto)
  qed
qed simp

lemma simple_allocation_ok:
  assumes "stocked pinv mark mapped got (Suc (Suc c)) (Suc (Suc d)) e b live"
  shows "returns (out_of_memory got) (\<lambda>b'. stocked pinv mark mapped got (Suc (Suc c)) d e b' live) (simple_allocation p palloc pdealloc b)"
  unfolding simple_allocation_def
proof (rule returns_bind [OF box_new_ok [OF assms]], clarify, rule returns_bind [OF box_new_ok], assumption, clarify)
  fix x1 b1 x2 b2
  let ?l = "live(x1 \<mapsto> i32_layout)"
  assume 1: "live x1 = None" "box_get b1 x1 = 41"
    and 2: "?l x2 = None" "keeps ?l b1 b2" "box_get b2 x2 = 13" "stocked pinv mark mapped got c (Suc (Suc d)) e b2 (?l(x2 \<mapsto> i32_layout))"
  have get: "box_get b2 x1 = 41" using box_get_keeps [OF 2(2), of x1] 1(2) by simp
  have live: "(?l(x2 \<mapsto> i32_layout))(x2 := None) = ?l" "?l(x1 := None) = live" using 1 2(1) by (auto simp: fun_upd_idem)
  obtain b3 where 3: "byte_dealloc p pdealloc b2 x2 i32_layout = Inr b3" "stocked pinv mark mapped got (Suc c) (Suc d) e b3 ?l"
    using box_drop_ok [OF 2(4), of x2 p] unfolding live by auto
  obtain b4 where "byte_dealloc p pdealloc b3 x1 i32_layout = Inr b4" "stocked pinv mark mapped got (Suc (Suc c)) d e b4 live"
    using box_drop_ok [OF 3(2), of x1 p] unfolding live by auto
  then show "returns (out_of_memory got) (\<lambda>b'. stocked pinv mark mapped got (Suc (Suc c)) d e b' live)
      (and_then (assert_eq (box_get b2 x1) 41) (\<lambda>_. and_then (assert_eq (box_get b2 x2) 13) (\<lambda>_.
        and_then (box_drop p pdealloc x2 b2) (\<lambda>b. box_drop p pdealloc x1 b))))"
    using get 2(3) 3(1) by (simp add: assert_eq_def box_drop_def)
qed

lemma many_boxes_long_lived_ok:
  assumes "stocked pinv mark mapped got (Suc (Suc c)) (1001 + d) e b live"
  shows "returns (out_of_memory got) (\<lambda>b'. stocked pinv mark mapped got (Suc (Suc c)) d e b' live) (many_boxes_long_lived p palloc pdealloc b)"
  unfolding many_boxes_long_lived_def
proof (rule returns_bind [OF box_new_ok [OF assms]], clarify)
  fix x b1
  let ?l = "live(x \<mapsto> i32_layout)"
  assume 1: "live x = None" "box_get b1 x = 1" "stocked pinv mark mapped got (Suc c) (1001 + d) e b1 ?l"
  then have "stocked pinv mark mapped got (Suc c) (length [0..<1000] + Suc d) e b1 ?l" by simp
  then show "returns (out_of_memory got) (\<lambda>b'. stocked pinv mark mapped got (Suc (Suc c)) d e b' live)
      (and_then (for_each (box_round p palloc pdealloc) [0..<1000] b1) (\<lambda>b.
        and_then (assert_eq (box_get b x) 1) (\<lambda>_. box_drop p pdealloc x b)))"
  proof (rule returns_bind [OF box_rounds_ok], clarify)
    fix b2 assume 2: "keeps ?l b1 b2" "stocked pinv mark mapped got (Suc c) (Suc d) e b2 ?l"
    have "?l(x := None) = live" using 1(1) by (auto simp: fun_upd_idem)
    then show "returns (out_of_memory got) (\<lambda>b'. stocked pinv mark mapped got (Suc (Suc c)) d e b' live)
        (and_then (assert_eq (box_get b2 x) 1) (\<lambda>_. box_drop p pdealloc x b2))"
      using box_drop_ok [OF 2(2), of x p] box_get_keeps [OF 2(1), of x] 1(2) by (auto simp: assert_eq_def box_drop_def)
  qed
qed

lemma simple_deallocation_ok:
  assumes "stocked pinv mark mapped got (Suc c) (Suc d) e b live"
  shows "returns (out_of_memory got) (\<lambda>b'. stocked pinv mark mapped got (Suc c) d e b' live) (simple_deallocation p palloc pdealloc b)"
  unfolding simple_deallocation_def
proof (rule returns_bind [OF box_new_ok [OF assms]], clarify)
  fix x b1
  assume 1: "live x = None" "stocked pinv mark mapped got c (Suc d) e b1 (live(x \<mapsto> i32_layout))"
  then have "(live(x \<mapsto> i32_layout))(x := None) = live" by (auto simp: fun_upd_idem)
  then show "returns (out_of_memory got) (\<lambda>b'. stocked pinv mark mapped got (Suc c) d e b' live) (byte_dealloc p pdealloc b1 x i32_layout)"
    using box_drop_ok [OF 1(2), of x p] by auto
qed

lemma page_deallocation_ok:
  assumes "stocked pinv mark mapped got c d (Suc e) b live"
  shows "returns {alloc_error} (\<lambda>b'. stocked pinv mark mapped got c d e b' live) (page_deallocation p palloc pdealloc b)"
proof -
  let ?l = "\<lparr>l_size = 8192, l_align = 1\<rparr>"
  have l: "list_index ?l = None" "layout_ok ?l"
    by (simp_all add: list_index_None_iff layout_ok_def MAX_PAGES_def exI [of _ 0])
  then obtain a b' where r: "byte_alloc p palloc b ?l = Inr (a, b')"
      "a \<noteq> 0 \<longrightarrow> live a = None \<and> stocked pinv mark mapped got c d e b' (live(a \<mapsto> ?l))"
    using alloc_large_class [of got c d e ?l b live p] assms by auto
  show ?thesis
  proof (cases "a = 0")
    case False
    let ?m = "write_bytes a (replicate 8192 0) (heap_bytes b')"
    have "stocked pinv mark mapped got c d e (b'\<lparr>heap_bytes := ?m\<rparr>) (live(a \<mapsto> ?l))"
      using r(2) False by (intro stocked_write(1) [where a = a and l = ?l] write_outside) auto
    moreover have "(live(a \<mapsto> ?l))(a := None) = live" using r(2) False by (auto simp: fun_upd_idem)
    ultimately show ?thesis
      using dealloc_large_class [of got c d e "b'\<lparr>heap_bytes := ?m\<rparr>" "live(a \<mapsto> ?l)" a ?l p] r(1) False l(1)
      by (auto simp: page_deallocation_def alloc_or_panic_def)
  qed (use r in \<open>simp add: page_deallocation_def alloc_or_panic_def\<close>)
qed

end

text \<open>A vector with the elements \<open>xs\<close>, the only block in use besides those of \<open>base\<close>.\<close>

definition vec_holds :: "(nat \<rightharpoonup> layout) \<Rightarrow> vec \<Rightarrow> u64 list \<Rightarrow> 'pa byte_heap \<Rightarrow> (nat \<rightharpoonup> layout) \<Rightarrow> bool" where
  "vec_holds base v xs b live \<longleftrightarrow> v_len v = length xs \<and> v_len v \<le> v_cap v \<and> (\<forall>i<length xs. vec_get b v i = xs ! i) \<and>
     (if v_cap v = 0 then live = base else base (v_ptr v) = None \<and> live = base(v_ptr v \<mapsto> vec_layout (v_cap v)))"

lemma vec_layout_class:
  assumes "4 \<le> cap" and "8 * cap \<le> MAX_PAGES * 4096"
  shows "layout_ok (vec_layout cap)" "list_index (vec_layout cap) \<noteq> Some 0" "list_index (vec_layout cap) = None \<longleftrightarrow> 256 < cap"
proof -
  show "layout_ok (vec_layout cap)" using assms by (simp add: layout_ok_def vec_layout_def MAX_PAGES_def exI [of _ 3])
  show "list_index (vec_layout cap) \<noteq> Some 0" using assms by (simp add: list_index_def vec_layout_def BLOCK_SIZES_def)
  show "list_index (vec_layout cap) = None \<longleftrightarrow> 256 < cap" by (auto simp: list_index_None_iff vec_layout_def)
qed

context page_source
begin

lemma realloc_ok:
  assumes st: "stocked pinv mark mapped got c d (e + (if 256 < cap' then 1 else 0)) b (base(a \<mapsto> vec_layout cap))"
    and cap: "4 \<le> cap" "cap \<le> cap'" "8 * cap' \<le> MAX_PAGES * 4096" and base: "base a = None"
  shows "\<exists>a' b'. realloc p palloc pdealloc b a (vec_layout cap) (8 * cap') = Inr (a', b') \<and> (a' \<noteq> 0 \<longrightarrow> base a' = None \<and>
    stocked pinv mark mapped got c d e b' (base(a' \<mapsto> vec_layout cap')) \<and>
    (\<forall>i<cap. bytes_at (a' + 8 * i) 8 (heap_bytes b') = bytes_at (a + 8 * i) 8 (heap_bytes b)))"
proof -
  let ?l = "vec_layout cap" and ?l' = "vec_layout cap'" and ?live = "base(a \<mapsto> vec_layout cap)"
  have l': "\<lparr>l_size = 8 * cap', l_align = l_align ?l\<rparr> = ?l'" "min (l_size ?l) (8 * cap') = 8 * cap" using cap(2) by (simp_all add: vec_layout_def)
  have cls: "layout_ok ?l'" "list_index ?l' \<noteq> Some 0" "list_index ?l' = None \<longleftrightarrow> 256 < cap'" "list_index ?l \<noteq> Some 0"
    using vec_layout_class [of cap'] vec_layout_class(2) [of cap] cap by simp_all
  obtain a' b1 where r: "byte_alloc p palloc b ?l' = Inr (a', b1)" "a' \<noteq> 0 \<longrightarrow> ?live a' = None \<and> keeps ?live b b1 \<and>
      stocked pinv mark mapped got c d e b1 (?live(a' \<mapsto> ?l'))"
    using alloc_large_class [of got c d e ?l' b ?live p, OF _ cls(1,2)] st unfolding cls(3) by blast
  show ?thesis
  proof (cases "a' = 0")
    case False
    let ?b2 = "b1\<lparr>heap_bytes := write_bytes a' (bytes_at a (8 * cap) (heap_bytes b1)) (heap_bytes b1)\<rparr>"
    have a': "a' \<noteq> a" "base a' = None" using r(2) False by (auto split: if_splits)
    have st2: "stocked pinv mark mapped got c d e ?b2 (?live(a' \<mapsto> ?l'))"
      by (rule stocked_write(1) [where a = a' and l = ?l'])
        (use r(2) False cap(2) in \<open>auto intro!: write_outside(3) simp: vec_layout_def\<close>)
    have live: "(?live(a' \<mapsto> ?l'))(a := None) = base(a' \<mapsto> ?l')" using a'(1) base by (auto simp: fun_eq_iff)
    have "(?live(a' \<mapsto> ?l')) a = Some ?l" using a'(1) by simp
    from dealloc_large_class [OF st2 this cls(4), of p, unfolded live]
    obtain b3 where b3: "byte_dealloc p pdealloc ?b2 a ?l = Inr b3" "keeps (base(a' \<mapsto> ?l')) ?b2 b3"
        "stocked pinv mark mapped got c d e b3 (base(a' \<mapsto> ?l'))" by blast
    have "bytes_at (a' + 8 * i) 8 (heap_bytes b3) = bytes_at (a + 8 * i) 8 (heap_bytes b)" if "i < cap" for i
    proof -
      have "bytes_at (a' + 8 * i) 8 (heap_bytes b3) = bytes_at (a' + 8 * i) 8 (heap_bytes ?b2)"
        using keeps_bytes_at [OF b3(2), of a' ?l' "8 * i" 8] that cap(2) by (simp add: vec_layout_def)
      also have "\<dots> = bytes_at (a + 8 * i) 8 (heap_bytes b1)" using that by (simp add: bytes_at_copy)
      also have "\<dots> = bytes_at (a + 8 * i) 8 (heap_bytes b)"
        using keeps_bytes_at [of ?live b b1 a ?l "8 * i" 8] r(2) False that by (simp add: vec_layout_def)
      finally show ?thesis .
    qed
    then show ?thesis using r(1) False a' b3 by (simp add: realloc_def l' Let_def)
  qed (use r(1) in \<open>simp add: realloc_def l'\<close>)
qed

lemma grow_one_ok:
  assumes st: "stocked pinv mark mapped got c d (e + (if v_cap v = 256 then 1 else 0)) b live" and v: "vec_holds base v xs b live"
    and cap: "v_cap v \<in> {0, 4, 8, 16, 32, 64, 128, 256}"
  shows "returns {alloc_error} (\<lambda>(v', b'). \<exists>live'. stocked pinv mark mapped got c d e b' live' \<and> vec_holds base v' xs b' live' \<and>
    v_cap v' = max 4 (2 * v_cap v)) (grow_one p palloc pdealloc v b)"
proof -
  let ?cap = "max 4 (2 * v_cap v)"
  have c: "4 \<le> ?cap" "8 * ?cap \<le> MAX_PAGES * 4096" "max 4 (max (2 * v_cap v) (v_cap v + 1)) = ?cap" "\<not> 2 ^ 63 - 1 < 8 * ?cap"
      "256 < ?cap \<longleftrightarrow> v_cap v = 256" "v_cap v \<noteq> 0 \<longrightarrow> 4 \<le> v_cap v" "v_cap v \<le> ?cap" "0 < ?cap"
    using cap by (auto simp: MAX_PAGES_def)
  note cls = vec_layout_class [OF c(1,2)]
  let ?run = "if v_cap v = 0 then byte_alloc p palloc b (vec_layout ?cap) else realloc p palloc pdealloc b (v_ptr v) (vec_layout (v_cap v)) (8 * ?cap)"
  have "\<exists>a b'. ?run = Inr (a, b') \<and> (a \<noteq> 0 \<longrightarrow> base a = None \<and> stocked pinv mark mapped got c d e b' (base(a \<mapsto> vec_layout ?cap)) \<and>
      (\<forall>i<v_cap v. bytes_at (a + 8 * i) 8 (heap_bytes b') = bytes_at (v_ptr v + 8 * i) 8 (heap_bytes b)))"
  proof (cases "v_cap v = 0")
    case True
    then have "live = base" using v by (simp add: vec_holds_def)
    then show ?thesis using alloc_large_class [of got c d e "vec_layout ?cap" b base p, OF _ cls(1,2)] st True cls(3) by auto
  next
    case False
    then have "base (v_ptr v) = None" "live = base(v_ptr v \<mapsto> vec_layout (v_cap v))" using v by (simp_all add: vec_holds_def)
    then show ?thesis using realloc_ok [of got c d e ?cap b base "v_ptr v" "v_cap v" p] st c False by simp
  qed
  then obtain a b' where r: "?run = Inr (a, b')" "a \<noteq> 0 \<Longrightarrow> base a = None" "a \<noteq> 0 \<Longrightarrow> stocked pinv mark mapped got c d e b' (base(a \<mapsto> vec_layout ?cap))"
      "\<And>i. a \<noteq> 0 \<Longrightarrow> i < v_cap v \<Longrightarrow> bytes_at (a + 8 * i) 8 (heap_bytes b') = bytes_at (v_ptr v + 8 * i) 8 (heap_bytes b)" by blast
  have run: "grow_one p palloc pdealloc v b = (if a = 0 then Inl alloc_error else Inr (v\<lparr>v_ptr := a, v_cap := ?cap\<rparr>, b'))"
    unfolding grow_one_def c(3) Let_def r(1) using c(4) by simp
  have "vec_holds base (v\<lparr>v_ptr := a, v_cap := ?cap\<rparr>) xs b' (base(a \<mapsto> vec_layout ?cap))" if "a \<noteq> 0"
    using v r(2,4) [OF that] c(7,8) by (auto simp: vec_holds_def vec_get_def)
  then show ?thesis unfolding run using r(3) by auto
qed

lemma vec_push_ok:
  assumes st: "stocked pinv mark mapped got c d (e + (if v_cap v < 512 then 1 else 0)) b live" and v: "vec_holds base v xs b live"
    and cap: "v_cap v \<in> {0, 4, 8, 16, 32, 64, 128, 256, 512}" and len: "length xs < 512"
  shows "returns {alloc_error} (\<lambda>(v', b'). \<exists>live'. stocked pinv mark mapped got c d (e + (if v_cap v' < 512 then 1 else 0)) b' live' \<and>
    vec_holds base v' (xs @ [x]) b' live' \<and> v_cap v' \<in> {0, 4, 8, 16, 32, 64, 128, 256, 512}) (vec_push p palloc pdealloc x (v, b))"
  unfolding vec_push_def prod.case
proof (rule returns_bind [where Q = "\<lambda>(v', b'). \<exists>live'. stocked pinv mark mapped got c d (e + (if v_cap v' < 512 then 1 else 0)) b' live' \<and>
    vec_holds base v' xs b' live' \<and> length xs < v_cap v' \<and> v_cap v' \<in> {4, 8, 16, 32, 64, 128, 256, 512}"], goal_cases)
  case 1
  show ?case
  proof (cases "v_len v = v_cap v")
    case True
    then have small: "v_cap v \<in> {0, 4, 8, 16, 32, 64, 128, 256}" using cap v len by (auto simp: vec_holds_def)
    then have e: "e + (if v_cap v < 512 then 1 else 0) = (e + (if max 4 (2 * v_cap v) < 512 then 1 else 0)) + (if v_cap v = 256 then 1 else 0)" by auto
    define cap where "cap = max 4 (2 * v_cap v)"
    have "returns {alloc_error} (\<lambda>(v', b'). \<exists>live'. stocked pinv mark mapped got c d (e + (if cap < 512 then 1 else 0)) b' live' \<and>
        vec_holds base v' xs b' live' \<and> v_cap v' = cap) (grow_one p palloc pdealloc v b)"
      unfolding cap_def by (rule grow_one_ok [OF st [unfolded e] v small])
    moreover have "length xs < cap" "cap \<in> {4, 8, 16, 32, 64, 128, 256, 512}"
      using True v small by (auto simp: cap_def vec_holds_def)
    ultimately show ?thesis using True by (auto elim!: returns_mono simp del: insert_iff)
  next
    case False
    then have "length xs < v_cap v" "v_cap v \<in> {4, 8, 16, 32, 64, 128, 256, 512}" using v cap by (auto simp: vec_holds_def)
    then show ?thesis using False st v by auto
  qed
next
  case (2 r)
  obtain v' b' where r: "r = (v', b')" by (cases r)
  then obtain live' where st': "stocked pinv mark mapped got c d (e + (if v_cap v' < 512 then 1 else 0)) b' live'"
    and v': "vec_holds base v' xs b' live'" "length xs < v_cap v'" "v_cap v' \<in> {4, 8, 16, 32, 64, 128, 256, 512}" using 2 by auto
  let ?m = "write_u64 (v_ptr v' + 8 * v_len v') x (heap_bytes b')"
  have live: "live' (v_ptr v') = Some (vec_layout (v_cap v'))" and len: "v_len v' = length xs" using v' by (auto simp: vec_holds_def)
  have "stocked pinv mark mapped got c d (e + (if v_cap v' < 512 then 1 else 0)) (b'\<lparr>heap_bytes := ?m\<rparr>) live'"
    using v'(2) len by (intro stocked_write(1) [OF st' live] write_outside) (auto simp: vec_layout_def)
  moreover have "vec_get (b'\<lparr>heap_bytes := ?m\<rparr>) (v'\<lparr>v_len := v_len v' + 1\<rparr>) i = (xs @ [x]) ! i" if "i < length (xs @ [x])" for i
    using that v'(1) by (cases "i < length xs") (auto simp: vec_get_def vec_holds_def nth_append bytes_at_write_other le_read_bytes less_Suc_eq)
  then have "vec_holds base (v'\<lparr>v_len := v_len v' + 1\<rparr>) (xs @ [x]) (b'\<lparr>heap_bytes := ?m\<rparr>) live'"
    using v' by (auto simp: vec_holds_def)
  ultimately show ?case unfolding r using v'(3) by auto
qed

lemma vec_pushes_ok:
  assumes "stocked pinv mark mapped got c d (Suc e) b base" and "n \<le> 512"
  shows "returns {alloc_error} (\<lambda>(v, b'). \<exists>live. stocked pinv mark mapped got c d e b' live \<and> vec_holds base v (map of_nat [0..<n]) b' live \<and>
    (v_cap v = 0 \<or> 4 \<le> v_cap v \<and> v_cap v \<le> 512)) (for_each (\<lambda>i. vec_push p palloc pdealloc (of_nat i)) [0..<n] (vec_new, b))"
proof -
  let ?I = "\<lambda>k (v, b'). \<exists>live. stocked pinv mark mapped got c d (e + (if v_cap v < 512 then 1 else 0)) b' live \<and>
    vec_holds base v (map of_nat [0..<k]) b' live \<and> v_cap v \<in> {0, 4, 8, 16, 32, 64, 128, 256, 512}"
  have "returns {alloc_error} (?I (length [0..<n])) (for_each (\<lambda>i. vec_push p palloc pdealloc (of_nat i)) [0..<n] (vec_new, b))"
  proof (rule returns_for_each)
    show "?I 0 (vec_new, b)" using assms(1) by (simp add: vec_new_def vec_holds_def)
  next
    fix k s assume k: "k < length [0..<n]" and "?I k s"
    moreover obtain v b' where s: "s = (v, b')" by (cases s)
    ultimately obtain live where v: "stocked pinv mark mapped got c d (e + (if v_cap v < 512 then 1 else 0)) b' live"
        "vec_holds base v (map of_nat [0..<k]) b' live" "v_cap v \<in> {0, 4, 8, 16, 32, 64, 128, 256, 512}" by auto
    show "returns {alloc_error} (?I (Suc k)) (vec_push p palloc pdealloc (of_nat ([0..<n] ! k)) s)"
      unfolding s using vec_push_ok [OF v, of "of_nat k" p] k assms(2) by simp
  qed
  then show ?thesis
  proof (rule returns_mono)
    fix s assume "?I (length [0..<n]) s"
    then show "case s of (v, b') \<Rightarrow> \<exists>live. stocked pinv mark mapped got c d e b' live \<and> vec_holds base v (map of_nat [0..<n]) b' live \<and>
        (v_cap v = 0 \<or> 4 \<le> v_cap v \<and> v_cap v \<le> 512)"
      by (fastforce simp: stocked_def)
  qed simp
qed

end

lemma sum_below: "2 * (\<Sum>i<n. i) = n * (n - 1 :: nat)"
proof (induction n)
  case (Suc n)
  then show ?case by (cases n) simp_all
qed simp

lemma vec_sum_ok:
  assumes "vec_holds base v (map of_nat [0..<n]) b live" and "n \<le> 512"
  shows "vec_sum p b v = Inr (\<Sum>i<n. i)"
proof -
  have "for_each (\<lambda>i acc. u64_add p acc (unat (vec_get b v i))) [0..<k] 0 = Inr (\<Sum>i<k. i)" if "k \<le> n" for k
    using that
  proof (induction k)
    case (Suc k)
    have "unat (vec_get b v k) = k"
      using assms Suc.prems by (auto simp: vec_holds_def unsigned_of_nat take_bit_nat_eq_self_iff)
    moreover have "(\<Sum>i<k. i) \<le> (\<Sum>i<k. 512)" using assms(2) Suc.prems by (intro sum_mono) auto
    ultimately show ?case using Suc assms(2) by (simp add: for_each_append u64_add_ok)
  qed simp
  then show ?thesis using assms(1) by (simp add: vec_sum_def vec_holds_def)
qed

context page_source
begin

lemma large_vec_ok:
  assumes "stocked pinv mark mapped got c d (Suc e) b (\<lambda>_. None)"
  shows "returns {alloc_error} (\<lambda>b'. stocked pinv mark mapped got c d e b' (\<lambda>_. None)) (large_vec p palloc pdealloc b)"
  unfolding large_vec_def Let_def
proof (rule returns_bind [OF vec_pushes_ok [OF assms]], simp, clarify)
  fix v b' live
  assume v: "stocked pinv mark mapped got c d e b' live" "vec_holds (\<lambda>_. None) v (map of_nat [0..<500]) b' live" "v_cap v = 0 \<or> 4 \<le> v_cap v \<and> v_cap v \<le> 512"
  have "vec_sum p b' v = Inr (\<Sum>i<500. i)" by (rule vec_sum_ok [OF v(2)]) simp
  also have "(\<Sum>i<500. i) = (124750 :: nat)" using sum_below [of 500] by simp
  finally have sum: "vec_sum p b' v = Inr 124750" .
  have "0 < v_cap v" using v(2) by (auto simp: vec_holds_def)
  then have "live (v_ptr v) = Some (vec_layout (v_cap v))" "live(v_ptr v := None) = (\<lambda>_. None)" "list_index (vec_layout (v_cap v)) \<noteq> Some 0"
    using v(2,3) vec_layout_class(2) [of "v_cap v"] by (auto simp: vec_holds_def MAX_PAGES_def)
  then obtain b2 where "vec_drop p pdealloc v b' = Inr b2" "stocked pinv mark mapped got c d e b2 (\<lambda>_. None)"
    using dealloc_large_class [OF v(1), of "v_ptr v" "vec_layout (v_cap v)" p] \<open>0 < v_cap v\<close> by (auto simp: vec_drop_def)
  then show "returns {alloc_error} (\<lambda>b'. stocked pinv mark mapped got c d e b' (\<lambda>_. None))
      (and_then (vec_sum p b' v) (\<lambda>sum. and_then (u64_sub p 500 1) (\<lambda>m. and_then (u64_mul p m 500) (\<lambda>k.
        and_then (assert_eq sum (k div 2)) (\<lambda>_. vec_drop p pdealloc v b')))))"
    using sum by (simp add: u64_sub_ok u64_mul_ok assert_eq_def)
qed

end
lemma stocked_mono:
  "stocked pinv mark mapped got c d e b live \<Longrightarrow> c' \<le> c \<Longrightarrow> d' \<le> d \<Longrightarrow> e' \<le> e \<Longrightarrow> stocked pinv mark mapped got c' d' e' b live"
  unfolding stocked_def by (meson add_left_mono le_trans)

context page_source
begin

lemma stocked_init:
  assumes "pinv pa"
  shows "\<exists>b pa'. byte_heap_init p palloc (byte_boot m g) pa = Inr (b, pa') \<and>
    stocked pinv mark mapped (list_heads b ! 0 \<noteq> None) 512 4096 512 (b\<lparr>page_cell := Some pa'\<rparr>) (\<lambda>_. None)"
  using byte_heap_init_total [OF assms, of p m g] by (fastforce simp: stocked_def MAX_LIST_LENGTH_def)

lemma allocation_tests_ok:
  assumes "stocked pinv mark mapped got 2 (nth [2003, 2001, 2001, 1001, 0] i) (nth [1, 1, 0, 0, 0] i) b (\<lambda>_. None)" and "i < 4"
  shows "returns (if i = 1 then {alloc_error} else out_of_memory got)
    (\<lambda>b'. stocked pinv mark mapped got 2 (nth [2003, 2001, 2001, 1001, 0] (Suc i)) (nth [1, 1, 0, 0, 0] (Suc i)) b' (\<lambda>_. None))
    (snd (heap_allocation_tests p palloc pdealloc ! i) b)"
proof -
  consider "i = 0" | "i = 1" | "i = 2" | "i = 3" using assms(2) by linarith
  then show ?thesis
  proof cases
    case 1
    then show ?thesis using simple_allocation_ok [of got 0 2001 1 b "\<lambda>_. None" p] assms(1) by (simp add: heap_allocation_tests_def numeral_2_eq_2)
  next
    case 2
    then show ?thesis using large_vec_ok [of got 2 2001 0 b p] assms(1) by (simp add: heap_allocation_tests_def)
  next
    case 3
    then show ?thesis
      using box_rounds_ok [of got 1 "[0..<1000]" 1001 0 b "\<lambda>_. None" p] assms(1)
      by (auto simp: heap_allocation_tests_def many_boxes_def numeral_2_eq_2 elim!: returns_mono simp del: upt_conv_Cons)
  next
    case 4
    then show ?thesis using many_boxes_long_lived_ok [of got 0 0 0 b "\<lambda>_. None" p] assms(1) by (simp add: heap_allocation_tests_def numeral_2_eq_2)
  qed
qed

lemma deallocation_tests_ok:
  assumes "stocked pinv mark mapped got 1 (1 - i) (if i < 2 then 1 else 0) b (\<lambda>_. None)" and "i < 2"
  shows "returns (if i = 1 then {alloc_error} else out_of_memory got)
    (\<lambda>b'. stocked pinv mark mapped got 1 (1 - Suc i) (if Suc i < 2 then 1 else 0) b' (\<lambda>_. None))
    (snd (heap_deallocation_tests p palloc pdealloc ! i) b)"
proof (cases "i = 0")
  case True
  then show ?thesis using simple_deallocation_ok [of got 0 0 1 b "\<lambda>_. None" p] assms(1) by (simp add: heap_deallocation_tests_def)
next
  case False
  then have "i = 1" using assms(2) by simp
  then show ?thesis using page_deallocation_ok [of got 1 0 0 b "\<lambda>_. None" p] assms(1) by (simp add: heap_deallocation_tests_def)
qed

end
lemma suite_runs:
  assumes P: "page_source palloc pdealloc pinv mark mapped" and st: "stocked pinv mark mapped got 512 4096 512 b (\<lambda>_. None)"
    and ts: "ts \<in> {heap_allocation_tests p palloc pdealloc, heap_deallocation_tests p palloc pdealloc}" and b: "machine s = b"
  shows "(\<exists>s'. for_each testable_run ts s = Inr s' \<and> exits s' = exits s \<and>
      serial s' = serial s @ concat (map (\<lambda>t. [Test_Name (fst t), Test_Ok]) ts)) \<or>
    (\<exists>i<length ts. \<exists>s'. for_each testable_run ts s = Inl (alloc_error, s') \<and> exits s' = exits s \<and> (got \<longrightarrow> i = 1) \<and>
      serial s' = serial s @ concat (map (\<lambda>t. [Test_Name (fst t), Test_Ok]) (take i ts)) @ [Test_Name (fst (ts ! i))])"
proof -
  let ?E = "\<lambda>i. if i = 1 then {alloc_error} else out_of_memory got"
  have E: "e = alloc_error \<and> (got \<longrightarrow> i = 1)" if "e \<in> ?E i" for e and i :: nat using that by (auto simp: out_of_memory_def split: if_splits)
  have "(\<exists>s'. for_each testable_run ts s = Inr s' \<and> exits s' = exits s \<and>
      serial s' = serial s @ concat (map (\<lambda>t. [Test_Name (fst t), Test_Ok]) ts)) \<or>
    (\<exists>i<length ts. \<exists>e\<in>?E i. \<exists>s'. for_each testable_run ts s = Inl (e, s') \<and> exits s' = exits s \<and>
      serial s' = serial s @ concat (map (\<lambda>t. [Test_Name (fst t), Test_Ok]) (take i ts)) @ [Test_Name (fst (ts ! i))])"
  proof (cases "ts = heap_allocation_tests p palloc pdealloc")
    case True
    let ?I = "\<lambda>i b. stocked pinv mark mapped got 2 (nth [2003, 2001, 2001, 1001, 0] i) (nth [1, 1, 0, 0, 0] i) b (\<lambda>_. None)"
    have "length ts = 4" using True by (simp add: heap_allocation_tests_def)
    then have "\<forall>i b. i < length ts \<longrightarrow> ?I i b \<longrightarrow> returns (?E i) (?I (Suc i)) (snd (ts ! i) b)"
      using page_source.allocation_tests_ok [OF P, of got _ _ p] True by auto
    moreover have "?I 0 (machine s)" using stocked_mono [OF st, of 2 2003 1] b by simp
    ultimately show ?thesis using run_tests [of ts ?I ?E s] by blast
  next
    case False
    then have ts: "ts = heap_deallocation_tests p palloc pdealloc" using ts by simp
    let ?I = "\<lambda>i b. stocked pinv mark mapped got 1 (1 - i) (if i < 2 then 1 else 0) b (\<lambda>_. None)"
    have "length ts = 2" using ts by (simp add: heap_deallocation_tests_def)
    then have "\<forall>i b. i < length ts \<longrightarrow> ?I i b \<longrightarrow> returns (?E i) (?I (Suc i)) (snd (ts ! i) b)"
      using page_source.deallocation_tests_ok [OF P, of got _ _ p] ts by auto
    moreover have "?I 0 (machine s)" using stocked_mono [OF st, of 1 1 1] b by simp
    ultimately show ?thesis using run_tests [of ts ?I ?E s] by blast
  qed
  then show ?thesis
  proof (elim disjE exE conjE bexE)
    fix i e s'
    assume i: "i < length ts" "e \<in> ?E i" "for_each testable_run ts s = Inl (e, s')" "exits s' = exits s"
      "serial s' = serial s @ concat (map (\<lambda>t. [Test_Name (fst t), Test_Ok]) (take i ts)) @ [Test_Name (fst (ts ! i))]"
    then show ?thesis using E [OF i(2)] by blast
  qed blast
qed

context bootable
begin

lemma heap_test_init_ok:
  obtains k b free0 where "heap_test_init p P (boot_mem bi) k0 (byte_boot m g) = Inr (k, b)"
    and "stocked (pa_inv free0 (free_frames (bit_ops P)) (bfa_inv (bit_ops P)) managed_frames mapping) current_virt (heap_pages mapping)
      (list_heads b ! 0 \<noteq> None) 512 4096 512 b (\<lambda>_. None)"
proof -
  obtain k where k: "init_gdt_idt P k0 = Inr k" "mem_state k = mem_state k0"
  proof -
    obtain sg where "gdt_init (addr_ops P) (segment_ops P) (STACK P) (segments k0) = Inr sg"
      using gdt_init_tss [OF gdt(1) paging.axioms(1) [OF paging] gdt(2-4)] by blast
    then show thesis using that by (simp add: init_gdt_idt_def init_idt_def)
  qed
  let ?cr3 = "read_cr3 (smp_image P)"
  let ?mapper = "offset_page_table P (offset + cr3_frame ?cr3) offset"
  obtain al ill where init: "bitmap_init p (bit_ops P) (boot_bytes P) (ILLEGAL_REGIONS (mem_state k0)) (memory_regions (boot_mem bi)) offset =
      Inr (al, ill)" "bfa_inv (bit_ops P) al"
    using bitmap_init_safe [OF bits map, of p "boot_bytes P"] by blast
  let ?inv = "pa_inv (free_frames (bit_ops P) al) (free_frames (bit_ops P)) (bfa_inv (bit_ops P)) managed_frames mapping"
  let ?pa = "page_allocator_new ?mapper al KERNEL_HEAP_START KERNEL_HEAP_END"
  have pa: "?inv ?pa" by (rule page_allocator_new_inv) (use init(2) unmapped in auto)
  note src = paging.pages_page_source [OF paging, of p "free_frames (bit_ops P) al"]
  obtain b pa' where b: "byte_heap_init p (page_alloc p (addr_ops P) (paging_ops P)) (byte_boot m (Some ?pa)) ?pa = Inr (b, pa')"
      "stocked ?inv current_virt (heap_pages mapping) (list_heads b ! 0 \<noteq> None) 512 4096 512 (b\<lparr>page_cell := Some pa'\<rparr>) (\<lambda>_. None)"
    using page_source.stocked_init [OF src pa, of p m "Some ?pa"] by blast
  have "virt_addr_new (addr_ops P) offset = Inr offset" "memory_init (addr_ops P) (offset_page_table P) ?cr3 offset = Inr ?mapper"
    using x86_addr.virt_new_ok [OF paging.axioms(1) [OF paging] boot(2)] x86_addr.virt_add_ok [OF paging.axioms(1) [OF paging] boot(4)]
    by (simp_all add: memory_init_def active_level_4_table_def)
  moreover have "byte_boot m g\<lparr>page_cell := Some ?pa\<rparr> = byte_boot m (Some ?pa)" by (simp add: byte_boot_def with_bytes_def heap_boot_def)
  ultimately have "heap_test_init p P (boot_mem bi) k0 (byte_boot m g) =
      Inr (k\<lparr>mem_state := (mem_state k)\<lparr>ILLEGAL_REGIONS := ill\<rparr>\<rparr>, b\<lparr>page_cell := Some pa'\<rparr>)"
    using k boot(1) init(1) b(1) by (simp add: heap_test_init_def init_page_allocator_def)
  then show thesis using b(2) by (intro that) auto
qed

end

section \<open>Properties\<close>

text \<open>
  C6. The heap passes its tests. On a bootable machine the test kernels of \<^verbatim>\<open>heap_allocation.rs\<close> and \<^verbatim>\<open>heap_deallocation.rs\<close>
  bring up the memory, and then every value that their tests put into boxes and vectors is read back as it was written, also after 1000 other
  boxes and after the vector has moved: each test is reported as passed and QEMU is left with the code for success. The
  one thing that can go wrong is that memory runs out; and if the heap got its first page, then only in the second test
  of each kernel (the vector of 500 numbers and the block of two pages), with those before it reported as passed.
\<close>

theorem heap_tests_pass:
  assumes "bootable P bi k0 offset pl apic mapping elems cap room slots"
    and "ts \<in> {heap_allocation_tests p (page_alloc p (addr_ops P) (paging_ops P)) (page_dealloc p (addr_ops P) (paging_ops P)),
      heap_deallocation_tests p (page_alloc p (addr_ops P) (paging_ops P)) (page_dealloc p (addr_ops P) (paging_ops P))}"
  shows "\<exists>k b. heap_test_init p P (boot_mem bi) k0 (byte_boot m g) = Inr (k, b) \<and>
    (let out = heap_test_main p P ts (boot_mem bi) k0 \<lparr>serial = [], exits = [], machine = byte_boot m g\<rparr>;
         passed = (\<lambda>ts. concat (map (\<lambda>t. [Test_Name (fst t), Test_Ok]) ts)) in
     serial out = Running_Tests (length ts) # passed ts @ [Tests_Returned Success] \<and> exits out = [Port_Out32 0xf4 0x10] \<or>
     (\<exists>i<length ts. (list_heads b ! 0 \<noteq> None \<longrightarrow> i = 1) \<and> exits out = [Port_Out32 0xf4 0x11] \<and>
       serial out = Running_Tests (length ts) # passed (take i ts) @
         [Test_Name (fst (ts ! i)), Test_Failed, Error_Message alloc_error, Tests_Returned Failed]))"
proof -
  obtain k b free0 where k: "heap_test_init p P (boot_mem bi) k0 (byte_boot m g) = Inr (k, b)"
    and st: "stocked (pa_inv free0 (free_frames (bit_ops P)) (bfa_inv (bit_ops P)) managed_frames mapping) current_virt (heap_pages mapping)
      (list_heads b ! 0 \<noteq> None) 512 4096 512 b (\<lambda>_. None)"
    by (rule bootable.heap_test_init_ok [OF assms(1)])
  have "paging (addr_ops P) (paging_ops P) (free_frames (bit_ops P)) (bfa_inv (bit_ops P)) managed_frames mapping"
    using assms(1) by (rule bootable.paging)
  note src = paging.pages_page_source [OF this, of p free0]
  let ?s = "\<lparr>serial = [Running_Tests (length ts)], exits = [], machine = b\<rparr>"
  have "(\<exists>s'. for_each testable_run ts ?s = Inr s' \<and> exits s' = [] \<and>
      serial s' = Running_Tests (length ts) # concat (map (\<lambda>t. [Test_Name (fst t), Test_Ok]) ts)) \<or>
    (\<exists>i<length ts. \<exists>s'. for_each testable_run ts ?s = Inl (alloc_error, s') \<and> exits s' = [] \<and> (list_heads b ! 0 \<noteq> None \<longrightarrow> i = 1) \<and>
      serial s' = Running_Tests (length ts) # concat (map (\<lambda>t. [Test_Name (fst t), Test_Ok]) (take i ts)) @ [Test_Name (fst (ts ! i))])"
    using suite_runs [OF src st assms(2), of ?s] by simp
  then show ?thesis using k
    by (elim disjE exE conjE) (auto simp: heap_test_main_def test_main_def test_runner_def serial_println_def exit_qemu_def test_panic_handler_def Let_def)
qed

theorem heap_tests_pass_witness:
  "let ts = heap_allocation_tests Debug (page_alloc Debug x86_std (kernel_traits Debug)) (page_dealloc Debug x86_std (kernel_traits Debug));
     out = heap_test_main Debug (example_ops Debug) ts (boot_mem example_boot) power_on
       \<lparr>serial = [], exits = [], machine = byte_boot (\<lambda>_. 0) None\<rparr> in
   exits out = [Port_Out32 0xf4 0x10] \<and> length (serial out) = 10 \<or> exits out = [Port_Out32 0xf4 0x11] \<and> length (serial out) \<le> 11"
  using heap_tests_pass [OF example_machine.bootable_axioms [of Debug], of
      "heap_allocation_tests Debug (page_alloc Debug x86_std (kernel_traits Debug)) (page_dealloc Debug x86_std (kernel_traits Debug))" Debug "\<lambda>_. 0" None]
  by (auto simp: example_ops_def heap_allocation_tests_def Let_def less_Suc_eq)

end
