(* ===== verification/Ap_Trampoline.thy ===== *)
theory Ap_Trampoline
  imports Smp_Startup
begin

text \<open>
  The code a started processor runs first (\<^verbatim>\<open>kernel/src/smp/ap_trampoline.asm\<close>): from real mode
  through protected mode to 64-bit code, on the part of an x86 processor it uses. An instruction is a
  function on the state of the processor that may fault; each label of the assembly with code behind
  it is a block of instructions that ends in a jump.

  The limits of the segments, which are the greatest possible, are not checked, and the privilege
  level is always 0. Memory is physical; once paging is on, addresses go through the page walk, a
  parameter.
\<close>

unbundle bit_operations_syntax

section \<open>The processor\<close>

datatype fault = GP | NP | SS_Fault | PF

datatype gpr = RAX | RCX | RDX | RSP
datatype creg = CR0 | CR3 | CR4
datatype sreg = CS | DS | ES | SS

text \<open>A segment register with the part of its descriptor the processor keeps.\<close>

record segment =
  selector :: u16
  seg_base :: nat
  seg_long :: bool
  seg_32 :: bool

record ap_cpu =
  gprs :: "gpr \<Rightarrow> u64"
  cregs :: "creg \<Rightarrow> u64"
  efer :: u64
  gdtr_base :: nat
  gdtr_limit :: nat
  sregs :: "sreg \<Rightarrow> segment"
  ram :: "nat \<Rightarrow> u8"

abbreviation protected_mode :: "ap_cpu \<Rightarrow> bool" where "protected_mode c \<equiv> bit (cregs c CR0) 0"
abbreviation paging_on :: "ap_cpu \<Rightarrow> bool" where "paging_on c \<equiv> bit (cregs c CR0) 31"
abbreviation lme :: "ap_cpu \<Rightarrow> bool" where "lme c \<equiv> bit (efer c) 8"
abbreviation long_mode :: "ap_cpu \<Rightarrow> bool" where "long_mode c \<equiv> bit (efer c) 10"

definition code_bits :: "ap_cpu \<Rightarrow> nat" where
  "code_bits c = (if long_mode c \<and> seg_long (sregs c CS) then 64 else if seg_32 (sregs c CS) then 32 else 16)"

text \<open>
  The symbols of the assembly. The assembler and the build choose which number a symbol is in the
  image and the loader where what it names is in memory, so both are parameters, as is the page walk
  from a root table.
\<close>

datatype symbol =
    Cr3val | Kcode | Kstack | Kgsval | Commword
  | Trampoline | Gdt | Gdt_Ptr | Real_Start | Prot_Start | Long_Start

record asm_env =
  sym :: "symbol \<Rightarrow> nat"
  place :: "symbol \<Rightarrow> nat"
  walk :: "u64 \<Rightarrow> nat \<Rightarrow> nat option"

section \<open>Memory\<close>

definition translate :: "asm_env \<Rightarrow> ap_cpu \<Rightarrow> nat \<Rightarrow> nat option" where
  "translate E c a = (if paging_on c then walk E (cregs c CR3) a else Some a)"

fun translate_all :: "asm_env \<Rightarrow> ap_cpu \<Rightarrow> nat list \<Rightarrow> fault + nat list" where
  "translate_all E c [] = Inr []"
| "translate_all E c (a # as) =
     (case translate E c a of
        None \<Rightarrow> Inl PF
      | Some b \<Rightarrow> and_then (translate_all E c as) (\<lambda>bs. Inr (b # bs)))"

definition load :: "asm_env \<Rightarrow> ap_cpu \<Rightarrow> nat \<Rightarrow> nat \<Rightarrow> fault + u8 list" where
  "load E c a n = and_then (translate_all E c [a..<a + n]) (\<lambda>as. Inr (map (ram c) as))"

definition store :: "asm_env \<Rightarrow> ap_cpu \<Rightarrow> nat \<Rightarrow> u8 list \<Rightarrow> fault + ap_cpu" where
  "store E c a bs =
     and_then (translate_all E c [a..<a + length bs]) (\<lambda>as.
     Inr (c\<lparr>ram := (\<lambda>b. case map_of (zip as bs) b of Some v \<Rightarrow> v | None \<Rightarrow> ram c b)\<rparr>))"

lemma translate_all_flat: "\<not> paging_on c \<Longrightarrow> translate_all E c as = Inr as"
  by (induction as) (simp_all add: translate_def)

lemma translate_all_map:
  "(\<And>a. a \<in> set as \<Longrightarrow> translate E c a = Some (f a)) \<Longrightarrow> translate_all E c as = Inr (map f as)"
  by (induction as) simp_all

lemma load_flat: "\<not> paging_on c \<Longrightarrow> load E c a n = Inr (bytes_at a n (ram c))"
  by (simp add: load_def translate_all_flat bytes_at_def list_eq_iff_nth_eq)

lemma store_flat:
  assumes "\<not> paging_on c"
  shows "store E c a (le_bytes 4 v) = Inr (c\<lparr>ram := write_u32 a v (ram c)\<rparr>)"
proof -
  have "(case map_of (zip [a..<a + 4] (le_bytes 4 v)) b of Some x \<Rightarrow> x | None \<Rightarrow> m b) = write_u32 a v m b" for m b
    by (simp add: write_u32_def le_bytes_def upt_rec [of a] upt_rec [of "Suc _"] eval_nat_numeral) (auto simp: less_Suc_eq)
  then show ?thesis using assms by (simp add: store_def translate_all_flat)
qed

section \<open>Descriptors and segment registers\<close>

definition desc_base :: "u64 \<Rightarrow> nat" where
  "desc_base d = unat ((drop_bit 16 d AND 0xFFFFFF) OR push_bit 24 (drop_bit 56 d AND 0xFF))"

abbreviation desc_readable :: "u64 \<Rightarrow> bool" where "desc_readable d \<equiv> bit d 41"
abbreviation desc_code :: "u64 \<Rightarrow> bool" where "desc_code d \<equiv> bit d 43"
abbreviation desc_user :: "u64 \<Rightarrow> bool" where "desc_user d \<equiv> bit d 44"
abbreviation desc_dpl :: "u64 \<Rightarrow> u64" where "desc_dpl d \<equiv> drop_bit 45 d AND 3"
abbreviation desc_present :: "u64 \<Rightarrow> bool" where "desc_present d \<equiv> bit d 47"
abbreviation desc_long :: "u64 \<Rightarrow> bool" where "desc_long d \<equiv> bit d 53"
abbreviation desc_32 :: "u64 \<Rightarrow> bool" where "desc_32 d \<equiv> bit d 54"

definition segment_of :: "u16 \<Rightarrow> u64 \<Rightarrow> segment" where
  "segment_of sel d = \<lparr>selector = sel, seg_base = desc_base d, seg_long = desc_long d, seg_32 = desc_32 d\<rparr>"

definition fetch_descriptor :: "asm_env \<Rightarrow> ap_cpu \<Rightarrow> u16 \<Rightarrow> fault + u64" where
  "fetch_descriptor E c sel =
     (let i = unat (sel AND 0xFFF8) in
      if gdtr_limit c < i + 7 then Inl GP
      else and_then (load E c (gdtr_base c + i) 8) (\<lambda>bs. Inr (le_read bs)))"

text \<open>
  Loading a data segment register, at privilege level 0, with a selector that asks for level 0. The stack segment has to be
  writable data of the current level; a null selector may be loaded into the others, and into the
  stack segment in 64-bit code.
\<close>

definition load_sreg :: "asm_env \<Rightarrow> sreg \<Rightarrow> u16 \<Rightarrow> ap_cpu \<Rightarrow> fault + ap_cpu" where
  "load_sreg E r sel c =
     (if \<not> protected_mode c
      then Inr (c\<lparr>sregs := (sregs c)(r := (sregs c r)\<lparr>selector := sel, seg_base := 16 * unat sel\<rparr>)\<rparr>)
      else if sel AND 0xFFFC = 0
      then (if r = SS \<and> code_bits c \<noteq> 64 then Inl GP else Inr (c\<lparr>sregs := (sregs c)(r := segment_of sel 0)\<rparr>))
      else and_then (fetch_descriptor E c sel) (\<lambda>d.
        if \<not> desc_user d \<or> desc_code d \<and> \<not> desc_readable d then Inl GP
        else if r = SS \<and> (desc_code d \<or> \<not> desc_readable d \<or> desc_dpl d \<noteq> 0) then Inl GP
        else if \<not> desc_present d then Inl (if r = SS then SS_Fault else NP)
        else Inr (c\<lparr>sregs := (sregs c)(r := segment_of sel d)\<rparr>)))"

definition load_cs :: "asm_env \<Rightarrow> u16 \<Rightarrow> ap_cpu \<Rightarrow> fault + ap_cpu" where
  "load_cs E sel c =
     (if sel AND 0xFFFC = 0 then Inl GP
      else and_then (fetch_descriptor E c sel) (\<lambda>d.
        if \<not> desc_user d \<or> \<not> desc_code d \<or> desc_dpl d \<noteq> 0 then Inl GP
        else if \<not> desc_present d then Inl NP
        else if long_mode c \<and> desc_long d \<and> desc_32 d then Inl GP
        else Inr (c\<lparr>sregs := (sregs c)(CS := segment_of sel d)\<rparr>)))"


section \<open>Instructions\<close>

text \<open>The instructions of the trampoline, in its order of operands, and the jumps that end its blocks.\<close>

datatype instr =
    Mov_R16_Sreg gpr sreg
  | Mov_R16_Imm gpr u16
  | Mov_Sreg_R16 sreg gpr
  | Or_Mem32_Imm symbol u32
  | Lgdt symbol
  | Mov_R32_Creg gpr creg
  | Mov_Creg_R32 creg gpr
  | Mov_R32_Imm gpr u32
  | Mov_R32_Mem gpr symbol
  | Mov_R64_Mem gpr symbol
  | Mov_R64_R64 gpr gpr
  | Or_R32_Imm gpr u32
  | Bts_R32 gpr nat
  | Rdmsr
  | Wrmsr

datatype jump =
    Jmp symbol
  | Jmp_Far u16 symbol
  | Jmp_R64 gpr

text \<open>
  The linear address of a symbol used as an operand: 64-bit code ignores the base of the data segment
  and extends the sign of a 32-bit address.
\<close>

definition data_addr :: "asm_env \<Rightarrow> ap_cpu \<Rightarrow> symbol \<Rightarrow> nat" where
  "data_addr E c s =
     (let n = code_bits c in
      if n = 64 then unat (scast (of_nat (sym E s) :: u32) :: u64) else (seg_base (sregs c DS) + sym E s mod 2 ^ n) mod 2 ^ 32)"

definition set_r16 :: "gpr \<Rightarrow> u16 \<Rightarrow> ap_cpu \<Rightarrow> ap_cpu" where
  "set_r16 r v c = c\<lparr>gprs := (gprs c)(r := (gprs c r AND NOT 0xFFFF) OR ucast v)\<rparr>"

definition set_r32 :: "gpr \<Rightarrow> u32 \<Rightarrow> ap_cpu \<Rightarrow> ap_cpu" where
  "set_r32 r v c = c\<lparr>gprs := (gprs c)(r := ucast v)\<rparr>"

definition set_r64 :: "gpr \<Rightarrow> u64 \<Rightarrow> ap_cpu \<Rightarrow> ap_cpu" where
  "set_r64 r v c = c\<lparr>gprs := (gprs c)(r := v)\<rparr>"

text \<open>
  Turning paging on with long mode enabled makes long mode active; it needs the page tables of
  long mode (bit 5 of CR4).
\<close>

definition mov_cr0 :: "u64 \<Rightarrow> ap_cpu \<Rightarrow> fault + ap_cpu" where
  "mov_cr0 v c =
     (let c1 = c\<lparr>cregs := (cregs c)(CR0 := v)\<rparr> in
      if bit v 31 \<and> \<not> bit v 0 then Inl GP
      else if bit v 31 \<and> \<not> paging_on c \<and> lme c
      then (if \<not> bit (cregs c CR4) 5 \<or> seg_long (sregs c CS) then Inl GP else Inr (c1\<lparr>efer := efer c OR 0x400\<rparr>))
      else Inr (if bit v 31 then c1 else c1\<lparr>efer := efer c AND NOT 0x400\<rparr>))"

definition mov_creg :: "creg \<Rightarrow> u64 \<Rightarrow> ap_cpu \<Rightarrow> fault + ap_cpu" where
  "mov_creg r v c = (case r of CR0 \<Rightarrow> mov_cr0 v c | _ \<Rightarrow> Inr (c\<lparr>cregs := (cregs c)(r := v)\<rparr>))"

definition EFER_MSR :: u32 where "EFER_MSR = 0xC0000080"

text \<open>\<open>wrmsr\<close> cannot change whether long mode is active, nor enable it while paging is on.\<close>

definition write_efer :: "u64 \<Rightarrow> ap_cpu \<Rightarrow> fault + ap_cpu" where
  "write_efer v c =
     (if paging_on c \<and> bit v 8 \<noteq> lme c then Inl GP
      else Inr (c\<lparr>efer := (v AND NOT 0x400) OR (efer c AND 0x400)\<rparr>))"

fun exec_instr :: "asm_env \<Rightarrow> instr \<Rightarrow> ap_cpu \<Rightarrow> fault + ap_cpu" where
  "exec_instr E (Mov_R16_Sreg r s) c = Inr (set_r16 r (selector (sregs c s)) c)"
| "exec_instr E (Mov_R16_Imm r v) c = Inr (set_r16 r v c)"
| "exec_instr E (Mov_Sreg_R16 s r) c = load_sreg E s (ucast (gprs c r)) c"
| "exec_instr E (Or_Mem32_Imm s v) c =
     (let a = data_addr E c s in
      and_then (load E c a 4) (\<lambda>bs. store E c a (le_bytes 4 (le_read bs OR v :: u32))))"
| "exec_instr E (Lgdt s) c =
     (let a = data_addr E c s in
      and_then (load E c a 2) (\<lambda>limit.
      and_then (load E c (a + 2) 4) (\<lambda>base.
      Inr (c\<lparr>gdtr_limit := unat (le_read limit :: u16),
             gdtr_base := unat (le_read base :: u32) mod (if code_bits c = 16 then 2 ^ 24 else 2 ^ 32)\<rparr>))))"
| "exec_instr E (Mov_R32_Creg r cr) c = Inr (set_r32 r (ucast (cregs c cr)) c)"
| "exec_instr E (Mov_Creg_R32 cr r) c = mov_creg cr (ucast (ucast (gprs c r) :: u32)) c"
| "exec_instr E (Mov_R32_Imm r v) c = Inr (set_r32 r v c)"
| "exec_instr E (Mov_R32_Mem r s) c = and_then (load E c (data_addr E c s) 4) (\<lambda>bs. Inr (set_r32 r (le_read bs) c))"
| "exec_instr E (Mov_R64_Mem r s) c = and_then (load E c (data_addr E c s) 8) (\<lambda>bs. Inr (set_r64 r (le_read bs) c))"
| "exec_instr E (Mov_R64_R64 r r') c = Inr (set_r64 r (gprs c r') c)"
| "exec_instr E (Or_R32_Imm r v) c = Inr (set_r32 r (ucast (gprs c r) OR v) c)"
| "exec_instr E (Bts_R32 r n) c = Inr (set_r32 r (Bit_Operations.set_bit n (ucast (gprs c r))) c)"
| "exec_instr E Rdmsr c =
     (if ucast (gprs c RCX) \<noteq> EFER_MSR then Inl GP
      else Inr (set_r32 RDX (ucast (drop_bit 32 (efer c))) (set_r32 RAX (ucast (efer c)) c)))"
| "exec_instr E Wrmsr c =
     (if ucast (gprs c RCX) \<noteq> EFER_MSR then Inl GP
      else write_efer (ucast (ucast (gprs c RAX) :: u32) OR push_bit 32 (gprs c RDX)) c)"

text \<open>A fault stops the processor, which has no handlers yet, in the state before the instruction.\<close>

fun exec_body :: "asm_env \<Rightarrow> instr list \<Rightarrow> ap_cpu \<Rightarrow> fault \<times> ap_cpu + ap_cpu" where
  "exec_body E [] c = Inr c"
| "exec_body E (i # is) c = (case exec_instr E i c of Inl f \<Rightarrow> Inl (f, c) | Inr c' \<Rightarrow> exec_body E is c')"

text \<open>The linear address a jump continues at. A near jump is relative, so it does not depend on the origin.\<close>

fun exec_jump :: "asm_env \<Rightarrow> jump \<Rightarrow> ap_cpu \<Rightarrow> fault \<times> ap_cpu + nat \<times> ap_cpu" where
  "exec_jump E (Jmp s) c = Inr (place E s, c)"
| "exec_jump E (Jmp_Far sel s) c =
     (case load_cs E sel c of
        Inl f \<Rightarrow> Inl (f, c)
      | Inr c' \<Rightarrow>
          let off = sym E s mod 2 ^ code_bits c in
          Inr (if code_bits c' = 64 then off else (seg_base (sregs c' CS) + off) mod 2 ^ 32, c'))"
| "exec_jump E (Jmp_R64 r) c = Inr (unat (gprs c r), c)"


section \<open>The trampoline\<close>

record code_block =
  bits :: nat
  body :: "instr list"
  leave :: jump

definition trampoline_entry :: code_block where
  "trampoline_entry = \<lparr>bits = 16, body = [], leave = Jmp Real_Start\<rparr>"

definition gdt_table :: "u64 list" where
  "gdt_table = [0x0000000000000000, 0x00CF9A008000FFFF, 0x00CF920008000FFFF, 0x00AF9A000000FFFF]"

definition gdt_ptr_limit :: u16 where
  "gdt_ptr_limit = of_nat (8 * length gdt_table - 1)"

definition real_start :: code_block where
  "real_start = \<lparr>bits = 16,
     body = [Mov_R16_Sreg RAX CS, Mov_Sreg_R16 DS RAX,
             Or_Mem32_Imm Commword 1,
             Lgdt Gdt_Ptr,
             Mov_R32_Creg RAX CR0, Bts_R32 RAX 0, Mov_Creg_R32 CR0 RAX],
     leave = Jmp_Far 0x08 Prot_Start\<rparr>"

definition prot_start :: code_block where
  "prot_start = \<lparr>bits = 32,
     body = [Mov_R16_Imm RAX 0x10, Mov_Sreg_R16 DS RAX, Mov_Sreg_R16 ES RAX, Mov_Sreg_R16 SS RAX,
             Mov_R32_Mem RAX Cr3val, Mov_Creg_R32 CR3 RAX,
             Mov_R32_Creg RAX CR4, Bts_R32 RAX 5, Mov_Creg_R32 CR4 RAX,
             Mov_R32_Imm RCX 0xC0000080, Rdmsr, Or_R32_Imm RAX 1, Wrmsr,
             Mov_R32_Creg RAX CR0, Bts_R32 RAX 31, Mov_Creg_R32 CR0 RAX],
     leave = Jmp_Far 0x18 Long_Start\<rparr>"

definition long_start :: code_block where
  "long_start = \<lparr>bits = 64,
     body = [Mov_R16_Imm RAX 0x10, Mov_Sreg_R16 DS RAX, Mov_Sreg_R16 ES RAX, Mov_Sreg_R16 SS RAX,
             Mov_R64_Mem RAX Kstack, Mov_R64_R64 RSP RAX,
             Mov_R64_Mem RAX Kcode],
     leave = Jmp_R64 RAX\<rparr>"

lemmas block_defs = trampoline_entry_def real_start_def prot_start_def long_start_def

definition trampoline_blocks :: "(symbol \<times> code_block) list" where
  "trampoline_blocks = [(Trampoline, trampoline_entry), (Real_Start, real_start), (Prot_Start, prot_start),
     (Long_Start, long_start)]"

definition block_at :: "asm_env \<Rightarrow> nat \<Rightarrow> code_block option" where
  "block_at E a = map_option snd (find (\<lambda>(s, b). place E s = a) trampoline_blocks)"

text \<open>
  A run from a linear address: it leaves the trampoline, faults, or comes to a block that was
  assembled for another size of code than the one the processor decodes there.
\<close>

datatype ap_result = Enters nat ap_cpu | Faults fault ap_cpu | Misdecodes nat ap_cpu

partial_function (option) run_trampoline :: "asm_env \<Rightarrow> nat \<Rightarrow> ap_cpu \<Rightarrow> ap_result option" where
  "run_trampoline E a c =
     (case block_at E a of
        None \<Rightarrow> Some (Enters a c)
      | Some b \<Rightarrow>
          if bits b \<noteq> code_bits c then Some (Misdecodes a c)
          else (case exec_body E (body b) c of
                  Inl (f, c') \<Rightarrow> Some (Faults f c')
                | Inr c' \<Rightarrow>
                    (case exec_jump E (leave b) c' of
                       Inl (f, c'') \<Rightarrow> Some (Faults f c'')
                     | Inr (a', c'') \<Rightarrow> run_trampoline E a' c'')))"

section \<open>What the blocks do\<close>

text \<open>Reading a register back at the width it was written.\<close>

lemma r16_read [simp]: "(ucast ((x AND NOT 0xFFFF) OR ucast (v :: u16) :: u64) :: u16) = v"
proof -
  have m: "(0xFFFF :: u64) = mask 16" by (simp add: mask_eq_exp_minus_1)
  show ?thesis unfolding m by (rule bit_word_eqI) (auto simp: bit_simps)
qed

lemma r32_read [simp]: "(ucast (ucast (v :: u32) :: u64) :: u32) = v"
  by (rule bit_word_eqI) (auto simp: bit_simps)

lemmas exec_simps = set_r16_def set_r32_def set_r64_def mov_creg_def mov_cr0_def write_efer_def EFER_MSR_def

text \<open>
  A processor that a STARTUP message with vector \<open>v\<close> has started: real mode, at the first byte of
  page \<open>v\<close>, and long mode neither enabled nor active.
\<close>

definition sipi_start :: "u8 \<Rightarrow> ap_cpu \<Rightarrow> bool" where
  "sipi_start v c \<longleftrightarrow> \<not> protected_mode c \<and> \<not> paging_on c \<and> efer c = 0 \<and>
     sregs c CS = \<lparr>selector = push_bit 8 (ucast v), seg_base = 0x1000 * unat v, seg_long = False, seg_32 = False\<rparr>"

text \<open>The symbols are offsets from the address of the trampoline, as the data segment of real mode needs them.\<close>

definition image_relative :: "asm_env \<Rightarrow> symbol \<Rightarrow> bool" where
  "image_relative E s \<longleftrightarrow> place E s = TRAMPOLINE_BASE + sym E s \<and> sym E s < 0x8000"

definition gdt_ptr_bytes :: "asm_env \<Rightarrow> u8 list" where
  "gdt_ptr_bytes E = le_bytes 2 gdt_ptr_limit @ le_bytes 4 (of_nat (sym E Gdt) :: u32)"

definition gdt_bytes :: "u8 list" where
  "gdt_bytes = concat (map (le_bytes 8) gdt_table)"

text \<open>Real mode: the data segment becomes that of the code, and the readiness is signalled.\<close>

lemma real_start_signal:
  assumes "sipi_start 8 c" and "image_relative E Commword"
  obtains c' where "exec_body E (take 3 (body real_start)) c = Inr c'" and "seg_base (sregs c' DS) = 0x8000"
    and "ram c' = write_u32 (place E Commword) (le_read (bytes_at (place E Commword) 4 (ram c)) OR 1) (ram c)"
    and "sregs c' CS = sregs c CS" and "cregs c' = cregs c" and "efer c' = 0"
proof -
  define c1 where "c1 = set_r16 RAX (selector (sregs c CS)) c"
  define c2 where "c2 = c1\<lparr>sregs := (sregs c)(DS := (sregs c DS)\<lparr>selector := 0x800, seg_base := 0x8000\<rparr>)\<rparr>"
  have c: "\<not> protected_mode c" "\<not> paging_on c" "efer c = 0" "selector (sregs c CS) = 0x800"
      "\<not> seg_long (sregs c CS)" "\<not> seg_32 (sregs c CS)"
    using assms(1) by (simp_all add: sipi_start_def)
  have 1: "exec_instr E (Mov_R16_Sreg RAX CS) c = Inr c1" by (simp add: c1_def)
  have "(ucast (gprs c1 RAX) :: u16) = 0x800" using r16_read [of "gprs c RAX" "0x800"] by (simp add: c1_def set_r16_def c(4) del: r16_read)
  then have 2: "exec_instr E (Mov_Sreg_R16 DS RAX) c1 = Inr c2"
    using c by (simp add: load_sreg_def c2_def) (simp add: c1_def set_r16_def)
  have c2: "\<not> paging_on c2" "sregs c2 CS = sregs c CS" "seg_base (sregs c2 DS) = 0x8000" "ram c2 = ram c" "efer c2 = 0"
      "cregs c2 = cregs c"
    using c by (simp_all add: c2_def c1_def set_r16_def)
  have "data_addr E c2 Commword = place E Commword"
    using assms(2) c c2 by (simp add: data_addr_def code_bits_def image_relative_def TRAMPOLINE_BASE_def)
  then have 3: "exec_instr E (Or_Mem32_Imm Commword 1) c2 = Inr (c2\<lparr>ram := write_u32 (place E Commword)
      (le_read (bytes_at (place E Commword) 4 (ram c)) OR 1) (ram c)\<rparr>)"
    using c2 by (simp add: load_flat store_flat Let_def)
  show thesis
    by (rule that [of "c2\<lparr>ram := write_u32 (place E Commword) (le_read (bytes_at (place E Commword) 4 (ram c)) OR 1) (ram c)\<rparr>"])
      (use 1 2 3 c2 in \<open>simp_all add: real_start_def del: exec_instr.simps\<close>)
qed

lemma exec_body_append:
  "exec_body E (is @ js) c = (case exec_body E is c of Inl x \<Rightarrow> Inl x | Inr c' \<Rightarrow> exec_body E js c')"
  by (induction "is" arbitrary: c) (simp_all split: sum.split)

lemma exec_body_split:
  "exec_body E (take n is) c = Inr c1 \<Longrightarrow> exec_body E is c = exec_body E (drop n is) c1"
  using exec_body_append [of E "take n is" "drop n is" c] by simp

lemma real_start_body:
  assumes "sipi_start 8 c" and "image_relative E Commword" and "image_relative E Gdt_Ptr"
    and "bytes_at (place E Gdt_Ptr) 6 (ram c) = gdt_ptr_bytes E"
    and "place E Commword + 4 \<le> place E Gdt_Ptr \<or> place E Gdt_Ptr + 6 \<le> place E Commword"
  obtains c' where "exec_body E (body real_start) c = Inr c'"
    and "ram c' = write_u32 (place E Commword) (le_read (bytes_at (place E Commword) 4 (ram c)) OR 1) (ram c)"
    and "protected_mode c'" and "\<not> paging_on c'" and "efer c' = 0" and "sregs c' CS = sregs c CS"
    and "gdtr_limit c' = 31" and "gdtr_base c' = sym E Gdt mod 2 ^ 24"
proof -
  obtain c1 where c1: "exec_body E (take 3 (body real_start)) c = Inr c1" "seg_base (sregs c1 DS) = 0x8000"
      "ram c1 = write_u32 (place E Commword) (le_read (bytes_at (place E Commword) 4 (ram c)) OR 1) (ram c)"
      "sregs c1 CS = sregs c CS" "cregs c1 = cregs c" "efer c1 = 0"
    using real_start_signal [OF assms(1,2)] by blast
  have c: "\<not> paging_on c1" "code_bits c1 = 16" "\<not> paging_on c"
    using assms(1) c1 by (simp_all add: sipi_start_def code_bits_def)
  have g: "bytes_at (place E Gdt_Ptr) 2 (ram c1) = le_bytes 2 gdt_ptr_limit"
      "bytes_at (place E Gdt_Ptr + 2) 4 (ram c1) = le_bytes 4 (of_nat (sym E Gdt) :: u32)"
    using assms(4,5) bytes_at_append [of "place E Gdt_Ptr" 2 4 "ram c"]
    by (auto simp: c1(3) gdt_ptr_bytes_def bytes_at_write_other)
  have "unat gdt_ptr_limit = 31" by (simp add: gdt_ptr_limit_def gdt_table_def)
  moreover have "unat (of_nat (sym E Gdt) :: u32) mod 2 ^ 24 = sym E Gdt mod 2 ^ 24"
    by (simp add: unat_of_nat mod_mod_cancel)
  moreover have "data_addr E c1 Gdt_Ptr = place E Gdt_Ptr"
    using assms(3) c c1 by (simp add: data_addr_def image_relative_def TRAMPOLINE_BASE_def)
  ultimately have 2: "exec_instr E (Lgdt Gdt_Ptr) c1 = Inr (c1\<lparr>gdtr_limit := 31, gdtr_base := sym E Gdt mod 2 ^ 24\<rparr>)"
    using c g by (simp add: load_flat le_read_bytes le_read_bytes_u16 Let_def)
  let ?v = "ucast (Bit_Operations.set_bit 0 (ucast (cregs c CR0) :: u32)) :: u64"
  define c2 where "c2 = c1\<lparr>gdtr_limit := 31, gdtr_base := sym E Gdt mod 2 ^ 24, gprs := (gprs c1)(RAX := ?v), cregs := (cregs c)(CR0 := ?v),
      efer := 0\<rparr>"
  have "exec_body E (drop 3 (body real_start)) c1 = Inr c2"
    using 2 c(3) c1(5,6) by (simp add: real_start_def exec_simps bit_simps c2_def del: exec_instr.simps(5))
  then have "exec_body E (body real_start) c = Inr c2" by (simp add: exec_body_split [OF c1(1)])
  then show thesis using c(3) c1(3,4) by (intro that [of c2]) (simp_all add: c2_def bit_simps)
qed

text \<open>
  With offsets for symbols, as real mode needs them to find its data, the address in \<open>gdt_ptr\<close> is an
  offset too, and the processor looks for the table 32 KiB below it.
\<close>

lemma gdt_offset_not_address:
  assumes "sipi_start 8 c" and "image_relative E Commword" and "image_relative E Gdt_Ptr" and "image_relative E Gdt"
    and "bytes_at (place E Gdt_Ptr) 6 (ram c) = gdt_ptr_bytes E"
    and "place E Commword + 4 \<le> place E Gdt_Ptr \<or> place E Gdt_Ptr + 6 \<le> place E Commword"
  obtains c' where "exec_body E (body real_start) c = Inr c'" and "place E Gdt = gdtr_base c' + 0x8000"
proof -
  obtain c' where "exec_body E (body real_start) c = Inr c'" "gdtr_base c' = sym E Gdt mod 2 ^ 24"
    using real_start_body [OF assms(1-3,5,6)] by blast
  moreover have "place E Gdt = sym E Gdt mod 2 ^ 24 + 0x8000" using assms(4) by (simp add: image_relative_def TRAMPOLINE_BASE_def)
  ultimately show thesis by (intro that [of c']) simp_all
qed

text \<open>The entries of the table, where the processor finds it.\<close>

lemma gdt_entries:
  assumes "bytes_at g 32 m = gdt_bytes"
  shows "bytes_at (g + 8) 8 m = le_bytes 8 (gdt_table ! 1)" "bytes_at (g + 16) 8 m = le_bytes 8 (gdt_table ! 2)"
    "bytes_at (g + 24) 8 m = le_bytes 8 (gdt_table ! 3)"
proof -
  have "bytes_at g 32 m = bytes_at g 8 m @ bytes_at (g + 8) 8 m @ bytes_at (g + 16) 8 m @ bytes_at (g + 24) 8 m"
    using bytes_at_append [of g 8 24 m] bytes_at_append [of "g + 8" 8 16 m] bytes_at_append [of "g + 16" 8 8 m] by (simp add: add.commute)
  then show "bytes_at (g + 8) 8 m = le_bytes 8 (gdt_table ! 1)" "bytes_at (g + 16) 8 m = le_bytes 8 (gdt_table ! 2)"
      "bytes_at (g + 24) 8 m = le_bytes 8 (gdt_table ! 3)"
    using assms by (simp_all add: gdt_bytes_def gdt_table_def)
qed

lemma fetch_gdt:
  assumes "\<not> paging_on c" and "gdtr_limit c = 31" and "bytes_at (gdtr_base c) 32 (ram c) = gdt_bytes"
  shows "fetch_descriptor E c 0x08 = Inr 0x00CF9A008000FFFF" "fetch_descriptor E c 0x10 = Inr 0x0CF920008000FFFF"
    "fetch_descriptor E c 0x18 = Inr 0x00AF9A000000FFFF"
  using assms(1,2) gdt_entries [OF assms(3)]
  by (simp_all add: fetch_descriptor_def load_flat le_read_bytes) (simp_all add: gdt_table_def)

text \<open>
  The data descriptor has one digit too many: it is not present and describes no data segment, so
  protected mode faults at the first load of a data segment register.
\<close>

lemma prot_start_faults:
  assumes "protected_mode c" and "\<not> paging_on c" and "gdtr_limit c = 31" and "bytes_at (gdtr_base c) 32 (ram c) = gdt_bytes"
  shows "exec_body E (body prot_start) c = Inl (GP, set_r16 RAX 0x10 c)"
proof -
  let ?c = "set_r16 RAX 0x10 c"
  have "fetch_descriptor E ?c 0x10 = Inr 0x0CF920008000FFFF"
    using fetch_gdt(2) [of ?c] assms(2-4) by (simp add: set_r16_def)
  moreover have "(ucast (gprs ?c RAX) :: u16) = 0x10" using r16_read [of "gprs c RAX" "0x10"] by (simp add: set_r16_def del: r16_read)
  moreover have "protected_mode ?c" using assms(1) by (simp add: set_r16_def)
  ultimately have "exec_instr E (Mov_Sreg_R16 DS RAX) ?c = Inl GP" by (simp add: load_sreg_def)
  then show ?thesis by (simp add: prot_start_def)
qed

lemma far_jump_to_prot_start:
  assumes "protected_mode c" and "\<not> paging_on c" and "efer c = 0" and "code_bits c = 16" and "gdtr_limit c = 31"
    and "bytes_at (gdtr_base c) 32 (ram c) = gdt_bytes" and "image_relative E Prot_Start"
  shows "exec_jump E (Jmp_Far 0x08 Prot_Start) c =
    Inr (place E Prot_Start, c\<lparr>sregs := (sregs c)(CS := \<lparr>selector = 8, seg_base = 0x8000, seg_long = False, seg_32 = True\<rparr>)\<rparr>)"
proof -
  have "segment_of 8 0x00CF9A008000FFFF = \<lparr>selector = 8, seg_base = 0x8000, seg_long = False, seg_32 = True\<rparr>"
    by (simp add: segment_of_def desc_base_def)
  then have "load_cs E 8 c = Inr (c\<lparr>sregs := (sregs c)(CS := \<lparr>selector = 8, seg_base = 0x8000, seg_long = False, seg_32 = True\<rparr>)\<rparr>)"
    using fetch_gdt(1) [OF assms(2,5,6)] assms(3) by (simp add: load_cs_def)
  then show ?thesis using assms(3,4,7) by (simp add: code_bits_def image_relative_def TRAMPOLINE_BASE_def)
qed

lemma block_at_labels:
  assumes "distinct (map (place E \<circ> fst) trampoline_blocks)"
  shows "block_at E (place E Trampoline) = Some trampoline_entry" "block_at E (place E Real_Start) = Some real_start"
    "block_at E (place E Prot_Start) = Some prot_start" "block_at E (place E Long_Start) = Some long_start"
  using assms by (auto simp: block_at_def trampoline_blocks_def)


text \<open>An image whose symbols are offsets, but for the table, which is at the address the processor looks at.\<close>

fun example_sym :: "symbol \<Rightarrow> nat" where
  "example_sym Cr3val = 0" | "example_sym Kcode = 8" | "example_sym Kstack = 16" | "example_sym Kgsval = 24"
| "example_sym Commword = 32" | "example_sym Trampoline = 0" | "example_sym Gdt = 0x8030" | "example_sym Gdt_Ptr = 0x50"
| "example_sym Real_Start = 0x60" | "example_sym Prot_Start = 0x90" | "example_sym Long_Start = 0xD0"

definition example_asm :: asm_env where
  "example_asm = \<lparr>sym = example_sym, place = (\<lambda>s. 0x8000 + example_sym s), walk = (\<lambda>_ a. Some a)\<rparr>"

definition example_ram :: "nat \<Rightarrow> u8" where
  "example_ram a = (if 0x8030 \<le> a \<and> a < 0x8050 then gdt_bytes ! (a - 0x8030)
     else if 0x8050 \<le> a \<and> a < 0x8056 then gdt_ptr_bytes example_asm ! (a - 0x8050) else 0)"

definition example_ap :: ap_cpu where
  "example_ap = \<lparr>gprs = (\<lambda>_. 0), cregs = (\<lambda>_. 0)(CR0 := 0x60000010), efer = 0, gdtr_base = 0, gdtr_limit = 0xFFFF,
     sregs = (\<lambda>_. \<lparr>selector = 0, seg_base = 0, seg_long = False, seg_32 = False\<rparr>)
       (CS := \<lparr>selector = 0x800, seg_base = 0x8000, seg_long = False, seg_32 = False\<rparr>), ram = example_ram\<rparr>"

lemma bytes_at_nth: "length bs = n \<Longrightarrow> (\<And>i. i < n \<Longrightarrow> m (a + i) = bs ! i) \<Longrightarrow> bytes_at a n m = bs"
  by (simp add: bytes_at_def list_eq_iff_nth_eq)

lemma example_ram_gdt: "bytes_at 0x8030 32 example_ram = gdt_bytes"
  by (rule bytes_at_nth) (simp_all add: example_ram_def gdt_bytes_def gdt_table_def)

lemma example_ram_ptr: "bytes_at 0x8050 6 example_ram = gdt_ptr_bytes example_asm"
  by (rule bytes_at_nth) (simp_all add: example_ram_def gdt_ptr_bytes_def)

lemma example_ram_comm: "bytes_at 0x8020 4 example_ram = le_bytes 4 (0 :: u32)"
  by (rule bytes_at_nth) (simp_all add: example_ram_def le_bytes_def)


text \<open>\<open>rdmsr\<close>, \<open>or eax, 1\<close>, \<open>wrmsr\<close>.\<close>

lemma efer_or_1:
  "((ucast ((ucast (e :: u64) :: u32) OR 1) OR push_bit 32 (ucast (ucast (drop_bit 32 e) :: u32) :: u64)) AND NOT 0x400) OR (e AND 0x400) =
    e OR 1"
proof -
  have m: "(0x400 :: u64) = push_bit 10 1" by simp
  show ?thesis unfolding m by (rule bit_word_eqI) (auto simp: bit_simps)
qed

lemma prot_start_efer:
  assumes "\<not> paging_on c"
  shows "exec_body E [Mov_R32_Imm RCX 0xC0000080, Rdmsr, Or_R32_Imm RAX 1, Wrmsr] c =
    Inr (c\<lparr>gprs := (gprs c)(RCX := 0xC0000080, RAX := ucast ((ucast (efer c) :: u32) OR 1), RDX := ucast (ucast (drop_bit 32 (efer c)) :: u32)),
      efer := efer c OR 1\<rparr>)"
  using assms efer_or_1 [of "efer c"] by (simp add: exec_simps fun_upd_twist)
lemma far_jump_efer: "exec_jump E (Jmp_Far sel s) c = Inr (a, c') \<Longrightarrow> efer c' = efer c"
  by (auto simp: load_cs_def Let_def split: sum.splits if_splits)

text \<open>
  C33. The way to 64-bit code. The part of protected mode behind the segment registers never faults: it
  loads CR3 with the low half of its field, enables the page tables of long mode and turns paging on.
  But in EFER it sets bit 0 (the system call instructions) and not bit 8 (long mode): long mode becomes active if
  and only if it was enabled before, and if it was not, the far jump does not lead to 64-bit code.
\<close>

theorem long_mode_iff_enabled:
  assumes "protected_mode c" and "\<not> paging_on c" and "\<not> long_mode c" and "\<not> seg_long (sregs c CS)"
    and "bytes_at (data_addr E c Cr3val) 4 (ram c) = le_bytes 4 (ucast cr3 :: u32)"
  shows "\<exists>c'. exec_body E (drop 4 (body prot_start)) c = Inr c' \<and> cregs c' CR3 = cr3 AND mask 32 \<and> bit (cregs c' CR4) 5 \<and>
    paging_on c' \<and> ram c' = ram c \<and> bit (efer c') 0 \<and> (lme c' \<longleftrightarrow> lme c) \<and> (long_mode c' \<longleftrightarrow> lme c) \<and>
    (\<not> lme c \<longrightarrow> (\<forall>a c''. exec_jump E (leave prot_start) c' = Inr (a, c'') \<longrightarrow> code_bits c'' \<noteq> 64))"
proof -
  let ?v3 = "ucast (ucast cr3 :: u32) :: u64" and ?v4 = "ucast (Bit_Operations.set_bit 5 (ucast (cregs c CR4) :: u32)) :: u64"
    and ?v0 = "ucast (Bit_Operations.set_bit 31 (ucast (cregs c CR0) :: u32)) :: u64"
  define c1 where "c1 = c\<lparr>gprs := (gprs c)(RAX := ?v4), cregs := (cregs c)(CR3 := ?v3, CR4 := ?v4)\<rparr>"
  define c2 where "c2 = c1\<lparr>gprs := (gprs c1)(RCX := 0xC0000080, RAX := ucast ((ucast (efer c) :: u32) OR 1),
      RDX := ucast (ucast (drop_bit 32 (efer c)) :: u32)), efer := efer c OR 1\<rparr>"
  define c3 where "c3 = c2\<lparr>gprs := (gprs c2)(RAX := ?v0), cregs := (cregs c2)(CR0 := ?v0),
      efer := (if lme c then (efer c OR 1) OR 0x400 else efer c OR 1)\<rparr>"
  have 1: "exec_body E (take 5 (drop 4 (body prot_start))) c = Inr c1"
    using assms(2,5) by (simp add: prot_start_def exec_simps load_flat le_read_bytes c1_def fun_upd_twist)
  have 2: "exec_body E [Mov_R32_Imm RCX 0xC0000080, Rdmsr, Or_R32_Imm RAX 1, Wrmsr] c1 = Inr c2"
    using prot_start_efer [of c1 E] assms(2) by (simp add: c2_def c1_def)
  have 3: "exec_body E [Mov_R32_Creg RAX CR0, Bts_R32 RAX 31, Mov_Creg_R32 CR0 RAX] c2 = Inr c3"
    using assms(1,2,4) by (simp add: exec_simps c3_def) (simp add: c2_def c1_def bit_simps)
  have "exec_body E (drop 4 (body prot_start)) c = Inr c3"
  proof -
    have "drop 5 (drop 4 (body prot_start)) = [Mov_R32_Imm RCX 0xC0000080, Rdmsr, Or_R32_Imm RAX 1, Wrmsr] @
        [Mov_R32_Creg RAX CR0, Bts_R32 RAX 31, Mov_Creg_R32 CR0 RAX]"
      by (simp add: prot_start_def)
    then show ?thesis by (simp only: exec_body_split [OF 1] exec_body_append 2 3 sum.case)
  qed
  moreover have "(lme c3 \<longleftrightarrow> lme c) \<and> (long_mode c3 \<longleftrightarrow> lme c) \<and> bit (efer c3) 0"
    using assms(3) by (auto simp: c3_def bit_simps)
  moreover have "cregs c3 CR3 = cr3 AND mask 32" "bit (cregs c3 CR4) 5" "paging_on c3" "ram c3 = ram c"
    by (simp_all add: c3_def c2_def c1_def bit_simps) (rule bit_word_eqI, auto simp: bit_simps)
  moreover have "code_bits c'' \<noteq> 64" if "exec_jump E (leave prot_start) c3 = Inr (a, c'')" "\<not> long_mode c3" for a c''
    using that far_jump_efer [of E "0x18" Long_Start c3 a c''] by (auto simp: prot_start_def code_bits_def)
  ultimately show ?thesis by (intro exI [of _ c3]) blast
qed

lemma bytes_at_const: "bytes_at a n (\<lambda>_. v) = replicate n v"
  by (rule bytes_at_nth) simp_all

definition example_prot :: ap_cpu where
  "example_prot = example_ap\<lparr>cregs := (\<lambda>_. 0)(CR0 := 1), ram := (\<lambda>_. 0)\<rparr>"

lemma example_prot_simps:
  "protected_mode example_prot" "\<not> paging_on example_prot" "\<not> lme example_prot" "\<not> long_mode example_prot"
  "\<not> seg_long (sregs example_prot CS)" "bytes_at a 4 (ram example_prot) = le_bytes 4 (ucast (0 :: u64) :: u32)"
  by (simp_all add: example_prot_def example_ap_def bytes_at_const le_bytes_def map_replicate_const)

theorem long_mode_iff_enabled_witness:
  "\<exists>c'. exec_body example_asm (drop 4 (body prot_start)) example_prot = Inr c' \<and> paging_on c' \<and> \<not> long_mode c'"
  using long_mode_iff_enabled [OF example_prot_simps(1,2,4,5,6), of example_asm] example_prot_simps(3) by metis

text \<open>
  64-bit code hands over to the kernel. On the page that \<open>patch_trampoline\<close> has filled, if the page tables
  map the addresses of the two fields to it, the part behind the segment registers loads the top of
  the allocated stack, and its jump goes to \<open>ap_startup\<close>.
\<close>

lemma long_start_enters_kernel:
  assumes "patch_trampoline p offset N st = Inr st'" and "offset + TRAMPOLINE_BASE < 2 ^ 64"
    and "AP_STACK_INDEX st < NUM_AP_STACKS" and "AP_STACKS N + NUM_AP_STACKS * AP_STACK_SIZE < 2 ^ 64"
    and "\<And>a. TRAMPOLINE_BASE \<le> a \<Longrightarrow> a < TRAMPOLINE_BASE + 36 \<Longrightarrow> ram c a = memory st' (offset + a)"
    and "\<And>i. i < 8 \<Longrightarrow> translate E c (data_addr E c Kstack + i) = Some (TRAMPOLINE_BASE + KSTACK_OFFSET + i)"
    and "\<And>i. i < 8 \<Longrightarrow> translate E c (data_addr E c Kcode + i) = Some (TRAMPOLINE_BASE + KCODE_OFFSET + i)"
  shows "\<exists>c'. exec_body E (drop 4 (body long_start)) c = Inr c' \<and> ram c' = ram c \<and>
    gprs c' RSP = of_nat (AP_STACKS N + (AP_STACK_INDEX st + 1) * AP_STACK_SIZE) \<and>
    exec_jump E (leave long_start) c' = Inr (unat (ap_startup_addr N), c')"
proof -
  let ?top = "of_nat (AP_STACKS N + (AP_STACK_INDEX st + 1) * AP_STACK_SIZE) :: u64"
  have mem: "bytes_at (offset + 0x8010) 8 (memory st') = le_bytes 8 ?top"
      "bytes_at (offset + 0x8008) 8 (memory st') = le_bytes 8 (ap_startup_addr N)"
    using assms(1) patch_trampoline_eq [OF assms(2-4), of p]
    by (auto simp: trampoline_consts Let_def bytes_at_write_other add.commute [of offset])
  have ld: "load E c' a 8 = Inr (bytes_at (offset + b) 8 (memory st'))"
    if "\<And>i. i < 8 \<Longrightarrow> translate E c' (a + i) = Some (b + i)" "0x8000 \<le> b" "b + 8 \<le> 0x8024" "ram c' = ram c" for c' a b
  proof -
    have "translate_all E c' [a..<a + 8] = Inr (map (\<lambda>x. b + (x - a)) [a..<a + 8])"
    proof (rule translate_all_map)
      fix x assume "x \<in> set [a..<a + 8]"
      then show "translate E c' x = Some (b + (x - a))" using that(1) [of "x - a"] by auto
    qed
    moreover have "ram c (b + i) = memory st' (offset + b + i)" if "i < 8" for i
      using assms(5) [of "b + i"] that \<open>0x8000 \<le> b\<close> \<open>b + 8 \<le> 0x8024\<close> by (simp add: TRAMPOLINE_BASE_def add.assoc)
    ultimately show ?thesis by (simp add: load_def \<open>ram c' = ram c\<close> bytes_at_def list_eq_iff_nth_eq)
  qed
  define c1 where "c1 = set_r64 RSP ?top (set_r64 RAX ?top c)"
  have tr: "translate E c1 a = translate E c a" "data_addr E c1 s = data_addr E c s" "ram c1 = ram c" for a s
    by (simp_all add: c1_def set_r64_def translate_def data_addr_def code_bits_def Let_def)
  have 1: "exec_body E [Mov_R64_Mem RAX Kstack, Mov_R64_R64 RSP RAX] c = Inr c1"
    using ld [of c "data_addr E c Kstack" "0x8010"] assms(6) mem(1) by (simp add: trampoline_consts le_read_bytes c1_def set_r64_def)
  have 2: "exec_body E [Mov_R64_Mem RAX Kcode] c1 = Inr (set_r64 RAX (ap_startup_addr N) c1)"
    using ld [of c1 "data_addr E c Kcode" "0x8008"] assms(7) mem(2) by (simp add: trampoline_consts le_read_bytes tr)
  have "drop 4 (body long_start) = [Mov_R64_Mem RAX Kstack, Mov_R64_R64 RSP RAX] @ [Mov_R64_Mem RAX Kcode]"
    by (simp add: long_start_def)
  then have "exec_body E (drop 4 (body long_start)) c = Inr (set_r64 RAX (ap_startup_addr N) c1)"
    by (simp only: exec_body_append 1 2 sum.case)
  then show ?thesis by (simp add: long_start_def c1_def set_r64_def)
qed

end
