(* ===== verification/Console_Lock.thy ===== *)
theory Console_Lock
  imports Kernel_Prelude
begin

text \<open>
  Printing and interrupts. The consoles are behind spin locks: \<open>_print\<close> of \<^verbatim>\<open>kernel/src/vga_buffer.rs\<close>
  and of \<^verbatim>\<open>serial.rs\<close> take theirs with interrupts disabled, \<open>_print\<close> of \<^verbatim>\<open>framebuffer.rs\<close>, which
  \<open>print!\<close> uses, does not, and the timer handler of \<^verbatim>\<open>interrupts.rs\<close> prints a dot. The model is one processor with
  a stack of activations, one lock and the interrupt flag; a timer interrupt may arrive whenever the
  flag is set. A thread that waits for the lock makes no step, so a state where it waits with
  interrupts disabled, for a lock only a suspended activation can release, is a deadlock.
\<close>

datatype instr = Take_Lock | Write_Text | Drop_Lock | Save_Disable | Restore | Eoi

definition framebuffer_print :: "instr list" where
  "framebuffer_print = [Take_Lock, Write_Text, Drop_Lock]"

text \<open>\<open>without_interrupts\<close> remembers the flag, clears it and, if it was set, sets it again.\<close>

definition vga_print :: "instr list" where
  "vga_print = [Save_Disable, Take_Lock, Write_Text, Drop_Lock, Restore]"

definition serial_print :: "instr list" where
  "serial_print = [Save_Disable, Take_Lock, Write_Text, Drop_Lock, Restore]"

definition timer_handler :: "instr list \<Rightarrow> instr list" where
  "timer_handler print = print @ [Eoi]"

record activation =
  code :: "instr list"
  saved :: bool

record console =
  stack :: "activation list"
  locked :: bool
  int_flag :: bool

definition console_start :: "instr list \<Rightarrow> console" where
  "console_start main = \<lparr>stack = [\<lparr>code = main, saved = False\<rparr>], locked = False, int_flag = True\<rparr>"

inductive console_step :: "instr list \<Rightarrow> console \<Rightarrow> console \<Rightarrow> bool" for handler where
  acquire: "stack s = f # fs \<Longrightarrow> code f = Take_Lock # c \<Longrightarrow> \<not> locked s \<Longrightarrow>
    console_step handler s (s\<lparr>stack := f\<lparr>code := c\<rparr> # fs, locked := True\<rparr>)"
| release: "stack s = f # fs \<Longrightarrow> code f = Drop_Lock # c \<Longrightarrow>
    console_step handler s (s\<lparr>stack := f\<lparr>code := c\<rparr> # fs, locked := False\<rparr>)"
| write_text: "stack s = f # fs \<Longrightarrow> code f = Write_Text # c \<Longrightarrow>
    console_step handler s (s\<lparr>stack := f\<lparr>code := c\<rparr> # fs\<rparr>)"
| end_of_interrupt: "stack s = f # fs \<Longrightarrow> code f = Eoi # c \<Longrightarrow>
    console_step handler s (s\<lparr>stack := f\<lparr>code := c\<rparr> # fs\<rparr>)"
| save_disable: "stack s = f # fs \<Longrightarrow> code f = Save_Disable # c \<Longrightarrow>
    console_step handler s (s\<lparr>stack := f\<lparr>code := c, saved := int_flag s\<rparr> # fs, int_flag := False\<rparr>)"
| restore: "stack s = f # fs \<Longrightarrow> code f = Restore # c \<Longrightarrow>
    console_step handler s (s\<lparr>stack := f\<lparr>code := c\<rparr> # fs, int_flag := (int_flag s \<or> saved f)\<rparr>)"
| return_from_interrupt: "stack s = f # g # fs \<Longrightarrow> code f = [] \<Longrightarrow>
    console_step handler s (s\<lparr>stack := g # fs, int_flag := True\<rparr>)"
| timer_interrupt: "int_flag s \<Longrightarrow>
    console_step handler s (s\<lparr>stack := \<lparr>code = handler, saved = False\<rparr> # stack s, int_flag := False\<rparr>)"

inductive_cases console_stepE: "console_step handler s s'"

text \<open>A program that holds the lock only while it has interrupts disabled, and leaves neither behind.\<close>

fun masked_locking :: "bool \<Rightarrow> bool \<Rightarrow> instr list \<Rightarrow> bool" where
  "masked_locking l m [] \<longleftrightarrow> \<not> l \<and> \<not> m"
| "masked_locking l m (Take_Lock # c) \<longleftrightarrow> \<not> l \<and> m \<and> masked_locking True m c"
| "masked_locking l m (Drop_Lock # c) \<longleftrightarrow> l \<and> m \<and> masked_locking False m c"
| "masked_locking l m (Write_Text # c) \<longleftrightarrow> masked_locking l m c"
| "masked_locking l m (Save_Disable # c) \<longleftrightarrow> \<not> m \<and> \<not> l \<and> masked_locking l True c"
| "masked_locking l m (Restore # c) \<longleftrightarrow> m \<and> \<not> l \<and> masked_locking l False c"
| "masked_locking l m (Eoi # c) \<longleftrightarrow> masked_locking l m c"

definition console_inv :: "console \<Rightarrow> bool" where
  "console_inv s \<longleftrightarrow> (\<exists>f fs m. stack s = f # fs \<and> masked_locking (locked s) m (code f) \<and>
     (locked s \<longrightarrow> m) \<and> (m \<longrightarrow> \<not> int_flag s) \<and> (\<forall>g\<in>set fs. masked_locking False False (code g)))"

lemma console_invI:
  "stack s = f # fs \<Longrightarrow> masked_locking (locked s) m (code f) \<Longrightarrow> (locked s \<Longrightarrow> m) \<Longrightarrow> (m \<Longrightarrow> \<not> int_flag s) \<Longrightarrow>
    (\<And>g. g \<in> set fs \<Longrightarrow> masked_locking False False (code g)) \<Longrightarrow> console_inv s"
  unfolding console_inv_def by blast

lemma masked_locking_append:
  "masked_locking l m c \<Longrightarrow> masked_locking False False d \<Longrightarrow> masked_locking l m (c @ d)"
  by (induction l m c rule: masked_locking.induct) auto

lemma console_step_inv:
  assumes "console_step handler s s'" and "masked_locking False False handler" and "console_inv s"
  shows "console_inv s'"
proof -
  obtain f fs m where s: "stack s = f # fs" "masked_locking (locked s) m (code f)" "locked s \<longrightarrow> m"
      "m \<longrightarrow> \<not> int_flag s" "\<forall>g\<in>set fs. masked_locking False False (code g)"
    using assms(3) unfolding console_inv_def by blast
  from assms(1) show ?thesis
  proof cases
    case (acquire f' fs' c)
    then show ?thesis using s by (intro console_invI [of _ "f\<lparr>code := c\<rparr>" fs m]) auto
  next
    case (release f' fs' c)
    then show ?thesis using s by (intro console_invI [of _ "f\<lparr>code := c\<rparr>" fs m]) auto
  next
    case (write_text f' fs' c)
    then show ?thesis using s by (intro console_invI [of _ "f\<lparr>code := c\<rparr>" fs m]) auto
  next
    case (end_of_interrupt f' fs' c)
    then show ?thesis using s by (intro console_invI [of _ "f\<lparr>code := c\<rparr>" fs m]) auto
  next
    case (save_disable f' fs' c)
    then show ?thesis using s by (intro console_invI [of _ "f\<lparr>code := c, saved := int_flag s\<rparr>" fs True]) auto
  next
    case (restore f' fs' c)
    then show ?thesis using s by (intro console_invI [of _ "f\<lparr>code := c\<rparr>" fs False]) auto
  next
    case (return_from_interrupt f' g fs')
    then show ?thesis using s by (intro console_invI [of _ g fs' False]) auto
  next
    case timer_interrupt
    then show ?thesis using s assms(2)
      by (intro console_invI [of _ "\<lparr>code = handler, saved = False\<rparr>" "stack s" False]) auto
  qed
qed

text \<open>In a state with the invariant, the running activation is at its end or makes a step.\<close>

lemma console_progress:
  assumes "console_inv s" and "stack s = f # fs" and "code f \<noteq> [] \<or> fs \<noteq> []"
  shows "\<exists>s'. console_step handler s s'"
proof (cases "code f")
  case Nil
  then show ?thesis using assms(2,3) by (cases fs) (auto intro: return_from_interrupt)
next
  case (Cons i c)
  have "i = Take_Lock \<longrightarrow> \<not> locked s" using assms(1,2) Cons by (auto simp: console_inv_def)
  then show ?thesis using assms(2) Cons by (cases i) (auto intro: console_step.intros)
qed

lemma console_reachable_inv:
  assumes "(console_step handler)\<^sup>*\<^sup>* (console_start main) s"
    and "masked_locking False False main" and "masked_locking False False handler"
  shows "console_inv s"
  using assms(1)
proof (induction rule: rtranclp_induct)
  case base
  show ?case using assms(2) by (intro console_invI [of _ "\<lparr>code = main, saved = False\<rparr>" "[]" False]) (auto simp: console_start_def)
next
  case (step s s')
  then show ?case using console_step_inv assms(3) by blast
qed


section \<open>Properties\<close>



text \<open>
  C39. Printing on the framebuffer can deadlock: whatever the program does after its first print, a timer
  interrupt while it holds the lock leads to a state in which the handler waits for the lock with
  interrupts disabled, and no step is possible.
\<close>

theorem framebuffer_print_deadlocks:
  "\<exists>s f fs. (console_step (timer_handler framebuffer_print))\<^sup>*\<^sup>* (console_start (framebuffer_print @ rest)) s \<and>
    stack s = f # fs \<and> code f \<noteq> [] \<and> (\<forall>s'. \<not> console_step (timer_handler framebuffer_print) s s')"
proof -
  let ?h = "timer_handler framebuffer_print" and ?s0 = "console_start (framebuffer_print @ rest)"
  let ?m = "\<lparr>code = Write_Text # Drop_Lock # rest, saved = False\<rparr>"
  let ?s1 = "\<lparr>stack = [?m], locked = True, int_flag = True\<rparr>"
  let ?s2 = "\<lparr>stack = [\<lparr>code = ?h, saved = False\<rparr>, ?m], locked = True, int_flag = False\<rparr>"
  have "console_step ?h ?s0 ?s1"
    using acquire [of ?s0 "\<lparr>code = framebuffer_print @ rest, saved = False\<rparr>" "[]" "Write_Text # Drop_Lock # rest" ?h]
    by (simp add: console_start_def framebuffer_print_def)
  moreover have "console_step ?h ?s1 ?s2" using timer_interrupt [of ?s1 ?h] by simp
  moreover have "\<not> console_step ?h ?s2 s'" for s'
    by (rule notI, erule console_stepE) (auto simp: timer_handler_def framebuffer_print_def)
  moreover have "?h \<noteq> []" by (simp add: timer_handler_def)
  ultimately show ?thesis by (intro exI [of _ ?s2]) auto
qed

end
